(* ===== verification/Prelude.thy ===== *)
theory Prelude
  imports Main "HOL-Library.Monad_Syntax" "HOL-Library.Code_Target_Nat"
begin

text \<open>
  Shared vocabulary of the development: the widths of the C integer types on the LP64 target
  the repository is built for, the narrowing conversions C performs silently, the byte
  representation that \<^verbatim>\<open>memcpy\<close> moves around, and the generic list lemmas the components share.

  Sizes, indices and addresses are natural numbers, signed payloads are integers; wherever the
  C code computes in a fixed width and a value can leave it, the narrowing functions below are
  written out.  Partiality (an assertion that aborts, an out-of-bounds access, a recursion that
  runs out of fuel) is the value \<^term>\<open>None\<close> of an option type.
\<close>

named_theorems narrow_simps \<open>unfolding of the narrowing conversions\<close>
named_theorems bytes_simps \<open>length and inversion of byte encodings\<close>

section \<open>Widths and narrowing\<close>

abbreviation W16 :: nat where "W16 \<equiv> 65536"
abbreviation W32 :: nat where "W32 \<equiv> 4294967296"
abbreviation W64 :: nat where "W64 \<equiv> 18446744073709551616"

text \<open>Conversions to the unsigned types \<^verbatim>\<open>uoffset_t\<close>, \<^verbatim>\<open>count_t\<close> and \<^verbatim>\<open>size_t\<close>.\<close>

definition u16 :: "nat \<Rightarrow> nat" where [narrow_simps]: "u16 n = n mod W16"
definition u32 :: "nat \<Rightarrow> nat" where [narrow_simps]: "u32 n = n mod W32"
definition u64 :: "nat \<Rightarrow> nat" where [narrow_simps]: "u64 n = n mod W64"

text \<open>Conversion of a signed value to an unsigned type: reduction modulo the width.\<close>

definition u32_of_int :: "int \<Rightarrow> nat" where
  [narrow_simps]: "u32_of_int x = nat (x mod 4294967296)"
definition u64_of_int :: "int \<Rightarrow> nat" where
  [narrow_simps]: "u64_of_int x = nat (x mod 18446744073709551616)"

text \<open>Conversion to the signed type \<^verbatim>\<open>offset_t\<close> (two's complement, as the target compilers do).\<close>

definition s16 :: "int \<Rightarrow> int" where
  [narrow_simps]: "s16 x = (x + 32768) mod 65536 - 32768"
definition s64_of_nat :: "nat \<Rightarrow> int" where
  [narrow_simps]: "s64_of_nat n =
     (if n mod W64 < 9223372036854775808 then int (n mod W64) else int (n mod W64) - 18446744073709551616)"

lemma u16_id [simp]: "n < W16 \<Longrightarrow> u16 n = n"
  by (simp add: u16_def)

lemma u32_id [simp]: "n < W32 \<Longrightarrow> u32 n = n"
  by (simp add: u32_def)

lemma u64_id [simp]: "n < W64 \<Longrightarrow> u64 n = n"
  by (simp add: u64_def)

lemma u16_less [simp, intro]: "u16 n < W16"
  by (simp add: u16_def)

lemma u32_less [simp, intro]: "u32 n < W32"
  by (simp add: u32_def)

lemma u64_less [simp, intro]: "u64 n < W64"
  by (simp add: u64_def)

lemma s16_range: "-32768 \<le> s16 x" "s16 x < 32768"
  by (simp_all add: s16_def)

lemma s16_id [simp]: "-32768 \<le> x \<Longrightarrow> x < 32768 \<Longrightarrow> s16 x = x"
  by (simp add: s16_def)

lemma u32_of_int_id [simp]: "0 \<le> x \<Longrightarrow> x < 4294967296 \<Longrightarrow> u32_of_int x = nat x"
  by (simp add: u32_of_int_def)

lemma u64_of_int_id [simp]: "0 \<le> x \<Longrightarrow> x < 18446744073709551616 \<Longrightarrow> u64_of_int x = nat x"
  by (simp add: u64_of_int_def)

lemma u64_of_int_less [simp]: "u64_of_int x < W64"
  by (simp add: u64_of_int_def nat_less_iff)

lemma s64_range: "-9223372036854775808 \<le> s64_of_nat n" "s64_of_nat n < 9223372036854775808"
  by (auto simp: s64_of_nat_def)

lemma s64_of_u64_of_int [simp]:
  assumes "-9223372036854775808 \<le> x" "x < 9223372036854775808"
  shows "s64_of_nat (u64_of_int x) = x"
proof (cases "0 \<le> x")
  case True
  with assms show ?thesis by (simp add: s64_of_nat_def u64_of_int_def)
next
  case False
  have "x mod 18446744073709551616 = x + 18446744073709551616"
    using assms False mod_add_self2 [of x 18446744073709551616]
    by (smt (verit) mod_pos_pos_trivial)
  with assms False show ?thesis by (simp add: s64_of_nat_def u64_of_int_def)
qed

section \<open>Little-endian byte strings\<close>

type_synonym byte = nat

text \<open>
  The object representation of an unsigned value of \<open>k\<close> bytes, and its inverse.  All of the
  code's \<^verbatim>\<open>memcpy\<close>s between integers and byte buffers are these two functions.  Every byte
  they produce is below 256.
\<close>

fun bytes_of_nat :: "nat \<Rightarrow> nat \<Rightarrow> byte list" where
  "bytes_of_nat 0 n = []"
| "bytes_of_nat (Suc k) n = (n mod 256) # bytes_of_nat k (n div 256)"

fun nat_of_bytes :: "byte list \<Rightarrow> nat" where
  "nat_of_bytes [] = 0"
| "nat_of_bytes (b # bs) = b + 256 * nat_of_bytes bs"

lemma length_bytes_of_nat [simp, bytes_simps]: "length (bytes_of_nat k n) = k"
  by (induction k arbitrary: n) auto

lemma bytes_of_nat_bytes [simp]: "b \<in> set (bytes_of_nat k n) \<Longrightarrow> b < 256"
  by (induction k arbitrary: n) auto

lemma nat_of_bytes_of_nat [bytes_simps]: "nat_of_bytes (bytes_of_nat k n) = n mod 256 ^ k"
proof (induction k arbitrary: n)
  case 0
  then show ?case by simp
next
  case (Suc k)
  have "nat_of_bytes (bytes_of_nat (Suc k) n) = n mod 256 + 256 * (n div 256 mod 256 ^ k)"
    by (simp add: Suc.IH)
  also have "\<dots> = n mod (256 * 256 ^ k)"
    by (simp add: mod_mult2_eq)
  finally show ?case by simp
qed

lemma nat_of_bytes_less: "\<forall>b\<in>set bs. b < 256 \<Longrightarrow> nat_of_bytes bs < 256 ^ length bs"
proof (induction bs)
  case Nil
  then show ?case by simp
next
  case (Cons b bs)
  have "a + 256 * x < 256 * y" if "a < 256" "x < y" for a x y :: nat
    using that by linarith
  from this [of b] Cons show ?case by simp
qed

lemma bytes_of_nat_of_bytes [bytes_simps]:
  "\<forall>b\<in>set bs. b < 256 \<Longrightarrow> bytes_of_nat (length bs) (nat_of_bytes bs) = bs"
  by (induction bs) auto

lemma bytes_of_nat_mod: "bytes_of_nat k (n mod 256 ^ k) = bytes_of_nat k n"
  by (metis bytes_of_nat_bytes bytes_of_nat_of_bytes length_bytes_of_nat nat_of_bytes_of_nat)

section \<open>Lists used as arrays\<close>

lemma nth_append_fresh: "i < length xs \<Longrightarrow> (xs @ ys) ! i = xs ! i"
  by (simp add: nth_append)

lemma list_update_append_left: "i < length xs \<Longrightarrow> (xs @ ys)[i := v] = xs[i := v] @ ys"
  by (simp add: list_update_append)

text \<open>Overwriting a stretch of an array in place, as a \<^verbatim>\<open>memcpy\<close> into the middle of a buffer does.\<close>

definition splice :: "'a list \<Rightarrow> nat \<Rightarrow> 'a list \<Rightarrow> 'a list" where
  "splice xs at ys = take at xs @ ys @ drop (at + length ys) xs"

lemma length_splice [simp]: "at + length ys \<le> length xs \<Longrightarrow> length (splice xs at ys) = length xs"
  by (simp add: splice_def)

lemma nth_splice:
  assumes "at + length ys \<le> length xs" "i < length xs"
  shows "splice xs at ys ! i = (if at \<le> i \<and> i < at + length ys then ys ! (i - at) else xs ! i)"
  using assms by (auto simp: splice_def nth_append min_def)

lemma splice_window:
  assumes "at + length ys \<le> length xs"
  shows "take (length ys) (drop at (splice xs at ys)) = ys"
  using assms by (simp add: splice_def)

end
