(* ===== verification/Ir.thy ===== *)
theory Ir
  imports Prelude
begin

text \<open>
  The data model of \<^verbatim>\<open>ir.h\<close>: operations, blocks, types, signatures, functions and globals.

  A C struct is a record, a tagged union is a datatype whose constructors keep the names of the
  enumeration.  A \<^verbatim>\<open>SLICE\<close> or \<^verbatim>\<open>STACK\<close> of the C code is a list; indices into one are natural
  numbers, with the sentinels \<^verbatim>\<open>BLOCK_INVALID\<close> and \<^verbatim>\<open>TYPE_INVALID_ID\<close> kept as the numbers
  they are.  A possibly null name is an option.
\<close>

section \<open>Sizes and sentinels of the target\<close>

definition sizeof_num :: nat where "sizeof_num = 8"
definition sizeof_count :: nat where "sizeof_count = 4"
definition sizeof_ptr :: nat where "sizeof_ptr = 8"
definition alignof_num :: nat where "alignof_num = 8"
definition alignof_count :: nat where "alignof_count = 4"
definition alignof_ptr :: nat where "alignof_ptr = 8"
definition CELL_ALIGN :: nat where "CELL_ALIGN = 8"

lemmas size_consts = sizeof_num_def sizeof_count_def sizeof_ptr_def
  alignof_num_def alignof_count_def alignof_ptr_def CELL_ALIGN_def

definition TYPE_INT_ID :: nat where "TYPE_INT_ID = 0"
definition TYPE_BYTE_ID :: nat where "TYPE_BYTE_ID = 1"
definition TYPE_INVALID_ID :: nat where "TYPE_INVALID_ID = 4294967295"
definition BLOCK_INVALID :: nat where "BLOCK_INVALID = 4294967295"

lemmas ir_consts = TYPE_INT_ID_def TYPE_BYTE_ID_def TYPE_INVALID_ID_def BLOCK_INVALID_def

section \<open>Variables, signatures and types\<close>

record var =
  v_tid :: nat
  v_name :: "string option"

record sig_input =
  si_var :: var
  si_mut :: bool

record sig =
  s_ins :: "sig_input list"
  s_outs :: "var list"

record type_field =
  f_name :: "string option"
  f_tid :: nat
  f_offset :: nat

text \<open>
  \<^verbatim>\<open>TYPE_KIND\<close> together with the union \<^verbatim>\<open>Type.data\<close> it selects: an array carries its element
  type, capacity and the data offset the layout pass fills in.
\<close>

datatype type_kind =
    TYPE_INT
  | TYPE_BYTE
  | TYPE_ARRAY (arr_elem: nat) (arr_capacity: nat) (arr_data_offset: nat)
  | TYPE_SLICE (ref_elem: nat)
  | TYPE_VIEW (ref_elem: nat)
  | TYPE_STRUCT (fields: "type_field list")
  | TYPE_NATIVE_FUNC_POINTER (nf_sig: sig)

record ctype =
  t_kind :: type_kind
  t_name :: "string option"
  t_portal :: bool
  t_payload :: nat
  t_size :: nat
  t_align :: nat

definition type_int :: ctype where
  "type_int = \<lparr>t_kind = TYPE_INT, t_name = Some ''int'', t_portal = False,
     t_payload = sizeof_num, t_size = 0, t_align = alignof_num\<rparr>"

definition type_byte :: ctype where
  "type_byte = \<lparr>t_kind = TYPE_BYTE, t_name = Some ''byte'', t_portal = False,
     t_payload = 1, t_size = 0, t_align = 1\<rparr>"

definition type_array :: "nat \<Rightarrow> nat \<Rightarrow> ctype" where
  "type_array elem capacity = \<lparr>t_kind = TYPE_ARRAY elem capacity 0, t_name = None, t_portal = False,
     t_payload = 0, t_size = 0, t_align = 0\<rparr>"

definition type_slice :: "nat \<Rightarrow> ctype" where
  "type_slice elem = \<lparr>t_kind = TYPE_SLICE elem, t_name = Some ''Slice'', t_portal = True,
     t_payload = 0, t_size = 0, t_align = 0\<rparr>"

definition type_view :: "nat \<Rightarrow> ctype" where
  "type_view elem = \<lparr>t_kind = TYPE_VIEW elem, t_name = Some ''View'', t_portal = True,
     t_payload = 0, t_size = 0, t_align = 0\<rparr>"

definition type_struct :: "string option \<Rightarrow> type_field list \<Rightarrow> ctype" where
  "type_struct name fs = \<lparr>t_kind = TYPE_STRUCT fs, t_name = name, t_portal = False,
     t_payload = 0, t_size = 0, t_align = 0\<rparr>"

lemmas type_mk_defs = type_int_def type_byte_def type_array_def type_slice_def type_view_def
  type_struct_def

definition type_idx_valid :: "ctype list \<Rightarrow> nat \<Rightarrow> bool" where
  "type_idx_valid types tid \<longleftrightarrow> tid < length types"

definition type_is_builtin :: "nat \<Rightarrow> bool" where
  "type_is_builtin tid \<longleftrightarrow> tid = TYPE_INT_ID \<or> tid = TYPE_BYTE_ID"

text \<open>The assertion of \<^verbatim>\<open>type_stack_size\<close> aborts on an invalid index.\<close>

definition type_stack_size :: "ctype list \<Rightarrow> nat \<Rightarrow> nat option" where
  "type_stack_size types tid = (if type_idx_valid types tid then Some (t_size (types ! tid)) else None)"

definition type_slice_len_offset :: nat where
  "type_slice_len_offset = (sizeof_ptr + alignof_count - 1) div alignof_count * alignof_count"

definition type_slice_payload_size :: nat where
  "type_slice_payload_size = type_slice_len_offset + sizeof_count"

lemma slice_layout [simp]: "type_slice_len_offset = 8" "type_slice_payload_size = 12"
  by (simp_all add: type_slice_len_offset_def type_slice_payload_size_def size_consts)

section \<open>Operations and blocks\<close>

datatype op_kind =
    OP_NULL
  | OP_CALL
  | OP_CALL_NATIVE_ON_STACK
  | OP_ASSIGN
  | OP_ADD_ASSIGN
  | OP_SUB_ASSIGN
  | OP_MUL_ASSIGN
  | OP_DIV_ASSIGN
  | OP_AND_ASSIGN
  | OP_OR_ASSIGN
  | OP_XOR_ASSIGN
  | OP_BIT_NOT_ASSIGN
  | OP_DROP
  | OP_PUSH_VAR
  | OP_PUSH_ARG
  | OP_PUSH_GLOBAL
  | OP_ARR_PUSH
  | OP_ARR_AT
  | OP_ARR_DROP
  | OP_SLICE_FROM_AR
  | OP_SLICE_AT
  | OP_SLICE_INC
  | OP_SLICE_DEC
  | OP_STRUCT_AT
  | OP_SLICE_FROM_ONE

record op =
  o_kind :: op_kind
  o_extra :: nat

record op_range =
  r_start :: nat
  r_len :: nat

datatype block =
    BLOCK_BASIC op_range
  | BLOCK_DEFER (d_next: nat) (d_defer: nat)
  | BLOCK_MANY (m_cur: nat) (m_next: nat)
  | BLOCK_CHAIN (m_cur: nat) (m_next: nat)
  | BLOCK_CRASH
  | BLOCK_HARD_CRASH
  | BLOCK_CRASH_PAD (p_body: nat) (p_pad: nat)
  | BLOCK_BRANCH (b_cond: op_range) (b_yes: nat) (b_no: nat)
  | BLOCK_LOOP (l_body: nat)
  | BLOCK_BREAK (b_level: nat)
  | BLOCK_VAR (bv_var: nat) (bv_body: nat)

section \<open>Functions, globals and compiled code\<close>

text \<open>
  A piece of compiled code is the address of its buffer together with the bytes in it; the
  null address stands for ``not compiled''.
\<close>

record vm_code =
  code_addr :: nat
  code_bytes :: "byte list"

definition no_code :: vm_code where "no_code = \<lparr>code_addr = 0, code_bytes = []\<rparr>"

record func =
  fn_name :: "string option"
  fn_sig :: sig
  fn_types :: "ctype list"
  fn_blocks :: "block list"
  fn_ops :: "op list"
  fn_vars :: "var list"

record global =
  g_var :: var
  g_mem :: nat
  g_owned :: bool
  g_mut :: bool

text \<open>\<^verbatim>\<open>vm_code_free\<close> and \<^verbatim>\<open>vm_func_s_free\<close>: the slots are emptied, then the table.\<close>

definition vm_code_free :: "vm_code \<Rightarrow> vm_code" where
  "vm_code_free c = no_code"

definition vm_func_s_free :: "vm_code list \<Rightarrow> vm_code list" where
  "vm_func_s_free cs = []"

end
