(* ===== verification/Layout_Inv.thy ===== *)
theory Layout_Inv
  imports Layout
begin

text \<open>
  What a laid out type table is, and the invariants of the layout pass that lead there: what a
  call may change (\<^verbatim>\<open>layout_ext\<close>), what holds of the finished types (\<^verbatim>\<open>layout_inv\<close>), its
  termination on every table and its success on the acyclic ones.
\<close>

section \<open>What a laid out table is\<close>

text \<open>
  The contract of the pass, independent of the traversal: each entry satisfies the layout
  equations over the entries it refers to.
\<close>

definition up :: "nat \<Rightarrow> nat \<Rightarrow> nat" where
  "up n a = u64 (n + a - 1) div a * a"

fun children :: "type_kind \<Rightarrow> nat list" where
  "children (TYPE_ARRAY e c off) = [e]"
| "children (TYPE_SLICE e) = [e]"
| "children (TYPE_VIEW e) = [e]"
| "children (TYPE_STRUCT fs) = map f_tid fs"
| "children _ = []"

fun fields_end :: "ctype list \<Rightarrow> nat \<Rightarrow> nat \<Rightarrow> type_field list \<Rightarrow> (nat \<times> nat) option" where
  "fields_end types off ma [] = Some (off, ma)"
| "fields_end types off ma (f # fs) =
     (let t = types ! f_tid f in
      if f_offset f = up off (t_align t)
      then fields_end types (u64 (f_offset f + t_payload t)) (max ma (t_align t)) fs
      else None)"

definition laid :: "ctype list \<Rightarrow> nat \<Rightarrow> bool" where
  "laid types tid \<longleftrightarrow>
    (let t = types ! tid in
     t_size t = up (t_payload t) CELL_ALIGN \<and>
     (case t_kind t of
        TYPE_INT \<Rightarrow> t_payload t = 8 \<and> t_align t = 8
      | TYPE_BYTE \<Rightarrow> t_payload t = 1 \<and> t_align t = 1
      | TYPE_ARRAY e c off \<Rightarrow>
          off = up 4 (t_align (types ! e)) \<and>
          t_align t = max (t_align (types ! e)) 4 \<and>
          t_payload t = up (u64 (off + t_payload (types ! e) * c)) (t_align t) \<and>
          t_portal t = t_portal (types ! e)
      | TYPE_SLICE e \<Rightarrow> t_payload t = 12 \<and> t_align t = 8 \<and> t_portal t
      | TYPE_VIEW e \<Rightarrow> t_payload t = 12 \<and> t_align t = 8 \<and> t_portal t
      | TYPE_STRUCT fs \<Rightarrow>
          (case fields_end types 0 1 fs of
             None \<Rightarrow> False
           | Some (off, ma) \<Rightarrow> t_align t = ma \<and> t_payload t = up off ma) \<and>
          t_portal t = list_ex (\<lambda>f. t_portal (types ! f_tid f)) fs
      | TYPE_NATIVE_FUNC_POINTER s \<Rightarrow> t_payload t = 8 \<and> t_align t = 8 \<and> sig_types_valid types s))"

text \<open>The part of an entry the pass does not write.\<close>

fun skind :: "type_kind \<Rightarrow> type_kind" where
  "skind (TYPE_ARRAY e c off) = TYPE_ARRAY e c 0"
| "skind (TYPE_STRUCT fs) = TYPE_STRUCT (map (\<lambda>f. f\<lparr>f_offset := 0\<rparr>) fs)"
| "skind k = k"

text \<open>The portal flag of a builtin or a native function pointer is the caller's; the pass derives the others.\<close>

fun composite :: "type_kind \<Rightarrow> bool" where
  "composite TYPE_INT = False"
| "composite TYPE_BYTE = False"
| "composite (TYPE_NATIVE_FUNC_POINTER s) = False"
| "composite _ = True"

definition skel :: "ctype \<Rightarrow> type_kind \<times> string option \<times> bool" where
  "skel t = (skind (t_kind t), t_name t, \<not> composite (t_kind t) \<and> t_portal t)"

definition types_acyclic :: "ctype list \<Rightarrow> bool" where
  "types_acyclic types \<longleftrightarrow>
     (\<exists>rank :: nat \<Rightarrow> nat. \<forall>j < length types. \<forall>c \<in> set (children (t_kind (types ! j))). rank c < rank j)"

definition types_closed :: "ctype list \<Rightarrow> bool" where
  "types_closed types \<longleftrightarrow>
     (\<forall>t \<in> set types.
        (\<forall>c \<in> set (children (t_kind t)). type_idx_valid types c) \<and>
        (\<forall>s. t_kind t = TYPE_NATIVE_FUNC_POINTER s \<longrightarrow> sig_types_valid types s))"

definition types_builtins :: "ctype list \<Rightarrow> bool" where
  "types_builtins types \<longleftrightarrow> 2 \<le> length types \<and>
     t_kind (types ! TYPE_INT_ID) = TYPE_INT \<and> t_kind (types ! TYPE_BYTE_ID) = TYPE_BYTE"

section \<open>The invariant of the traversal\<close>

lemma align_up_up: "a \<noteq> 0 \<Longrightarrow> align_up n a = Some (up n a)"
  by (simp add: align_up_def up_def)

lemma children_skind [simp]: "children (skind k) = children k"
  by (cases k) auto

lemma composite_skind [simp]: "composite (skind k) = composite k"
  by (cases k) auto

lemma skel_children: "skel t = skel t' \<Longrightarrow> children (t_kind t) = children (t_kind t')"
  by (metis children_skind fst_conv skel_def)

lemma fields_end_cong:
  "(\<forall>f\<in>set fs. types' ! f_tid f = types ! f_tid f) \<Longrightarrow> fields_end types' off ma fs = fields_end types off ma fs"
  by (induction fs arbitrary: off ma) (auto simp: Let_def)

lemma laid_cong:
  assumes "types' ! tid = types ! tid" "length types' = length types"
    and "\<forall>c\<in>set (children (t_kind (types ! tid))). types' ! c = types ! c"
  shows "laid types' tid = laid types tid"
proof (cases "t_kind (types ! tid)")
  case (TYPE_STRUCT fs)
  with assms have eq: "\<forall>f\<in>set fs. types' ! f_tid f = types ! f_tid f" by simp
  then have "list_ex (\<lambda>f. t_portal (types' ! f_tid f)) fs = list_ex (\<lambda>f. t_portal (types ! f_tid f)) fs"
    by (auto simp: list_ex_iff)
  with TYPE_STRUCT assms(1) fields_end_cong [OF eq] show ?thesis
    by (simp add: laid_def Let_def)
qed (use assms in \<open>simp_all add: laid_def Let_def sig_types_valid_def type_idx_valid_def\<close>)

definition layout_inv :: "ctype list \<Rightarrow> lstate list \<Rightarrow> bool" where
  "layout_inv types st \<longleftrightarrow> length st = length types \<and>
     (\<forall>j < length types. st ! j = TYPE_LAYOUT_DONE \<longrightarrow>
        laid types j \<and> t_align (types ! j) \<in> {1, 4, 8} \<and>
        (\<forall>c \<in> set (children (t_kind (types ! j))). c < length types \<and> st ! c = TYPE_LAYOUT_DONE)) \<and>
     (\<exists>rank :: nat \<Rightarrow> nat. \<forall>j < length types. st ! j = TYPE_LAYOUT_DONE \<longrightarrow>
        (\<forall>c \<in> set (children (t_kind (types ! j))). rank c < rank j))"

definition layout_ext :: "nat set \<Rightarrow> ctype list \<Rightarrow> lstate list \<Rightarrow> ctype list \<Rightarrow> lstate list \<Rightarrow> bool" where
  "layout_ext X types st types' st' \<longleftrightarrow>
     length types' = length types \<and> length st' = length st \<and>
     (\<forall>j < length types. skel (types' ! j) = skel (types ! j)) \<and>
     (\<forall>j < length types. st ! j \<noteq> TYPE_LAYOUT_PENDING \<longrightarrow>
        st' ! j = st ! j \<and> (j \<notin> X \<longrightarrow> types' ! j = types ! j))"

lemma layout_ext_refl [simp]: "layout_ext X types st types st"
  by (simp add: layout_ext_def)

lemma layout_ext_trans:
  "layout_ext X types st types1 st1 \<Longrightarrow> layout_ext X types1 st1 types2 st2 \<Longrightarrow>
   layout_ext X types st types2 st2"
  by (auto simp: layout_ext_def)

lemma layout_ext_mono: "layout_ext X types st types' st' \<Longrightarrow> X \<subseteq> Y \<Longrightarrow> layout_ext Y types st types' st'"
  by (auto simp: layout_ext_def)

lemma layout_inv_len: "layout_inv types st \<Longrightarrow> length st = length types"
  by (simp add: layout_inv_def)

lemma layout_inv_done:
  assumes "layout_inv types st" "j < length types" "st ! j = TYPE_LAYOUT_DONE"
  shows "laid types j" "t_align (types ! j) \<in> {1, 4, 8}"
  using assms unfolding layout_inv_def by blast+

lemma layout_inv_child:
  assumes "layout_inv types st" "j < length types" "st ! j = TYPE_LAYOUT_DONE"
    and "c \<in> set (children (t_kind (types ! j)))"
  shows "c < length types" "st ! c = TYPE_LAYOUT_DONE"
  using assms unfolding layout_inv_def by blast+

lemma layout_inv_rank:
  assumes "layout_inv types st"
  obtains rank :: "nat \<Rightarrow> nat" where
    "\<And>j c. j < length types \<Longrightarrow> st ! j = TYPE_LAYOUT_DONE \<Longrightarrow>
      c \<in> set (children (t_kind (types ! j))) \<Longrightarrow> rank c < rank j"
  using assms unfolding layout_inv_def by blast

lemma layout_invI:
  fixes rank :: "nat \<Rightarrow> nat"
  assumes "length st = length types"
    and "\<And>j. j < length types \<Longrightarrow> st ! j = TYPE_LAYOUT_DONE \<Longrightarrow> laid types j \<and> t_align (types ! j) \<in> {1, 4, 8}"
    and "\<And>j c. j < length types \<Longrightarrow> st ! j = TYPE_LAYOUT_DONE \<Longrightarrow>
      c \<in> set (children (t_kind (types ! j))) \<Longrightarrow> c < length types \<and> st ! c = TYPE_LAYOUT_DONE \<and> rank c < rank j"
  shows "layout_inv types st"
  unfolding layout_inv_def using assms by (intro conjI exI [of _ rank] allI impI ballI) blast+

lemma layout_inv_upd:
  assumes inv: "layout_inv types st" and nd: "st ! tid \<noteq> TYPE_LAYOUT_DONE"
  shows "layout_inv (types[tid := t]) st"
proof -
  obtain rank :: "nat \<Rightarrow> nat" where rank: "\<And>j c. j < length types \<Longrightarrow> st ! j = TYPE_LAYOUT_DONE \<Longrightarrow>
      c \<in> set (children (t_kind (types ! j))) \<Longrightarrow> rank c < rank j"
    using layout_inv_rank [OF inv] by blast
  show ?thesis
  proof (rule layout_invI [where rank = rank])
    show "length st = length (types[tid := t])" using inv by (simp add: layout_inv_len)
  next
    fix j assume j: "j < length (types[tid := t])" "st ! j = TYPE_LAYOUT_DONE"
    then have ne: "j \<noteq> tid" and j': "j < length types" using nd by auto
    have "\<forall>c \<in> set (children (t_kind (types ! j))). types[tid := t] ! c = types ! c"
      using layout_inv_child(2) [OF inv j' j(2)] nd by (metis nth_list_update_neq)
    then have "laid (types[tid := t]) j = laid types j"
      using ne by (intro laid_cong) simp_all
    with layout_inv_done [OF inv j' j(2)] ne
    show "laid (types[tid := t]) j \<and> t_align (types[tid := t] ! j) \<in> {1, 4, 8}" by simp
  next
    fix j c assume j: "j < length (types[tid := t])" "st ! j = TYPE_LAYOUT_DONE"
      and c: "c \<in> set (children (t_kind (types[tid := t] ! j)))"
    then have ne: "j \<noteq> tid" and j': "j < length types" using nd by auto
    with c have c': "c \<in> set (children (t_kind (types ! j)))" by simp
    show "c < length (types[tid := t]) \<and> st ! c = TYPE_LAYOUT_DONE \<and> rank c < rank j"
      using layout_inv_child [OF inv j' j(2) c'] rank [OF j' j(2) c'] by simp
  qed
qed

lemma layout_inv_active:
  assumes inv: "layout_inv types st" and nd: "st ! tid \<noteq> TYPE_LAYOUT_DONE"
  shows "layout_inv types (st[tid := TYPE_LAYOUT_ACTIVE])"
proof -
  have eq: "(st[tid := TYPE_LAYOUT_ACTIVE] ! j = TYPE_LAYOUT_DONE) = (st ! j = TYPE_LAYOUT_DONE)"
    if "j < length types" for j
    using nd that layout_inv_len [OF inv] by (cases "j = tid") simp_all
  obtain rank :: "nat \<Rightarrow> nat" where rank: "\<And>j c. j < length types \<Longrightarrow> st ! j = TYPE_LAYOUT_DONE \<Longrightarrow>
      c \<in> set (children (t_kind (types ! j))) \<Longrightarrow> rank c < rank j"
    using layout_inv_rank [OF inv] by blast
  show ?thesis
  proof (rule layout_invI [where rank = rank])
    show "length (st[tid := TYPE_LAYOUT_ACTIVE]) = length types" using layout_inv_len [OF inv] by simp
  next
    fix j assume "j < length types" "st[tid := TYPE_LAYOUT_ACTIVE] ! j = TYPE_LAYOUT_DONE"
    then show "laid types j \<and> t_align (types ! j) \<in> {1, 4, 8}"
      using layout_inv_done [OF inv] eq by blast
  next
    fix j c assume j: "j < length types" "st[tid := TYPE_LAYOUT_ACTIVE] ! j = TYPE_LAYOUT_DONE"
      and c: "c \<in> set (children (t_kind (types ! j)))"
    then have dj: "st ! j = TYPE_LAYOUT_DONE" using eq by blast
    show "c < length types \<and> st[tid := TYPE_LAYOUT_ACTIVE] ! c = TYPE_LAYOUT_DONE \<and> rank c < rank j"
      using layout_inv_child [OF inv j(1) dj c] rank [OF j(1) dj c] eq by blast
  qed
qed

lemma layout_inv_finish:
  assumes inv: "layout_inv types st" and tid: "tid < length types" "st ! tid \<noteq> TYPE_LAYOUT_DONE"
    and laid: "laid types tid" and al: "t_align (types ! tid) \<in> {1, 4, 8}"
    and ch: "\<forall>c \<in> set (children (t_kind (types ! tid))). c < length types \<and> st ! c = TYPE_LAYOUT_DONE"
  shows "layout_inv types (st[tid := TYPE_LAYOUT_DONE])"
proof -
  let ?st = "st[tid := TYPE_LAYOUT_DONE]"
  note len = layout_inv_len [OF inv]
  have dn: "?st ! c = TYPE_LAYOUT_DONE" if "st ! c = TYPE_LAYOUT_DONE" for c
    using that tid len by (cases "c = tid") simp_all
  obtain rank :: "nat \<Rightarrow> nat" where rank: "\<And>j c. j < length types \<Longrightarrow> st ! j = TYPE_LAYOUT_DONE \<Longrightarrow>
      c \<in> set (children (t_kind (types ! j))) \<Longrightarrow> rank c < rank j"
    using layout_inv_rank [OF inv] by blast
  define rank' where "rank' = rank(tid := Suc (sum_list (map rank (children (t_kind (types ! tid))))))"
  show ?thesis
  proof (rule layout_invI [where rank = rank'])
    show "length ?st = length types" using len by simp
  next
    fix j assume "j < length types" "?st ! j = TYPE_LAYOUT_DONE"
    with layout_inv_done [OF inv] laid al
    show "laid types j \<and> t_align (types ! j) \<in> {1, 4, 8}" by (cases "j = tid") simp_all
  next
    fix j c assume j: "j < length types" "?st ! j = TYPE_LAYOUT_DONE"
      and c: "c \<in> set (children (t_kind (types ! j)))"
    show "c < length types \<and> ?st ! c = TYPE_LAYOUT_DONE \<and> rank' c < rank' j"
    proof (cases "j = tid")
      case True
      have "c \<noteq> tid" using ch c True tid by blast
      moreover have "rank c \<le> sum_list (map rank (children (t_kind (types ! tid))))"
        using c True by (intro member_le_sum_list) simp_all
      ultimately show ?thesis using True ch c dn by (simp add: rank'_def)
    next
      case False
      with j have dj: "st ! j = TYPE_LAYOUT_DONE" by simp
      note c' = layout_inv_child [OF inv j(1) dj c]
      then have "c \<noteq> tid" using tid(2) by blast
      with c' rank [OF j(1) dj c] False dn show ?thesis by (simp add: rank'_def)
    qed
  qed
qed


definition layout_post :: "ctype list \<Rightarrow> nat \<Rightarrow> lstate list \<Rightarrow> bool \<times> ctype list \<times> lstate list \<Rightarrow> bool" where
  "layout_post types k st r \<longleftrightarrow> (case r of (ok, types', st') \<Rightarrow>
     layout_inv types' st' \<and> layout_ext {} types st types' st' \<and>
     (ok \<longrightarrow> k < length types \<and> st' ! k = TYPE_LAYOUT_DONE \<and>
        (\<forall>j < length types. st' ! j = TYPE_LAYOUT_ACTIVE \<longrightarrow> st ! j = TYPE_LAYOUT_ACTIVE)))"

lemma skel_simps [simp]:
  "composite (t_kind t) \<Longrightarrow> skel (t\<lparr>t_portal := b\<rparr>) = skel t" "skel (t\<lparr>t_payload := n\<rparr>) = skel t"
  "skel (t\<lparr>t_size := n\<rparr>) = skel t" "skel (t\<lparr>t_align := n\<rparr>) = skel t"
  by (simp_all add: skel_def)

lemma skel_kind_upd:
  assumes "skind k = skind (t_kind t)"
  shows "skel (t\<lparr>t_kind := k\<rparr>) = skel t"
proof -
  from assms have "composite k = composite (t_kind t)" by (metis composite_skind)
  with assms show ?thesis by (simp add: skel_def)
qed

lemma map_offset_update:
  "map (\<lambda>f. f\<lparr>f_offset := 0\<rparr>) (fs[i := (fs ! i)\<lparr>f_offset := off\<rparr>]) = map (\<lambda>f. f\<lparr>f_offset := 0\<rparr>) fs"
proof (cases "i < length fs")
  case True
  then show ?thesis by (intro nth_equalityI) (auto simp: nth_list_update)
qed (simp add: list_update_beyond)

lemma set_field_offset_struct:
  assumes "t_kind (types ! tid) = TYPE_STRUCT fs" "tid < length types"
  shows "set_field_offset types tid i off =
    types[tid := (types ! tid)\<lparr>t_kind := TYPE_STRUCT (fs[i := (fs ! i)\<lparr>f_offset := off\<rparr>])\<rparr>]"
  using assms by (simp add: set_field_offset_def)

lemma layout_ext_upd:
  assumes "layout_ext X types st types' st'" "skel t = skel (types' ! tid)" "tid \<in> X \<or> st ! tid = TYPE_LAYOUT_PENDING"
  shows "layout_ext X types st (types'[tid := t]) st'"
  unfolding layout_ext_def
proof (intro conjI allI impI)
  fix j assume j: "j < length types"
  show "skel (types'[tid := t] ! j) = skel (types ! j)"
    using assms j by (cases "j = tid") (simp_all add: layout_ext_def)
  assume "st ! j \<noteq> TYPE_LAYOUT_PENDING"
  then show "st' ! j = st ! j" using assms j by (simp add: layout_ext_def)
  assume "j \<notin> X"
  with \<open>st ! j \<noteq> TYPE_LAYOUT_PENDING\<close> assms j show "types'[tid := t] ! j = types ! j"
    by (cases "j = tid") (auto simp: layout_ext_def)
qed (use assms in \<open>simp_all add: layout_ext_def\<close>)

lemma layout_ext_skel: "layout_ext X types st types' st' \<Longrightarrow> j < length types \<Longrightarrow> skel (types' ! j) = skel (types ! j)"
  by (simp add: layout_ext_def)

lemma layout_ext_keep:
  assumes "layout_ext X types st types' st'" "j < length types" "st ! j \<noteq> TYPE_LAYOUT_PENDING"
  shows "st' ! j = st ! j" "j \<notin> X \<Longrightarrow> types' ! j = types ! j"
  using assms by (simp_all add: layout_ext_def)

lemma layout_ext_len: "layout_ext X types st types' st' \<Longrightarrow> length types' = length types \<and> length st' = length st"
  by (simp add: layout_ext_def)

lemma skel_struct:
  assumes "skel t' = skel t" "t_kind t = TYPE_STRUCT fs"
  obtains fs' where "t_kind t' = TYPE_STRUCT fs'" "map f_tid fs' = map f_tid fs" "length fs' = length fs"
proof -
  from assms have sk: "skind (t_kind t') = TYPE_STRUCT (map (\<lambda>f. f\<lparr>f_offset := 0\<rparr>) fs)"
    by (simp add: skel_def)
  then obtain fs' where fs': "t_kind t' = TYPE_STRUCT fs'"
    by (cases "t_kind t'") auto
  with sk have eq: "map (\<lambda>f. f\<lparr>f_offset := 0\<rparr>) fs' = map (\<lambda>f. f\<lparr>f_offset := 0\<rparr>) fs" by simp
  then have "map f_tid (map (\<lambda>f. f\<lparr>f_offset := 0\<rparr>) fs') = map f_tid (map (\<lambda>f. f\<lparr>f_offset := 0\<rparr>) fs)" by simp
  then have "map f_tid fs' = map f_tid fs" by (simp add: comp_def)
  with fs' show ?thesis using that map_eq_imp_length_eq by blast
qed

text \<open>One round of the field loop, and the loop.\<close>

definition fields_post ::
  "nat \<Rightarrow> nat \<Rightarrow> type_field list \<Rightarrow> nat \<Rightarrow> nat \<Rightarrow> ctype list \<Rightarrow> lstate list
    \<Rightarrow> (nat \<times> nat) option \<times> ctype list \<times> lstate list \<Rightarrow> bool" where
  "fields_post tid i afs off ma types st r \<longleftrightarrow> (case r of (res, types', st') \<Rightarrow>
     layout_inv types' st' \<and> layout_ext {tid} types st types' st' \<and>
     (\<forall>off' ma'. res = Some (off', ma') \<longrightarrow>
        (\<exists>afs'. t_kind (types' ! tid) = TYPE_STRUCT afs' \<and> length afs' = length afs \<and>
           take i afs' = take i afs \<and>
           fields_end types' off ma (drop i afs') = Some (off', ma')) \<and>
        (\<forall>f \<in> set (drop i afs). f_tid f < length types \<and> st' ! f_tid f = TYPE_LAYOUT_DONE) \<and>
        t_portal (types' ! tid) = (t_portal (types ! tid) \<or> (\<exists>f \<in> set (drop i afs). t_portal (types' ! f_tid f))) \<and>
        (ma \<in> {1, 4, 8} \<longrightarrow> ma' \<in> {1, 4, 8}) \<and>
        (\<forall>j < length types. st' ! j = TYPE_LAYOUT_ACTIVE \<longrightarrow> st ! j = TYPE_LAYOUT_ACTIVE)))"

text \<open>The struct entry after the round for field \<open>f\<close> at index \<open>i\<close>.\<close>

definition round_types :: "ctype list \<Rightarrow> nat \<Rightarrow> nat \<Rightarrow> type_field \<Rightarrow> nat \<Rightarrow> ctype list" where
  "round_types types tid i f off =
     (let ft = types ! f_tid f;
          types2 = (if t_portal ft then types[tid := (types ! tid)\<lparr>t_portal := True\<rparr>] else types)
      in set_field_offset types2 tid i (up off (t_align ft)))"

lemma layout_fields_round:
  assumes "layout types (f_tid f) st = Some (True, types1, st1)" "t_align (types1 ! f_tid f) \<noteq> 0"
  shows "layout_fields layout tid i (f # fs) off ma types st =
    layout_fields layout tid (Suc i) fs
      (u64 (up off (t_align (types1 ! f_tid f)) + t_payload (types1 ! f_tid f)))
      (max ma (t_align (types1 ! f_tid f))) (round_types types1 tid i f off) st1"
proof -
  have "(if ma < t_align (types1 ! f_tid f) then t_align (types1 ! f_tid f) else ma) = max ma (t_align (types1 ! f_tid f))"
    by (simp add: max_def)
  with assms show ?thesis
    by (simp add: round_types_def Let_def align_up_up)
qed

lemma layout_round:
  assumes tid: "tid < length types" and act: "st ! tid = TYPE_LAYOUT_ACTIVE"
    and kind: "t_kind (types ! tid) = TYPE_STRUCT afs"
    and post: "layout_post types (f_tid f) st (True, types1, st1)"
  shows "layout_inv (round_types types1 tid i f off) st1"
    and "layout_ext {tid} types st (round_types types1 tid i f off) st1"
    and "st1 ! tid = TYPE_LAYOUT_ACTIVE" and "f_tid f \<noteq> tid"
    and "t_align (types1 ! f_tid f) \<in> {1, 4, 8}"
    and "round_types types1 tid i f off ! f_tid f = types1 ! f_tid f"
    and "t_kind (round_types types1 tid i f off ! tid) =
      TYPE_STRUCT (afs[i := (afs ! i)\<lparr>f_offset := up off (t_align (types1 ! f_tid f))\<rparr>])"
    and "t_portal (round_types types1 tid i f off ! tid) = (t_portal (types ! tid) \<or> t_portal (types1 ! f_tid f))"
proof -
  from post have inv1: "layout_inv types1 st1" and ext1: "layout_ext {} types st types1 st1"
    and f: "f_tid f < length types" "st1 ! f_tid f = TYPE_LAYOUT_DONE"
    by (simp_all add: layout_post_def)
  note len1 = layout_ext_len [OF ext1]
  show act1: "st1 ! tid = TYPE_LAYOUT_ACTIVE" using layout_ext_keep [OF ext1 tid] act by simp
  have keep: "types1 ! tid = types ! tid" using layout_ext_keep [OF ext1 tid] act by simp
  show ne: "f_tid f \<noteq> tid" using f act1 by auto
  show "t_align (types1 ! f_tid f) \<in> {1, 4, 8}"
    by (rule layout_inv_done(2) [OF inv1]) (use f len1 in simp_all)
  let ?afs = "afs[i := (afs ! i)\<lparr>f_offset := up off (t_align (types1 ! f_tid f))\<rparr>]"
  define types2 where "types2 = (if t_portal (types1 ! f_tid f) then types1[tid := (types1 ! tid)\<lparr>t_portal := True\<rparr>] else types1)"
  have k2: "t_kind (types2 ! tid) = TYPE_STRUCT afs"
    using keep kind tid len1 by (simp add: types2_def)
  have t3: "round_types types1 tid i f off = types2[tid := (types2 ! tid)\<lparr>t_kind := TYPE_STRUCT ?afs\<rparr>]"
    unfolding round_types_def Let_def types2_def [symmetric]
    by (rule set_field_offset_struct [OF k2]) (use tid len1 in \<open>simp add: types2_def\<close>)
  have inv2: "layout_inv types2 st1"
    using inv1 act1 by (auto simp: types2_def intro: layout_inv_upd)
  then show "layout_inv (round_types types1 tid i f off) st1"
    unfolding t3 using act1 by (intro layout_inv_upd) simp_all
  have ext2: "layout_ext {tid} types st types2 st1"
    using layout_ext_mono [OF ext1] keep kind by (auto simp: types2_def intro!: layout_ext_upd)
  show "layout_ext {tid} types st (round_types types1 tid i f off) st1"
    unfolding t3
    by (rule layout_ext_upd [OF ext2]) (simp_all add: skel_kind_upd k2 map_offset_update)
  show "round_types types1 tid i f off ! f_tid f = types1 ! f_tid f"
    using ne by (simp add: t3 types2_def)
  show "t_kind (round_types types1 tid i f off ! tid) = TYPE_STRUCT ?afs"
    unfolding t3 using tid len1 by (simp add: types2_def)
  show "t_portal (round_types types1 tid i f off ! tid) = (t_portal (types ! tid) \<or> t_portal (types1 ! f_tid f))"
    unfolding t3 using keep tid len1 by (simp add: types2_def)
qed

lemma fields_post_round:
  assumes i: "i < length afs" and f: "afs ! i = f"
    and ok: "layout_post types (f_tid f) st (True, types1, st1)"
    and tid: "tid < length types" and act: "st ! tid = TYPE_LAYOUT_ACTIVE"
    and kind: "t_kind (types ! tid) = TYPE_STRUCT afs"
    and post: "fields_post tid (Suc i) (afs[i := f\<lparr>f_offset := up off (t_align (types1 ! f_tid f))\<rparr>])
      (u64 (up off (t_align (types1 ! f_tid f)) + t_payload (types1 ! f_tid f)))
      (max ma (t_align (types1 ! f_tid f))) (round_types types1 tid i f off) st1 r"
  shows "fields_post tid i afs off ma types st r"
proof -
  let ?afs1 = "afs[i := f\<lparr>f_offset := up off (t_align (types1 ! f_tid f))\<rparr>]"
    and ?types3 = "round_types types1 tid i f off" and ?ft = "types1 ! f_tid f"
  note rnd = layout_round [OF tid act kind ok]
  obtain res types' st' where r: "r = (res, types', st')" by (cases r)
  from post r have inv': "layout_inv types' st'" and ext': "layout_ext {tid} ?types3 st1 types' st'"
    by (simp_all add: fields_post_def)
  from ok have fok: "f_tid f < length types" "st1 ! f_tid f = TYPE_LAYOUT_DONE"
      "\<forall>j < length types. st1 ! j = TYPE_LAYOUT_ACTIVE \<longrightarrow> st ! j = TYPE_LAYOUT_ACTIVE"
    by (simp_all add: layout_post_def)
  note len3 = layout_ext_len [OF rnd(2)]
  have ext: "layout_ext {tid} types st types' st'" by (rule layout_ext_trans [OF rnd(2) ext'])
  have ftk: "types' ! f_tid f = ?ft" "st' ! f_tid f = TYPE_LAYOUT_DONE"
    using layout_ext_keep [OF ext', of "f_tid f"] fok rnd(4,6) len3 by simp_all
  have "(\<exists>afs'. t_kind (types' ! tid) = TYPE_STRUCT afs' \<and> length afs' = length afs \<and>
           take i afs' = take i afs \<and> fields_end types' off ma (drop i afs') = Some (off', ma')) \<and>
        (\<forall>f \<in> set (drop i afs). f_tid f < length types \<and> st' ! f_tid f = TYPE_LAYOUT_DONE) \<and>
        t_portal (types' ! tid) = (t_portal (types ! tid) \<or> (\<exists>f \<in> set (drop i afs). t_portal (types' ! f_tid f))) \<and>
        (ma \<in> {1, 4, 8} \<longrightarrow> ma' \<in> {1, 4, 8}) \<and>
        (\<forall>j < length types. st' ! j = TYPE_LAYOUT_ACTIVE \<longrightarrow> st ! j = TYPE_LAYOUT_ACTIVE)"
    if res: "res = Some (off', ma')" for off' ma'
  proof -
    from post r res obtain afs' where a: "t_kind (types' ! tid) = TYPE_STRUCT afs'" "length afs' = length ?afs1"
        "take (Suc i) afs' = take (Suc i) ?afs1"
        "fields_end types' (u64 (up off (t_align ?ft) + t_payload ?ft)) (max ma (t_align ?ft)) (drop (Suc i) afs') = Some (off', ma')"
      and b: "\<forall>f \<in> set (drop (Suc i) ?afs1). f_tid f < length ?types3 \<and> st' ! f_tid f = TYPE_LAYOUT_DONE"
      and c: "t_portal (types' ! tid) = (t_portal (?types3 ! tid) \<or> (\<exists>f \<in> set (drop (Suc i) ?afs1). t_portal (types' ! f_tid f)))"
      and d: "max ma (t_align ?ft) \<in> {1, 4, 8} \<longrightarrow> ma' \<in> {1, 4, 8}"
      and e: "\<forall>j < length ?types3. st' ! j = TYPE_LAYOUT_ACTIVE \<longrightarrow> st1 ! j = TYPE_LAYOUT_ACTIVE"
      unfolding fields_post_def by auto
    have ai: "afs' ! i = f\<lparr>f_offset := up off (t_align ?ft)\<rparr>"
      using a(3) i by (metis lessI nth_list_update_eq nth_take)
    have ti: "take i afs' = take i afs"
      using a(3) by (metis lessI less_or_eq_imp_le min.absorb1 order_refl take_take take_update_cancel)
    have dr: "drop i afs' = afs' ! i # drop (Suc i) afs'" using i a(2) by (simp add: Cons_nth_drop_Suc)
    have dra: "drop i afs = f # drop (Suc i) ?afs1" using i f Cons_nth_drop_Suc [OF i] by simp
    have "fields_end types' off ma (drop i afs') = Some (off', ma')"
      using a(4) by (simp add: dr ai ftk Let_def)
    then show ?thesis
      unfolding dra using a b c d e ti fok ftk rnd(5,8) len3 by (auto simp: max_def)
  qed
  then show ?thesis unfolding fields_post_def r prod.case using inv' ext by blast
qed

lemma layout_fields_post:
  assumes step: "\<And>types k st r. layout_inv types st \<Longrightarrow> layout types k st = Some r \<Longrightarrow> layout_post types k st r"
  shows "layout_inv types st \<Longrightarrow> tid < length types \<Longrightarrow> st ! tid = TYPE_LAYOUT_ACTIVE \<Longrightarrow>
    t_kind (types ! tid) = TYPE_STRUCT afs \<Longrightarrow> drop i afs = fs \<Longrightarrow>
    layout_fields layout tid i fs off ma types st = Some r \<Longrightarrow>
    fields_post tid i afs off ma types st r"
proof (induction fs arbitrary: i off ma types st afs)
  case Nil
  then show ?case by (auto simp: fields_post_def)
next
  case (Cons f fs)
  note inv = Cons.prems(1) and tid = Cons.prems(2) and act = Cons.prems(3) and kind = Cons.prems(4)
  from Cons.prems(5) have i: "i < length afs" and f: "afs ! i = f" and fs: "drop (Suc i) afs = fs"
    by (metis drop_eq_Nil leI list.distinct(1), metis nth_via_drop, metis drop_Suc list.sel(3) tl_drop)
  obtain ok types1 st1 where l: "layout types (f_tid f) st = Some (ok, types1, st1)"
    using Cons.prems(6) by (auto split: Option.bind_splits)
  note post = step [OF inv l]
  show ?case
  proof (cases ok)
    case False
    with Cons.prems(6) l post show ?thesis
      by (auto simp: fields_post_def layout_post_def intro: layout_ext_mono)
  next
    case True
    from l True have l': "layout types (f_tid f) st = Some (True, types1, st1)" by simp
    from post True have post': "layout_post types (f_tid f) st (True, types1, st1)" by simp
    note rnd = layout_round [OF tid act kind post']
    have nz: "t_align (types1 ! f_tid f) \<noteq> 0" using rnd(5) by auto
    show ?thesis
      by (rule fields_post_round [OF i f post' tid act kind], rule Cons.IH)
        (use rnd tid f fs layout_ext_len [OF rnd(2)] Cons.prems(6) layout_fields_round [where layout = layout, OF l' nz]
          in simp_all)
  qed
qed


lemma layout_ext_unpend:
  assumes "layout_ext X types (st[tid := TYPE_LAYOUT_ACTIVE]) types' st'" "st ! tid = TYPE_LAYOUT_PENDING" "X \<subseteq> {tid}"
  shows "layout_ext {} types st types' st'"
  unfolding layout_ext_def
proof (intro conjI allI impI)
  fix j assume j: "j < length types" "st ! j \<noteq> TYPE_LAYOUT_PENDING"
  with assms have "j \<noteq> tid" by auto
  with assms j show "st' ! j = st ! j" "types' ! j = types ! j"
    by (auto simp: layout_ext_def)
qed (use assms in \<open>simp_all add: layout_ext_def\<close>)

lemma layout_finish_post:
  assumes inv: "layout_inv types1 st1" and ext: "layout_ext {} types st types1 st1"
    and tid: "tid < length types" "st ! tid = TYPE_LAYOUT_PENDING" "st1 ! tid = TYPE_LAYOUT_ACTIVE"
    and act: "\<forall>j < length types. st1 ! j = TYPE_LAYOUT_ACTIVE \<longrightarrow> j = tid \<or> st ! j = TYPE_LAYOUT_ACTIVE"
    and t: "skel t = skel (types ! tid)" "t_align t \<in> {1, 4, 8}"
    and laid: "laid (types1[tid := t\<lparr>t_size := up (t_payload t) CELL_ALIGN\<rparr>]) tid"
    and ch: "\<forall>c \<in> set (children (t_kind t)). c < length types \<and> st1 ! c = TYPE_LAYOUT_DONE"
    and r: "layout_finish tid (types1[tid := t]) st1 = Some r"
  shows "layout_post types tid st r"
proof -
  let ?t = "t\<lparr>t_size := up (t_payload t) CELL_ALIGN\<rparr>"
  note len = layout_ext_len [OF ext] and lst = layout_inv_len [OF inv]
  have r': "r = (True, types1[tid := ?t], st1[tid := TYPE_LAYOUT_DONE])"
    using r tid len by (simp add: layout_finish_def align_up_up CELL_ALIGN_def)
  have "layout_inv (types1[tid := ?t]) (st1[tid := TYPE_LAYOUT_DONE])"
  proof (rule layout_inv_finish)
    show "layout_inv (types1[tid := ?t]) st1" using inv tid by (intro layout_inv_upd) simp_all
  qed (use tid laid t ch len in simp_all)
  moreover have "layout_ext {} types st (types1[tid := ?t]) st1"
    by (rule layout_ext_upd [OF ext]) (use t tid layout_ext_skel [OF ext tid(1)] in simp_all)
  then have "layout_ext {} types st (types1[tid := ?t]) (st1[tid := TYPE_LAYOUT_DONE])"
    using tid lst len unfolding layout_ext_def by (metis length_list_update nth_list_update_neq)
  moreover have "\<forall>j < length types. st1[tid := TYPE_LAYOUT_DONE] ! j = TYPE_LAYOUT_ACTIVE \<longrightarrow> st ! j = TYPE_LAYOUT_ACTIVE"
    using act lst len tid by (metis lstate.distinct(5) nth_list_update_eq nth_list_update_neq)
  ultimately show ?thesis
    using tid lst len by (simp add: layout_post_def r')
qed

lemma layout_post_fail:
  assumes "layout_inv types' st'" "layout_ext {} types st types' st'"
  shows "layout_post types tid st (False, types', st')"
  using assms by (simp add: layout_post_def)

text \<open>Entering a pending type marks it active; nothing else changes.\<close>

lemma layout_enter:
  assumes inv: "layout_inv types st" and tid: "tid < length types" and pend: "st ! tid = TYPE_LAYOUT_PENDING"
  shows "layout_inv types (st[tid := TYPE_LAYOUT_ACTIVE])"
    and "layout_ext {} types st types (st[tid := TYPE_LAYOUT_ACTIVE])"
    and "st[tid := TYPE_LAYOUT_ACTIVE] ! tid = TYPE_LAYOUT_ACTIVE"
    and "\<forall>j < length types. st[tid := TYPE_LAYOUT_ACTIVE] ! j = TYPE_LAYOUT_ACTIVE \<longrightarrow> j = tid \<or> st ! j = TYPE_LAYOUT_ACTIVE"
proof -
  show "layout_inv types (st[tid := TYPE_LAYOUT_ACTIVE])"
    by (rule layout_inv_active) (use inv pend in simp_all)
  show "layout_ext {} types st types (st[tid := TYPE_LAYOUT_ACTIVE])"
    by (rule layout_ext_unpend [OF layout_ext_refl pend subset_refl])
  show "st[tid := TYPE_LAYOUT_ACTIVE] ! tid = TYPE_LAYOUT_ACTIVE"
    using tid layout_inv_len [OF inv] by simp
  show "\<forall>j < length types. st[tid := TYPE_LAYOUT_ACTIVE] ! j = TYPE_LAYOUT_ACTIVE \<longrightarrow> j = tid \<or> st ! j = TYPE_LAYOUT_ACTIVE"
    by (metis nth_list_update_neq)
qed

text \<open>The element types of arrays, slices and views are laid out by one recursive call.\<close>

lemma layout_sub:
  assumes inv: "layout_inv types st" and tid: "tid < length types" and pend: "st ! tid = TYPE_LAYOUT_PENDING"
    and post: "layout_post types e (st[tid := TYPE_LAYOUT_ACTIVE]) (ok, types1, st1)"
  shows "\<not> ok \<Longrightarrow> layout_post types tid st (False, types1, st1)"
    and "ok \<Longrightarrow> layout_inv types1 st1 \<and> layout_ext {} types st types1 st1 \<and>
        st1 ! tid = TYPE_LAYOUT_ACTIVE \<and> types1 ! tid = types ! tid \<and>
        (\<forall>j < length types. st1 ! j = TYPE_LAYOUT_ACTIVE \<longrightarrow> j = tid \<or> st ! j = TYPE_LAYOUT_ACTIVE) \<and>
        e < length types \<and> e \<noteq> tid \<and> st1 ! e = TYPE_LAYOUT_DONE \<and> t_align (types1 ! e) \<in> {1, 4, 8}"
proof -
  note enter = layout_enter [OF inv tid pend]
  from post have p: "layout_inv types1 st1" "layout_ext {} types (st[tid := TYPE_LAYOUT_ACTIVE]) types1 st1"
    and q: "ok \<Longrightarrow> e < length types \<and> st1 ! e = TYPE_LAYOUT_DONE \<and>
      (\<forall>j < length types. st1 ! j = TYPE_LAYOUT_ACTIVE \<longrightarrow> st[tid := TYPE_LAYOUT_ACTIVE] ! j = TYPE_LAYOUT_ACTIVE)"
    by (simp_all add: layout_post_def)
  have ext: "layout_ext {} types st types1 st1" by (rule layout_ext_unpend [OF p(2) pend]) simp
  have keep: "st1 ! tid = TYPE_LAYOUT_ACTIVE" "types1 ! tid = types ! tid"
    using layout_ext_keep [OF p(2) tid] enter(3) by simp_all
  show "\<not> ok \<Longrightarrow> layout_post types tid st (False, types1, st1)"
    using layout_post_fail [OF p(1) ext] by simp
  assume ok: ok
  then have e: "e < length types" "st1 ! e = TYPE_LAYOUT_DONE" using q by simp_all
  then have "t_align (types1 ! e) \<in> {1, 4, 8}"
    using layout_inv_done(2) [OF p(1)] layout_ext_len [OF ext] by simp
  moreover have "e \<noteq> tid" using e keep by auto
  moreover have "\<forall>j < length types. st1 ! j = TYPE_LAYOUT_ACTIVE \<longrightarrow> j = tid \<or> st ! j = TYPE_LAYOUT_ACTIVE"
    using q ok enter(4) by blast
  ultimately show "layout_inv types1 st1 \<and> layout_ext {} types st types1 st1 \<and>
        st1 ! tid = TYPE_LAYOUT_ACTIVE \<and> types1 ! tid = types ! tid \<and>
        (\<forall>j < length types. st1 ! j = TYPE_LAYOUT_ACTIVE \<longrightarrow> j = tid \<or> st ! j = TYPE_LAYOUT_ACTIVE) \<and>
        e < length types \<and> e \<noteq> tid \<and> st1 ! e = TYPE_LAYOUT_DONE \<and> t_align (types1 ! e) \<in> {1, 4, 8}"
    using p(1) ext keep e by blast
qed

lemma type_layout_one_pending:
  assumes "tid < length types" "st ! tid = TYPE_LAYOUT_PENDING"
  shows "\<not> (\<not> type_idx_valid types tid)" "st ! tid \<noteq> TYPE_LAYOUT_DONE" "st ! tid \<noteq> TYPE_LAYOUT_ACTIVE"
  using assms by (simp_all add: type_idx_valid_def)

lemma layout_one_ref_post:
  assumes rec: "\<And>types st tid r. layout_inv types st \<Longrightarrow> type_layout_one n types tid st = Some r \<Longrightarrow> layout_post types tid st r"
    and inv: "layout_inv types st" and tid: "tid < length types" and pend: "st ! tid = TYPE_LAYOUT_PENDING"
    and kind: "t_kind (types ! tid) = TYPE_SLICE e \<or> t_kind (types ! tid) = TYPE_VIEW e"
    and eq: "type_layout_one (Suc n) types tid st = Some r"
  shows "layout_post types tid st r"
proof -
  let ?st = "st[tid := TYPE_LAYOUT_ACTIVE]" and ?t = "types ! tid"
  note eq = eq [unfolded type_layout_one.simps(2)] and go = type_layout_one_pending [OF tid pend]
  obtain ok types1 st1 where call: "type_layout_one n types e ?st = Some (ok, types1, st1)"
    using eq go kind by (auto simp: Let_def split: Option.bind_splits)
  note sub = layout_sub [OF inv tid pend rec [OF layout_enter(1) [OF inv tid pend] call]]
  show ?thesis
  proof (cases ok)
    case False
    with sub(1) eq go kind call show ?thesis by (auto simp: Let_def)
  next
    case True
    with sub(2) have fin: "layout_inv types1 st1" "layout_ext {} types st types1 st1" "st1 ! tid = TYPE_LAYOUT_ACTIVE"
        "\<forall>j < length types. st1 ! j = TYPE_LAYOUT_ACTIVE \<longrightarrow> j = tid \<or> st ! j = TYPE_LAYOUT_ACTIVE"
      and k: "types1 ! tid = ?t" and e: "e < length types" "st1 ! e = TYPE_LAYOUT_DONE"
      by blast+
    show ?thesis
      by (rule layout_finish_post [OF fin(1,2) tid pend fin(3,4),
            where t = "?t\<lparr>t_portal := True, t_payload := type_slice_payload_size, t_align := max alignof_ptr alignof_count\<rparr>"])
        (use eq go kind call True k e tid layout_ext_len [OF fin(2)] in
          \<open>auto simp: Let_def size_consts laid_def\<close>)
  qed
qed

lemma layout_one_array_post:
  assumes rec: "\<And>types st tid r. layout_inv types st \<Longrightarrow> type_layout_one n types tid st = Some r \<Longrightarrow> layout_post types tid st r"
    and inv: "layout_inv types st" and tid: "tid < length types" and pend: "st ! tid = TYPE_LAYOUT_PENDING"
    and kind: "t_kind (types ! tid) = TYPE_ARRAY e c off"
    and eq: "type_layout_one (Suc n) types tid st = Some r"
  shows "layout_post types tid st r"
proof -
  let ?st = "st[tid := TYPE_LAYOUT_ACTIVE]" and ?t = "types ! tid"
  note eq = eq [unfolded type_layout_one.simps(2)] and go = type_layout_one_pending [OF tid pend]
  obtain ok types1 st1 where call: "type_layout_one n types e ?st = Some (ok, types1, st1)"
    using eq go kind by (auto simp: Let_def split: Option.bind_splits)
  note sub = layout_sub [OF inv tid pend rec [OF layout_enter(1) [OF inv tid pend] call]]
  show ?thesis
  proof (cases ok)
    case False
    with sub(1) eq go kind call show ?thesis by (auto simp: Let_def)
  next
    case True
    with sub(2) have fin: "layout_inv types1 st1" "layout_ext {} types st types1 st1" "st1 ! tid = TYPE_LAYOUT_ACTIVE"
        "\<forall>j < length types. st1 ! j = TYPE_LAYOUT_ACTIVE \<longrightarrow> j = tid \<or> st ! j = TYPE_LAYOUT_ACTIVE"
      and k: "types1 ! tid = ?t" and e: "e < length types" "e \<noteq> tid" "st1 ! e = TYPE_LAYOUT_DONE"
      and al: "t_align (types1 ! e) \<in> {1, 4, 8}"
      by blast+
    let ?e = "types1 ! e"
    let ?al = "max (t_align ?e) 4" and ?off = "up 4 (t_align ?e)"
    let ?arr = "?t\<lparr>t_portal := t_portal ?e, t_align := ?al, t_kind := TYPE_ARRAY e c ?off,
      t_payload := up (u64 (?off + t_payload ?e * c)) ?al\<rparr>"
    have nz: "t_align ?e \<noteq> 0" and mx: "(if t_align ?e > alignof_count then t_align ?e else alignof_count) = ?al"
      using al by (auto simp: size_consts)
    have mz: "?al \<noteq> 0" by simp
    show ?thesis
    proof (rule layout_finish_post [OF fin(1,2) tid pend fin(3,4), where t = ?arr])
      show "layout_finish tid (types1[tid := ?arr]) st1 = Some r"
        using eq go kind call True
        by (simp add: Let_def align_up_up [OF nz] align_up_up [OF mz] mx k size_consts(2) del: max_def)
    qed (use tid kind k e layout_ext_len [OF fin(2)] al in \<open>auto simp: skel_kind_upd laid_def Let_def\<close>)
  qed
qed

text \<open>A struct's fields are laid out by the field loop; what it leaves is the struct's layout equation.\<close>

lemma laid_struct:
  fixes off' ma' :: nat
  defines "t \<equiv> \<lambda>t. t\<lparr>t_align := ma', t_payload := up off' ma', t_size := up (up off' ma') CELL_ALIGN\<rparr>"
  assumes "tid < length types" "t_kind (types ! tid) = TYPE_STRUCT fs"
    and "fields_end types 0 1 fs = Some (off', ma')"
    and "t_portal (types ! tid) = list_ex (\<lambda>f. t_portal (types ! f_tid f)) fs"
    and "\<forall>f \<in> set fs. f_tid f \<noteq> tid"
  shows "laid (types[tid := t (types ! tid)]) tid"
proof -
  have same: "\<forall>f \<in> set fs. types[tid := t (types ! tid)] ! f_tid f = types ! f_tid f"
    using assms(6) by (metis nth_list_update_neq)
  have "list_ex (\<lambda>f. t_portal (types[tid := t (types ! tid)] ! f_tid f)) fs = list_ex (\<lambda>f. t_portal (types ! f_tid f)) fs"
    using same by (simp add: list_ex_iff cong: bex_cong)
  with assms fields_end_cong [OF same] show ?thesis
    by (simp add: laid_def t_def)
qed

lemma layout_one_struct_post:
  assumes rec: "\<And>types st tid r. layout_inv types st \<Longrightarrow> type_layout_one n types tid st = Some r \<Longrightarrow> layout_post types tid st r"
    and inv: "layout_inv types st" and tid: "tid < length types" and pend: "st ! tid = TYPE_LAYOUT_PENDING"
    and kind: "t_kind (types ! tid) = TYPE_STRUCT fs"
    and eq: "type_layout_one (Suc n) types tid st = Some r"
  shows "layout_post types tid st r"
proof -
  let ?st = "st[tid := TYPE_LAYOUT_ACTIVE]" and ?t = "types ! tid"
  let ?ts = "types[tid := ?t\<lparr>t_portal := False\<rparr>]"
  note eq = eq [unfolded type_layout_one.simps(2)] and go = type_layout_one_pending [OF tid pend]
  note enter = layout_enter [OF inv tid pend]
  obtain res types1 st1 where
    call: "layout_fields (type_layout_one n) tid 0 fs 0 1 ?ts ?st = Some (res, types1, st1)"
    using eq go kind by (auto simp: Let_def split: Option.bind_splits)
  have inv2: "layout_inv ?ts ?st" by (rule layout_inv_upd [OF enter(1)]) (simp add: enter)
  have post: "fields_post tid 0 fs 0 1 ?ts ?st (res, types1, st1)"
    by (rule layout_fields_post [OF rec inv2 _ enter(3) _ _ call]) (use tid kind in simp_all)
  then have inv3: "layout_inv types1 st1" and ext3: "layout_ext {tid} ?ts ?st types1 st1"
    by (simp_all add: fields_post_def)
  have ext: "layout_ext {} types st types1 st1"
  proof (rule layout_ext_unpend [OF layout_ext_trans [OF _ ext3] pend subset_refl])
    show "layout_ext {tid} types ?st ?ts ?st" by (rule layout_ext_upd) (simp_all add: kind)
  qed
  show ?thesis
  proof (cases res)
    case None
    with eq go kind call layout_post_fail [OF inv3 ext] show ?thesis by (simp add: Let_def)
  next
    case (Some om)
    obtain off' ma' where om: "om = (off', ma')" by (cases om)
    note len = layout_ext_len [OF ext]
    from post Some om obtain fs' where k: "t_kind (types1 ! tid) = TYPE_STRUCT fs'"
        "fields_end types1 0 1 fs' = Some (off', ma')"
      and ch: "\<forall>f \<in> set fs. f_tid f < length types \<and> st1 ! f_tid f = TYPE_LAYOUT_DONE"
      and po: "t_portal (types1 ! tid) = (\<exists>f \<in> set fs. t_portal (types1 ! f_tid f))"
      and ma: "ma' \<in> {1, 4, 8}"
      and ac: "\<forall>j < length types. st1 ! j = TYPE_LAYOUT_ACTIVE \<longrightarrow> ?st ! j = TYPE_LAYOUT_ACTIVE"
      using tid by (auto simp: fields_post_def)
    have sk: "skel (types1 ! tid) = skel ?t" by (rule layout_ext_skel [OF ext tid])
    have tids: "f_tid ` set fs' = f_tid ` set fs"
      using skel_struct [OF sk kind] k(1) by (metis list.set_map type_kind.inject(4))
    have a: "st1 ! tid = TYPE_LAYOUT_ACTIVE" using layout_ext_keep(1) [OF ext3, of tid] enter(3) tid by simp
    have ch': "\<forall>f \<in> set fs'. f_tid f < length types \<and> st1 ! f_tid f = TYPE_LAYOUT_DONE \<and> f_tid f \<noteq> tid"
    proof
      fix f assume "f \<in> set fs'"
      then obtain g where "g \<in> set fs" "f_tid g = f_tid f" using tids by (metis imageE imageI)
      with ch a show "f_tid f < length types \<and> st1 ! f_tid f = TYPE_LAYOUT_DONE \<and> f_tid f \<noteq> tid" by auto
    qed
    have po': "t_portal (types1 ! tid) = list_ex (\<lambda>f. t_portal (types1 ! f_tid f)) fs'"
      using po tids by (simp add: list_ex_iff) (metis (no_types, lifting) imageE imageI)
    have mz: "ma' \<noteq> 0" using ma by auto
    let ?s = "(types1 ! tid)\<lparr>t_align := ma', t_payload := up off' ma'\<rparr>"
    show ?thesis
    proof (rule layout_finish_post [OF inv3 ext tid pend a, where t = ?s])
      show "laid (types1[tid := ?s\<lparr>t_size := up (t_payload ?s) CELL_ALIGN\<rparr>]) tid"
        using laid_struct [OF _ k po'] ch' tid len by simp
      show "\<forall>j < length types. st1 ! j = TYPE_LAYOUT_ACTIVE \<longrightarrow> j = tid \<or> st ! j = TYPE_LAYOUT_ACTIVE"
        using ac enter(4) by blast
      show "layout_finish tid (types1[tid := ?s]) st1 = Some r"
        using eq go kind call Some om by (simp add: Let_def align_up_up [OF mz])
    qed (use sk ma ch' k(1) in simp_all)
  qed
qed

lemma layout_one_post:
  "layout_inv types st \<Longrightarrow> type_layout_one n types tid st = Some r \<Longrightarrow> layout_post types tid st r"
proof (induction n arbitrary: types st tid r)
  case 0
  then show ?case by simp
next
  case (Suc n)
  note inv = Suc.prems(1)
  note eq = Suc.prems(2) [unfolded type_layout_one.simps(2)]
  show ?case
  proof (cases "tid < length types \<and> st ! tid = TYPE_LAYOUT_PENDING")
    case False
    with eq inv show ?thesis
      by (cases "st ! tid") (auto simp: layout_post_def type_idx_valid_def split: if_splits)
  next
    case True
    then have tid: "tid < length types" and pend: "st ! tid = TYPE_LAYOUT_PENDING" by simp_all
    note go = type_layout_one_pending [OF tid pend] and enter = layout_enter [OF inv tid pend]
    note fin = layout_finish_post [OF enter(1,2) tid pend enter(3,4)]
    let ?t = "types ! tid"
    show ?thesis
    proof (cases "t_kind ?t")
      case TYPE_INT
      show ?thesis
        by (rule fin [where t = "?t\<lparr>t_payload := sizeof_num, t_align := alignof_num\<rparr>"])
          (use eq go tid TYPE_INT in \<open>simp_all add: Let_def size_consts laid_def\<close>)
    next
      case TYPE_BYTE
      show ?thesis
        by (rule fin [where t = "?t\<lparr>t_payload := 1, t_align := 1\<rparr>"])
          (use eq go tid TYPE_BYTE in \<open>simp_all add: Let_def size_consts laid_def\<close>)
    next
      case (TYPE_NATIVE_FUNC_POINTER s)
      show ?thesis
      proof (cases "sig_types_valid types s")
        case True
        show ?thesis
          by (rule fin [where t = "?t\<lparr>t_payload := sizeof_ptr, t_align := alignof_ptr\<rparr>"])
            (use eq go tid TYPE_NATIVE_FUNC_POINTER True in
              \<open>simp_all add: Let_def size_consts laid_def sig_types_valid_def type_idx_valid_def\<close>)
      next
        case False
        with eq go TYPE_NATIVE_FUNC_POINTER layout_post_fail [OF enter(1,2)] show ?thesis by simp
      qed
    next
      case (TYPE_SLICE e)
      then show ?thesis by (intro layout_one_ref_post [OF Suc.IH inv tid pend _ Suc.prems(2)]) simp_all
    next
      case (TYPE_VIEW e)
      then show ?thesis by (intro layout_one_ref_post [OF Suc.IH inv tid pend _ Suc.prems(2)]) simp_all
    next
      case (TYPE_ARRAY e c off)
      show ?thesis by (rule layout_one_array_post [OF Suc.IH inv tid pend TYPE_ARRAY Suc.prems(2)])
    next
      case (TYPE_STRUCT fs)
      show ?thesis by (rule layout_one_struct_post [OF Suc.IH inv tid pend TYPE_STRUCT Suc.prems(2)])
    qed
  qed
qed


section \<open>Termination\<close>

definition pending :: "lstate list \<Rightarrow> nat" where
  "pending st = length (filter (\<lambda>s. s = TYPE_LAYOUT_PENDING) st)"

lemma pending_mono:
  "length st' = length st \<Longrightarrow> (\<And>j. j < length st \<Longrightarrow> st' ! j = TYPE_LAYOUT_PENDING \<Longrightarrow> st ! j = TYPE_LAYOUT_PENDING) \<Longrightarrow>
   pending st' \<le> pending st"
  unfolding pending_def length_filter_conv_card
  by (intro card_mono) auto

lemma pending_enter:
  assumes "tid < length st" "st ! tid = TYPE_LAYOUT_PENDING"
  shows "pending (st[tid := TYPE_LAYOUT_ACTIVE]) < pending st"
  unfolding pending_def length_filter_conv_card
proof (rule psubset_card_mono)
  show "{i. i < length (st[tid := TYPE_LAYOUT_ACTIVE]) \<and> st[tid := TYPE_LAYOUT_ACTIVE] ! i = TYPE_LAYOUT_PENDING}
      \<subset> {i. i < length st \<and> st ! i = TYPE_LAYOUT_PENDING}"
    using assms by (auto simp: nth_list_update split: if_splits)
qed simp

lemma pending_ext:
  assumes "layout_ext X types st types' st'" "length st = length types"
  shows "pending st' \<le> pending st"
  using assms unfolding layout_ext_def by (intro pending_mono) metis+

lemma layout_fields_total:
  assumes step: "\<And>types k st r. layout_inv types st \<Longrightarrow> layout types k st = Some r \<Longrightarrow> layout_post types k st r"
    and total: "\<And>types k st. layout_inv types st \<Longrightarrow> pending st \<le> m \<Longrightarrow> layout types k st \<noteq> None"
  shows "layout_inv types st \<Longrightarrow> tid < length types \<Longrightarrow> st ! tid = TYPE_LAYOUT_ACTIVE \<Longrightarrow>
    t_kind (types ! tid) = TYPE_STRUCT afs \<Longrightarrow> pending st \<le> m \<Longrightarrow>
    layout_fields layout tid i fs off ma types st \<noteq> None"
proof (induction fs arbitrary: i off ma types st afs)
  case Nil
  then show ?case by simp
next
  case (Cons f fs)
  note inv = Cons.prems(1) and tid = Cons.prems(2) and act = Cons.prems(3) and kind = Cons.prems(4)
  from total [OF inv Cons.prems(5)] obtain ok types1 st1 where
    l: "layout types (f_tid f) st = Some (ok, types1, st1)" by (metis not_None_eq prod_cases3)
  note post = step [OF inv l]
  show ?case
  proof (cases ok)
    case False
    with l show ?thesis by simp
  next
    case True
    from l True have l': "layout types (f_tid f) st = Some (True, types1, st1)" by simp
    from post True have post': "layout_post types (f_tid f) st (True, types1, st1)" by simp
    note rnd = layout_round [OF tid act kind post']
    have nz: "t_align (types1 ! f_tid f) \<noteq> 0" using rnd(5) by auto
    have "pending st1 \<le> m" using pending_ext [OF rnd(2) layout_inv_len [OF inv]] Cons.prems(5) by simp
    then show ?thesis
      unfolding layout_fields_round [where layout = layout, OF l' nz]
      by (intro Cons.IH [OF rnd(1) _ rnd(3) rnd(7)]) (use tid layout_ext_len [OF rnd(2)] in simp_all)
  qed
qed

lemma layout_finish_not_None: "layout_finish tid types st \<noteq> None"
  by (simp add: layout_finish_def align_up_def CELL_ALIGN_def)

lemma layout_finish_total: "\<exists>a b c. layout_finish tid types st = Some (a, b, c)"
  by (metis layout_finish_not_None not_None_eq prod_cases3)

lemma type_layout_one_total:
  "layout_inv types st \<Longrightarrow> pending st < n \<Longrightarrow> type_layout_one n types tid st \<noteq> None"
proof (induction n arbitrary: types st tid)
  case 0
  then show ?case by simp
next
  case (Suc n)
  note inv = Suc.prems(1)
  show ?case
  proof (cases "tid < length types \<and> st ! tid = TYPE_LAYOUT_PENDING")
    case False
    then show ?thesis
      by (cases "st ! tid") (auto simp: type_layout_one.simps(2) type_idx_valid_def)
  next
    case True
    then have tid: "tid < length types" and pend: "st ! tid = TYPE_LAYOUT_PENDING" by simp_all
    let ?st = "st[tid := TYPE_LAYOUT_ACTIVE]"
    note go = type_layout_one_pending [OF tid pend] and enter = layout_enter [OF inv tid pend]
    have less: "pending ?st < n"
      using pending_enter [of tid st] tid pend layout_inv_len [OF inv] Suc.prems(2) by simp
    have call: thesis if "\<And>ok types1 st1. type_layout_one n types e ?st = Some (ok, types1, st1) \<Longrightarrow>
        (ok \<Longrightarrow> t_align (types1 ! e) \<noteq> 0) \<Longrightarrow> thesis" for e thesis
    proof -
      from Suc.IH [OF enter(1) less] obtain ok types1 st1 where
        c: "type_layout_one n types e ?st = Some (ok, types1, st1)" by (metis not_None_eq prod_cases3)
      from layout_sub(2) [OF inv tid pend layout_one_post [OF enter(1) c]] have "ok \<Longrightarrow> t_align (types1 ! e) \<noteq> 0"
        by auto
      with c that show thesis by blast
    qed
    show ?thesis
    proof (cases "t_kind (types ! tid)")
      case (TYPE_STRUCT fs)
      let ?ts = "types[tid := (types ! tid)\<lparr>t_portal := False\<rparr>]"
      have inv2: "layout_inv ?ts ?st" by (rule layout_inv_upd [OF enter(1)]) (simp add: enter)
      have "layout_fields (type_layout_one n) tid 0 fs 0 1 ?ts ?st \<noteq> None"
      proof (rule layout_fields_total [where m = "pending ?st" and afs = fs, OF layout_one_post _ inv2 _ enter(3)])
        show "type_layout_one n types k st \<noteq> None" if "layout_inv types st" "pending st \<le> pending ?st" for types k st
          using Suc.IH [OF that(1)] that(2) less by simp
      qed (use tid TYPE_STRUCT in simp_all)
      then obtain res types1 st1 where c: "layout_fields (type_layout_one n) tid 0 fs 0 1 ?ts ?st = Some (res, types1, st1)"
        by (metis not_None_eq prod_cases3)
      have post: "fields_post tid 0 fs 0 1 ?ts ?st (res, types1, st1)"
        by (rule layout_fields_post [OF layout_one_post inv2 _ enter(3) _ _ c]) (use tid TYPE_STRUCT in simp_all)
      have "align_up o' m' \<noteq> None" if "res = Some (o', m')" for o' m'
        using post that by (auto simp: fields_post_def align_up_def)
      with go c TYPE_STRUCT show ?thesis
        by (auto simp: type_layout_one.simps(2) Let_def layout_finish_total split: option.splits)
    next
      case (TYPE_ARRAY e c off)
      show ?thesis
        by (rule call [of e]) (use go TYPE_ARRAY in
          \<open>auto simp: type_layout_one.simps(2) Let_def layout_finish_total align_up_def size_consts\<close>)
    next
      case (TYPE_SLICE e)
      show ?thesis
        by (rule call [of e]) (use go TYPE_SLICE in \<open>auto simp: type_layout_one.simps(2) Let_def layout_finish_total\<close>)
    next
      case (TYPE_VIEW e)
      show ?thesis
        by (rule call [of e]) (use go TYPE_VIEW in \<open>auto simp: type_layout_one.simps(2) Let_def layout_finish_total\<close>)
    qed (use go in \<open>auto simp: type_layout_one.simps(2) Let_def layout_finish_total simp del: not_None_eq\<close>)
  qed
qed


section \<open>Completeness: an acyclic closed table is accepted\<close>

definition ranked :: "(nat \<Rightarrow> nat) \<Rightarrow> ctype list \<Rightarrow> bool" where
  "ranked rank types \<longleftrightarrow> (\<forall>j < length types.
     (\<forall>c \<in> set (children (t_kind (types ! j))). c < length types \<and> rank c < rank j) \<and>
     (\<forall>s. t_kind (types ! j) = TYPE_NATIVE_FUNC_POINTER s \<longrightarrow> sig_types_valid types s))"

lemma ranked_children:
  "ranked rank types \<Longrightarrow> j < length types \<Longrightarrow> c \<in> set (children (t_kind (types ! j))) \<Longrightarrow>
   c < length types \<and> rank c < rank j"
  by (simp add: ranked_def)

lemma skind_native: "skind k = TYPE_NATIVE_FUNC_POINTER s \<longleftrightarrow> k = TYPE_NATIVE_FUNC_POINTER s"
  by (cases k) auto

lemma skel_native:
  "skel t = skel t' \<Longrightarrow> t_kind t = TYPE_NATIVE_FUNC_POINTER s \<longleftrightarrow> t_kind t' = TYPE_NATIVE_FUNC_POINTER s"
  by (metis fst_conv skel_def skind_native)

lemma sig_types_valid_len: "length types' = length types \<Longrightarrow> sig_types_valid types' s = sig_types_valid types s"
  by (simp add: sig_types_valid_def type_idx_valid_def)

lemma ranked_skel:
  assumes "ranked rank types" "length types' = length types"
    and "\<And>j. j < length types \<Longrightarrow> skel (types' ! j) = skel (types ! j)"
  shows "ranked rank types'"
  unfolding ranked_def
proof (intro allI impI conjI ballI)
  fix j assume "j < length types'"
  with assms(2) have j: "j < length types" by simp
  from assms(3) [OF j] have ch: "children (t_kind (types' ! j)) = children (t_kind (types ! j))"
    by (rule skel_children)
  show "c < length types'" "rank c < rank j" if "c \<in> set (children (t_kind (types' ! j)))" for c
    using ranked_children [OF assms(1) j] that ch assms(2) by simp_all
  show "sig_types_valid types' s" if "t_kind (types' ! j) = TYPE_NATIVE_FUNC_POINTER s" for s
    using assms(1) j that skel_native [OF assms(3) [OF j]] sig_types_valid_len [OF assms(2)]
    by (simp add: ranked_def)
qed

lemma ranked_ext: "ranked rank types \<Longrightarrow> layout_ext X types st types' st' \<Longrightarrow> ranked rank types'"
  by (erule ranked_skel) (simp_all add: layout_ext_def)

definition actives_above :: "(nat \<Rightarrow> nat) \<Rightarrow> nat \<Rightarrow> lstate list \<Rightarrow> bool" where
  "actives_above rank k st \<longleftrightarrow> (\<forall>j < length st. st ! j = TYPE_LAYOUT_ACTIVE \<longrightarrow> rank k < rank j)"

lemma layout_fields_complete:
  assumes step: "\<And>types k st r. layout_inv types st \<Longrightarrow> layout types k st = Some r \<Longrightarrow> layout_post types k st r"
    and complete: "\<And>types k st ok types' st'. layout_inv types st \<Longrightarrow> ranked rank types \<Longrightarrow> k < length types \<Longrightarrow>
      actives_above rank k st \<Longrightarrow> layout types k st = Some (ok, types', st') \<Longrightarrow> ok"
  shows "layout_inv types st \<Longrightarrow> tid < length types \<Longrightarrow> st ! tid = TYPE_LAYOUT_ACTIVE \<Longrightarrow>
    t_kind (types ! tid) = TYPE_STRUCT afs \<Longrightarrow> ranked rank types \<Longrightarrow>
    \<forall>f \<in> set fs. f_tid f < length types \<and> actives_above rank (f_tid f) st \<Longrightarrow>
    layout_fields layout tid i fs off ma types st = Some (res, types', st') \<Longrightarrow> res \<noteq> None"
proof (induction fs arbitrary: i off ma types st afs)
  case Nil
  then show ?case by auto
next
  case (Cons f fs)
  note inv = Cons.prems(1) and tid = Cons.prems(2) and act = Cons.prems(3) and kind = Cons.prems(4)
  obtain ok types1 st1 where l: "layout types (f_tid f) st = Some (ok, types1, st1)"
    using Cons.prems(7) by (auto split: Option.bind_splits)
  have ok: ok using complete [OF inv Cons.prems(5) _ _ l] Cons.prems(6) by simp
  with l have l': "layout types (f_tid f) st = Some (True, types1, st1)" by simp
  note post = step [OF inv l']
  note rnd = layout_round [OF tid act kind post]
  have nz: "t_align (types1 ! f_tid f) \<noteq> 0" using rnd(5) by auto
  note len = layout_ext_len [OF rnd(2)]
  have above: "actives_above rank k st1" if "actives_above rank k st" for k
    using that post layout_inv_len [OF inv] len by (auto simp: actives_above_def layout_post_def)
  show ?case
  proof (rule Cons.IH [OF rnd(1) _ rnd(3) rnd(7)])
    show "ranked rank (round_types types1 tid i f off)" by (rule ranked_ext [OF Cons.prems(5) rnd(2)])
    show "\<forall>f' \<in> set fs. f_tid f' < length (round_types types1 tid i f off) \<and> actives_above rank (f_tid f') st1"
      using Cons.prems(6) above len by simp
    show "layout_fields layout tid (Suc i) fs
       (u64 (up off (t_align (types1 ! f_tid f)) + t_payload (types1 ! f_tid f)))
       (max ma (t_align (types1 ! f_tid f))) (round_types types1 tid i f off) st1 = Some (res, types', st')"
      using Cons.prems(7) unfolding layout_fields_round [where layout = layout, OF l' nz] .
  qed (use tid len in simp_all)
qed

lemma type_layout_one_complete:
  "layout_inv types st \<Longrightarrow> ranked rank types \<Longrightarrow> tid < length types \<Longrightarrow> actives_above rank tid st \<Longrightarrow>
   type_layout_one n types tid st = Some (ok, types', st') \<Longrightarrow> ok"
proof (induction n arbitrary: types st tid ok types' st')
  case 0
  then show ?case by simp
next
  case (Suc n)
  note inv = Suc.prems(1) and rk = Suc.prems(2) and tid = Suc.prems(3)
  note eq = Suc.prems(5) [unfolded type_layout_one.simps(2)] and lst = layout_inv_len [OF inv]
  show ?case
  proof (cases "st ! tid = TYPE_LAYOUT_PENDING")
    case False
    with eq tid Suc.prems(4) lst show ?thesis
      by (cases "st ! tid") (auto simp: type_idx_valid_def actives_above_def)
  next
    case pend: True
    let ?st = "st[tid := TYPE_LAYOUT_ACTIVE]"
    note go = type_layout_one_pending [OF tid pend] and enter = layout_enter [OF inv tid pend]
    have above: "c < length types \<and> actives_above rank c ?st" if "c \<in> set (children (t_kind (types ! tid)))" for c
    proof -
      have c: "c < length types" "rank c < rank tid" using ranked_children [OF rk tid that] by simp_all
      have "rank c < rank j" if "j < length ?st" "?st ! j = TYPE_LAYOUT_ACTIVE" for j
        using that c Suc.prems(4) lst enter(4) by (cases "j = tid") (auto simp: actives_above_def)
      with c show ?thesis by (simp add: actives_above_def)
    qed
    have fin: "layout_finish k ts s \<noteq> Some (False, x)" for k ts s x
      by (auto simp: layout_finish_def split: Option.bind_splits)
    have sub: "type_layout_one n types e ?st \<noteq> Some (False, x)" if "e \<in> set (children (t_kind (types ! tid)))" for e x
      using Suc.IH [OF enter(1) rk, of e False] above [OF that] by (cases x) auto
    show ?thesis
    proof (cases "t_kind (types ! tid)")
      case (TYPE_STRUCT fs)
      let ?ts = "types[tid := (types ! tid)\<lparr>t_portal := False\<rparr>]"
      obtain res types1 st1 where c: "layout_fields (type_layout_one n) tid 0 fs 0 1 ?ts ?st = Some (res, types1, st1)"
        using eq go TYPE_STRUCT by (auto simp: Let_def split: Option.bind_splits)
      have "res \<noteq> None"
      proof (rule layout_fields_complete [OF layout_one_post _ _ _ enter(3) _ _ _ c])
        show "b" if "layout_inv types st" "ranked rank types" "k < length types" "actives_above rank k st"
            "type_layout_one n types k st = Some (b, types', st')" for types k st b types' st'
          using Suc.IH that by blast
        show "layout_inv ?ts ?st" by (rule layout_inv_upd [OF enter(1)]) (simp add: enter)
        have sk: "skel ((types ! tid)\<lparr>t_portal := False\<rparr>) = skel (types ! tid)" by (simp add: TYPE_STRUCT)
        have "skel (?ts ! j) = skel (types ! j)" if "j < length types" for j
          using that sk by (cases "j = tid") (simp_all del: skel_simps)
        then show "ranked rank ?ts" by (intro ranked_skel [OF rk]) simp_all
      qed (use TYPE_STRUCT tid above in auto)
      then obtain o' m' where "res = Some (o', m')" by auto
      with eq go c TYPE_STRUCT show ?thesis
        by (cases ok) (auto simp: Let_def fin split: Option.bind_splits)
    next
      case (TYPE_NATIVE_FUNC_POINTER s)
      with rk tid have "sig_types_valid types s" by (auto simp: ranked_def)
      with eq go TYPE_NATIVE_FUNC_POINTER show ?thesis by (cases ok) (auto simp: Let_def fin)
    qed (use eq go in \<open>cases ok; auto simp: Let_def fin sub split: Option.bind_splits if_splits\<close>)+
  qed
qed

section \<open>The whole table\<close>

lemma layout_loop_run:
  assumes "layout_inv types st" "pending st < n" "\<forall>t \<in> set tids. t < length types"
    and "layout_loop n tids types st = Some (ok, types')"
  shows "ok \<Longrightarrow> \<exists>st'. layout_inv types' st' \<and> layout_ext {} types st types' st' \<and> (\<forall>t \<in> set tids. st' ! t = TYPE_LAYOUT_DONE)"
    and "ranked rank types \<Longrightarrow> \<forall>j < length st. st ! j \<noteq> TYPE_LAYOUT_ACTIVE \<Longrightarrow> ok"
  using assms
proof (induction tids arbitrary: types st)
  case Nil
  { case 1 then show ?case by auto }
  { case 2 then show ?case by auto }
next
  case (Cons t ts)
  { case 1
    from 1(5) obtain b types1 st1 where c: "type_layout_one n types t st = Some (b, types1, st1)"
      by (auto split: Option.bind_splits)
    with 1 have b: b and c': "layout_loop n ts types1 st1 = Some (ok, types')" by (auto split: if_splits)
    from layout_one_post [OF 1(2) c] b have p: "layout_inv types1 st1" "layout_ext {} types st types1 st1"
        "st1 ! t = TYPE_LAYOUT_DONE"
      by (simp_all add: layout_post_def)
    have "pending st1 < n" using pending_ext [OF p(2) layout_inv_len [OF 1(2)]] 1(3) by simp
    from Cons.IH(1) [OF 1(1) p(1) this _ c'] 1(4) layout_ext_len [OF p(2)] obtain st'
      where st': "layout_inv types' st'" "layout_ext {} types1 st1 types' st'" "\<forall>t \<in> set ts. st' ! t = TYPE_LAYOUT_DONE"
      by auto
    moreover have "st' ! t = TYPE_LAYOUT_DONE"
      using layout_ext_keep(1) [OF st'(2), of t] p 1(4) layout_ext_len [OF p(2)] by simp
    ultimately show ?case using layout_ext_trans [OF p(2)] by auto }
  { case 2
    from 2(6) obtain b types1 st1 where c: "type_layout_one n types t st = Some (b, types1, st1)"
      by (auto split: Option.bind_splits)
    have b: b
      by (rule type_layout_one_complete [OF 2(3) 2(1) _ _ c]) (use 2(2,5) in \<open>auto simp: actives_above_def\<close>)
    with 2 c have c': "layout_loop n ts types1 st1 = Some (ok, types')" by auto
    from layout_one_post [OF 2(3) c] b have p: "layout_inv types1 st1" "layout_ext {} types st types1 st1"
        "\<forall>j < length types. st1 ! j = TYPE_LAYOUT_ACTIVE \<longrightarrow> st ! j = TYPE_LAYOUT_ACTIVE"
      by (simp_all add: layout_post_def)
    have "pending st1 < n" using pending_ext [OF p(2) layout_inv_len [OF 2(3)]] 2(4) by simp
    with 2(2,5) p layout_ext_len [OF p(2)] layout_inv_len [OF 2(3)] show ?case
      by (intro Cons.IH(2) [OF ranked_ext [OF 2(1) p(2)] _ p(1) _ _ c']) auto }
qed

end
