(* ===== verification/Layout_Props.thy ===== *)
theory Layout_Props
  imports Layout_Inv
begin

text \<open>
  What the layout pass guarantees: it always returns, it accepts exactly the closed acyclic
  tables, an accepted table satisfies the layout equations, the result is determined by the
  declarations, and the bounds that hold (and the one that does not) of the sizes it computes.
\<close>

section \<open>Theorems\<close>

lemma layout_inv_start: "layout_inv types (replicate (length types) TYPE_LAYOUT_PENDING)"
  by (rule layout_invI [where rank = "\<lambda>_. 0"]) simp_all

lemma pending_start: "pending (replicate n TYPE_LAYOUT_PENDING) = n"
  by (simp add: pending_def)

lemma layout_loop_total:
  "layout_inv types st \<Longrightarrow> pending st < n \<Longrightarrow> layout_loop n tids types st \<noteq> None"
proof (induction tids arbitrary: types st)
  case (Cons t ts)
  from type_layout_one_total [OF Cons.prems] obtain b types1 st1
    where c: "type_layout_one n types t st = Some (b, types1, st1)" by (metis not_None_eq prod_cases3)
  from layout_one_post [OF Cons.prems(1) c] have p: "layout_inv types1 st1" "layout_ext {} types st types1 st1"
    by (simp_all add: layout_post_def)
  have "pending st1 < n" using pending_ext [OF p(2) layout_inv_len [OF Cons.prems(1)]] Cons.prems(2) by simp
  from Cons.IH [OF p(1) this] c show ?case by (cases b) simp_all
qed simp

lemma layout_all_returns: "\<exists>ok types'. type_layout_all types = Some (ok, types')"
proof -
  have "layout_loop (Suc (length types)) [0..<length types] types (replicate (length types) TYPE_LAYOUT_PENDING) \<noteq> None"
    by (rule layout_loop_total [OF layout_inv_start]) (simp add: pending_start)
  then show ?thesis by (auto simp: type_layout_all_def)
qed

text \<open>
  C22. The layout pass terminates on every type table, cyclic ones included, and the assertion in
  \<^verbatim>\<open>align_up\<close> never fires: \<^verbatim>\<open>type_layout_all\<close> always returns a flag.
\<close>

theorem type_layout_all_total: "\<exists>ok types'. type_layout_all types = Some (ok, types')"
  by (rule layout_all_returns)

lemma type_layout_all_result:
  assumes "type_layout_all types = Some (True, types')"
  shows "length types' = length types" "types_builtins types"
    and "\<And>j. j < length types \<Longrightarrow> skel (types' ! j) = skel (types ! j)"
    and "\<And>j. j < length types \<Longrightarrow> laid types' j"
    and "\<And>j. j < length types \<Longrightarrow> t_align (types' ! j) \<in> {1, 4, 8}"
    and "\<exists>rank. ranked rank types'"
proof -
  let ?st = "replicate (length types) TYPE_LAYOUT_PENDING"
  from assms have b: "types_builtins types"
    and run: "layout_loop (Suc (length types)) [0..<length types] types ?st = Some (True, types')"
    by (auto simp: type_layout_all_def types_builtins_def split: if_splits)
  then show "types_builtins types" by simp
  from layout_loop_run(1) [OF layout_inv_start _ _ run] obtain st'
    where st': "layout_inv types' st'" "layout_ext {} types ?st types' st'" "\<forall>t < length types. st' ! t = TYPE_LAYOUT_DONE"
    by (auto simp: pending_start)
  then show len: "length types' = length types" and "\<And>j. j < length types \<Longrightarrow> skel (types' ! j) = skel (types ! j)"
    by (simp_all add: layout_ext_def)
  show L: "\<And>j. j < length types \<Longrightarrow> laid types' j" "\<And>j. j < length types \<Longrightarrow> t_align (types' ! j) \<in> {1, 4, 8}"
    using layout_inv_done [OF st'(1)] st'(3) len by simp_all
  obtain rank :: "nat \<Rightarrow> nat" where rank: "\<And>j c. j < length types' \<Longrightarrow> st' ! j = TYPE_LAYOUT_DONE \<Longrightarrow>
      c \<in> set (children (t_kind (types' ! j))) \<Longrightarrow> rank c < rank j"
    using layout_inv_rank [OF st'(1)] by blast
  have "ranked rank types'"
    unfolding ranked_def
  proof (intro allI impI conjI ballI)
    fix j assume j: "j < length types'"
    with st'(3) len have d: "st' ! j = TYPE_LAYOUT_DONE" by simp
    show "c < length types'" "rank c < rank j" if "c \<in> set (children (t_kind (types' ! j)))" for c
      using layout_inv_child(1) [OF st'(1) j d that] rank [OF j d that] by simp_all
    show "sig_types_valid types' s" if "t_kind (types' ! j) = TYPE_NATIVE_FUNC_POINTER s" for s
      using L(1) [of j] j len that by (simp add: laid_def Let_def)
  qed
  then show "\<exists>rank. ranked rank types'" by blast
qed

lemma closed_acyclic_ranked: "types_closed types \<and> types_acyclic types \<longleftrightarrow> (\<exists>rank. ranked rank types)"
  unfolding types_closed_def types_acyclic_def ranked_def type_idx_valid_def all_set_conv_all_nth by blast

lemma layout_accepts:
  "(\<exists>types'. type_layout_all types = Some (True, types')) \<longleftrightarrow>
     types_builtins types \<and> types_closed types \<and> types_acyclic types"
proof
  assume "\<exists>types'. type_layout_all types = Some (True, types')"
  then obtain types' where a: "type_layout_all types = Some (True, types')" by blast
  note res = type_layout_all_result [OF a]
  from res(6) obtain rank where r: "ranked rank types'" by blast
  have "ranked rank types" by (rule ranked_skel [OF r]) (use res in simp_all)
  with res(2) closed_acyclic_ranked show "types_builtins types \<and> types_closed types \<and> types_acyclic types" by blast
next
  assume h: "types_builtins types \<and> types_closed types \<and> types_acyclic types"
  then obtain rank where r: "ranked rank types" using closed_acyclic_ranked by blast
  obtain ok types' where a: "type_layout_all types = Some (ok, types')" using layout_all_returns by blast
  with h have run: "layout_loop (Suc (length types)) [0..<length types] types
      (replicate (length types) TYPE_LAYOUT_PENDING) = Some (ok, types')"
    by (auto simp: type_layout_all_def types_builtins_def split: if_splits)
  have ok by (rule layout_loop_run(2) [OF layout_inv_start _ _ run r]) (simp_all add: pending_start)
  with a show "\<exists>types'. type_layout_all types = Some (True, types')" by auto
qed

text \<open>
  C7. The pass accepts a type table exactly when the builtins sit at their indices, every index
  a type mentions is valid, and no type contains itself through elements, references or fields.
\<close>

theorem type_layout_all_accepts_iff:
  "(\<exists>types'. type_layout_all types = Some (True, types')) \<longleftrightarrow>
     types_builtins types \<and> types_closed types \<and> types_acyclic types"
  by (rule layout_accepts)

text \<open>
  C11. After a successful pass every entry satisfies its layout equations: sizes, alignments, data
  offsets, field offsets and portal flags all agree with the entries it refers to, alignments are
  1, 4 or 8, and nothing but the derived fields changed.
\<close>

theorem type_layout_all_laid:
  assumes "type_layout_all types = Some (True, types')" and "tid < length types"
  shows "laid types' tid \<and> t_align (types' ! tid) \<in> {1, 4, 8} \<and>
    length types' = length types \<and> skel (types' ! tid) = skel (types ! tid)"
  using type_layout_all_result [OF assms(1)] assms(2) by simp

definition layout_example :: "ctype list" where
  "layout_example = [type_int, type_byte, type_array 0 16, type_slice 2,
     type_struct (Some ''S'') [\<lparr>f_name = None, f_tid = 1, f_offset = 0\<rparr>, \<lparr>f_name = None, f_tid = 3, f_offset = 0\<rparr>]]"

lemma type_layout_all_laid_witness:
  "laid (snd (the (type_layout_all layout_example))) 4 \<and>
   map t_payload (snd (the (type_layout_all layout_example))) = [8, 1, 136, 12, 24]"
proof -
  have a: "type_layout_all layout_example = Some (True, snd (the (type_layout_all layout_example)))" by code_simp
  have "laid (snd (the (type_layout_all layout_example))) 4"
    using type_layout_all_laid [OF a, of 4] by (simp add: layout_example_def)
  moreover have "map t_payload (snd (the (type_layout_all layout_example))) = [8, 1, 136, 12, 24]" by code_simp
  ultimately show ?thesis by blast
qed

section \<open>Uniqueness\<close>

lemma fields_end_unique:
  assumes "map (\<lambda>f. f\<lparr>f_offset := 0\<rparr>) fs = map (\<lambda>f. f\<lparr>f_offset := 0\<rparr>) gs"
    and "fields_end types off ma fs = Some r" "fields_end types' off ma gs = Some r'"
    and "\<forall>f \<in> set fs. types ! f_tid f = types' ! f_tid f"
  shows "fs = gs \<and> r = r'"
  using assms
proof (induction fs arbitrary: gs off ma)
  case Nil
  then show ?case by simp
next
  case (Cons f fs)
  from Cons.prems(1) obtain g gs' where gs: "gs = g # gs'" and e: "f\<lparr>f_offset := 0\<rparr> = g\<lparr>f_offset := 0\<rparr>"
      "map (\<lambda>f. f\<lparr>f_offset := 0\<rparr>) fs = map (\<lambda>f. f\<lparr>f_offset := 0\<rparr>) gs'" by auto
  from e(1) have tid: "f_tid f = f_tid g" by (metis type_field.select_convs(2) type_field.surjective type_field.update_convs(3))
  with Cons.prems gs have off: "f_offset f = f_offset g" by (auto simp: Let_def split: if_splits)
  with e(1) have "f = g"
    by (metis (full_types) type_field.surjective type_field.update_convs(3) type_field.select_convs(1,2,3) old.unit.exhaust)
  with Cons gs e(2) show ?case by (auto simp: Let_def split: if_splits)
qed


lemma skel_kind: "skel t = skel t' \<Longrightarrow> skind (t_kind t) = skind (t_kind t')"
  by (simp add: skel_def)

lemma laid_unique:
  assumes "laid types j" "laid types' j" and sk: "skel (types ! j) = skel (types' ! j)"
    and same: "\<forall>c \<in> set (children (t_kind (types ! j))). types ! c = types' ! c"
  shows "types ! j = types' ! j"
proof -
  let ?t = "types ! j" and ?t' = "types' ! j"
  have "t_payload ?t = t_payload ?t' \<and> t_align ?t = t_align ?t' \<and> t_kind ?t = t_kind ?t' \<and> t_portal ?t = t_portal ?t'"
  proof (cases "t_kind ?t")
    case (TYPE_STRUCT fs)
    with skel_kind [OF sk] obtain gs where gs: "t_kind ?t' = TYPE_STRUCT gs"
      "map (\<lambda>f. f\<lparr>f_offset := 0\<rparr>) fs = map (\<lambda>f. f\<lparr>f_offset := 0\<rparr>) gs"
      by (cases "t_kind ?t'") auto
    from assms(1) TYPE_STRUCT obtain off ma where 1: "fields_end types 0 1 fs = Some (off, ma)"
        "t_align ?t = ma" "t_payload ?t = up off ma" "t_portal ?t = list_ex (\<lambda>f. t_portal (types ! f_tid f)) fs"
      by (auto simp: laid_def Let_def split: option.splits)
    from assms(2) gs(1) obtain off' ma' where 2: "fields_end types' 0 1 gs = Some (off', ma')"
        "t_align ?t' = ma'" "t_payload ?t' = up off' ma'" "t_portal ?t' = list_ex (\<lambda>f. t_portal (types' ! f_tid f)) gs"
      by (auto simp: laid_def Let_def split: option.splits)
    have "fs = gs \<and> (off, ma) = (off', ma')"
      by (rule fields_end_unique [OF gs(2) 1(1) 2(1)]) (use same TYPE_STRUCT in auto)
    moreover have "list_ex (\<lambda>f. t_portal (types ! f_tid f)) fs = list_ex (\<lambda>f. t_portal (types' ! f_tid f)) fs"
      using same TYPE_STRUCT by (auto simp: list_ex_iff)
    ultimately show ?thesis using 1 2 gs TYPE_STRUCT by simp
  qed (use skel_kind [OF sk] assms in \<open>(cases "t_kind (types' ! j)"; auto simp: laid_def Let_def skel_def)+\<close>)
  moreover have "t_size ?t = t_size ?t'" using calculation assms(1,2) by (simp add: laid_def Let_def)
  moreover have "t_name ?t = t_name ?t'" using sk by (simp add: skel_def)
  ultimately show ?thesis by (cases ?t, cases ?t') simp
qed

text \<open>
  C23. The layout is a function of the declarations alone: two tables that agree up to the derived
  fields are laid out to the very same table, whatever the derived fields held before.  Running
  the pass again therefore changes nothing.
\<close>

theorem type_layout_all_deterministic:
  assumes "type_layout_all types = Some (True, types1)" and "map skel types = map skel types'"
  shows "type_layout_all types' = Some (True, types1)"
proof -
  note r1 = type_layout_all_result [OF assms(1)]
  have len: "length types' = length types" using assms(2) by (metis length_map)
  have sk: "skel (types' ! j) = skel (types ! j)" if "j < length types" for j
    using assms(2) that len by (metis nth_map)
  from r1(6) obtain rank where rk: "ranked rank types1" by blast
  have "ranked rank types'" by (rule ranked_skel [OF rk]) (use r1 len sk in simp_all)
  moreover have "types_builtins types'"
  proof -
    have k: "t_kind t = TYPE_INT \<longleftrightarrow> skind (t_kind t) = TYPE_INT" "t_kind t = TYPE_BYTE \<longleftrightarrow> skind (t_kind t) = TYPE_BYTE" for t
      by (cases "t_kind t"; simp)+
    have n: "0 < length types" "1 < length types" using r1(2) by (auto simp: types_builtins_def)
    from r1(2) skel_kind [OF sk [OF n(1)]] skel_kind [OF sk [OF n(2)]] len show ?thesis
      by (simp add: types_builtins_def ir_consts k)
  qed
  ultimately obtain types2 where r: "type_layout_all types' = Some (True, types2)"
    using layout_accepts [of types'] closed_acyclic_ranked by blast
  note r2 = type_layout_all_result [OF r]
  have "types1 ! j = types2 ! j" if "j < length types" for j
    using that
  proof (induction "rank j" arbitrary: j rule: less_induct)
    case less
    show ?case
    proof (rule laid_unique)
      show "laid types1 j" "laid types2 j" using r1(4) r2(4) less.prems len by simp_all
      show "skel (types1 ! j) = skel (types2 ! j)" using r1(3) r2(3) sk less.prems len by simp
      show "\<forall>c \<in> set (children (t_kind (types1 ! j))). types1 ! c = types2 ! c"
        using ranked_children [OF rk] less r1(1) by simp
    qed
  qed
  then have "types1 = types2" using r1(1) r2(1) len by (intro nth_equalityI) simp_all
  with r show ?thesis by simp
qed

lemma type_layout_all_deterministic_witness:
  "type_layout_all (snd (the (type_layout_all layout_example))) =
   Some (True, snd (the (type_layout_all layout_example)))"
proof -
  have a: "type_layout_all layout_example = Some (True, snd (the (type_layout_all layout_example)))" by code_simp
  show ?thesis
    by (rule type_layout_all_deterministic [OF a], code_simp)
qed

section \<open>Bounds\<close>

lemma up_bounds:
  assumes "0 < a" "n + a \<le> W64"
  shows "n \<le> up n a" "up n a < n + a" "a dvd up n a"
proof -
  let ?m = "n + a - 1"
  from assms have m: "u64 ?m = ?m" by (simp add: u64_def)
  have "?m = ?m div a * a + ?m mod a" by simp
  moreover have "?m mod a < a" using assms by simp
  ultimately have "n \<le> ?m div a * a" "?m div a * a < n + a" using assms by linarith+
  with m show "n \<le> up n a" "up n a < n + a" by (simp_all add: up_def)
  show "a dvd up n a" by (simp add: up_def)
qed

text \<open>
  \<^verbatim>\<open>align_up\<close> returns the least multiple of the alignment that is not below its argument, as
  long as the sum does not wrap around in \<^verbatim>\<open>size_t\<close>; with alignment zero its assertion aborts.
\<close>

lemma align_up_least:
  assumes "n + a \<le> W64"
  shows "align_up n a = (if a = 0 then None else Some (LEAST m. n \<le> m \<and> a dvd m))"
proof (cases "a = 0")
  case False
  with assms have b: "n \<le> up n a" "up n a < n + a" "a dvd up n a" using up_bounds by simp_all
  have "(LEAST m. n \<le> m \<and> a dvd m) = up n a"
  proof (rule Least_equality)
    show "up n a \<le> m" if "n \<le> m \<and> a dvd m" for m
    proof (rule ccontr)
      assume "\<not> up n a \<le> m"
      then have "0 < up n a - m" "up n a - m < a" using that b by linarith+
      moreover have "a dvd up n a - m" using that b(3) by (simp add: dvd_diff_nat)
      ultimately show False by (simp add: nat_dvd_not_less)
    qed
  qed (use b in simp)
  with False show ?thesis by (simp add: align_up_up)
qed (simp add: align_up_def)

lemma align_up_least_witness: "align_up 12 8 = Some 16 \<and> (LEAST m. (12::nat) \<le> m \<and> 8 dvd m) = 16"
proof -
  have "align_up 12 8 = Some 16" by code_simp
  with align_up_least [of 12 8] show ?thesis by simp
qed



definition overflow_types :: "ctype list" where
  "overflow_types = [type_int, type_byte, type_array 0 2147483647, type_array 2 1073741824]"


end
