(* ===== verification/Lowering.thy ===== *)
theory Lowering
  imports Ir
begin

text \<open>
  The defer lowering of \<^verbatim>\<open>ir.c\<close>: \<^verbatim>\<open>append_chain_node\<close>, \<^verbatim>\<open>_remove_defers\<close> and
  \<^verbatim>\<open>remove_defers\<close>, on the flat block array as the code has it.

  The builder \<^verbatim>\<open>res\<close> is the list of the blocks written so far; \<^verbatim>\<open>EXTEND_HEAP\<close> appends slots
  (growing the heap aborts on failure, so a result means it succeeded).  The epilogue stack is
  a list with its top first; every call pushes one entry and pops it at the end, so a caller's
  stack is the argument of the callee.  \<^term>\<open>None\<close> is an aborted assertion, an out-of-bounds
  read of the source array, or fuel that ran out: the C recursion has no bound of its own and
  does not return on a cyclic array.
\<close>

text \<open>A slot before its first write; no slot is read before it is written.\<close>

definition FRESH :: block where "FRESH = BLOCK_BASIC \<lparr>r_start = 0, r_len = 0\<rparr>"

definition extend_heap :: "block list \<Rightarrow> nat \<Rightarrow> block list" where
  "extend_heap res n = res @ replicate n FRESH"

definition append_chain_node :: "block list \<Rightarrow> nat \<Rightarrow> nat \<Rightarrow> block list \<times> nat" where
  "append_chain_node res cur nxt = (res @ [BLOCK_CHAIN cur nxt], length res)"

fun set_cur :: "nat \<Rightarrow> block \<Rightarrow> block" where
  "set_cur c (BLOCK_MANY a b) = BLOCK_MANY c b"
| "set_cur c (BLOCK_CHAIN a b) = BLOCK_CHAIN c b"
| "set_cur c b = b"

fun set_next :: "nat \<Rightarrow> block \<Rightarrow> block" where
  "set_next n (BLOCK_MANY a b) = BLOCK_MANY a n"
| "set_next n (BLOCK_CHAIN a b) = BLOCK_CHAIN a n"
| "set_next n b = b"

text \<open>
  Linking a child slot to the sequence under construction at \<open>dst\<close>: the first child is stored on
  the block itself, every further one in a new chain node that hangs off the previous link.
  The second component is the variable \<^verbatim>\<open>prev_link\<close>.
\<close>

definition link_child :: "nat \<Rightarrow> nat \<Rightarrow> block list \<times> nat \<Rightarrow> block list \<times> nat" where
  "link_child dst child s = (case s of (res, prev_link) \<Rightarrow>
     if m_cur (res ! dst) \<noteq> BLOCK_INVALID then
       (case append_chain_node res child BLOCK_INVALID of (res, link) \<Rightarrow>
          if m_next (res ! dst) = BLOCK_INVALID
          then (res[dst := set_next link (res ! dst)], link)
          else (res[prev_link := set_next link (res ! prev_link)], link))
     else (res[dst := set_cur child (res ! dst)], prev_link))"

text \<open>
  The loop of the \<^verbatim>\<open>BLOCK_BREAK\<close> case: pop \<open>level\<close> entries, and link a copy of the root of every
  epilogue among them.
\<close>

fun copy_epilogues :: "nat \<Rightarrow> nat list \<Rightarrow> nat \<Rightarrow> block list \<times> nat \<Rightarrow> (block list \<times> nat) option" where
  "copy_epilogues 0 stack dst s = Some s"
| "copy_epilogues (Suc level) stack dst s =
     (case stack of
        [] \<Rightarrow> None
      | d # stack \<Rightarrow>
          (if d = 0 then copy_epilogues level stack dst s
           else case s of (res, prev_link) \<Rightarrow>
             copy_epilogues level stack dst (link_child dst (length res) (res @ [res ! d], prev_link))))"

definition lower_break :: "nat \<Rightarrow> nat list \<Rightarrow> nat \<Rightarrow> block list \<Rightarrow> block list option" where
  "lower_break level epis dst res =
     do {
       (res, prev_link) \<leftarrow> copy_epilogues level epis dst
         (res[dst := BLOCK_MANY BLOCK_INVALID BLOCK_INVALID], BLOCK_INVALID);
       if m_cur (res ! dst) = BLOCK_INVALID then Some (res[dst := BLOCK_BREAK level])
       else Some (fst (link_child dst (length res) (res @ [BLOCK_BREAK (u32 (level + 1))], prev_link)))
     }"

text \<open>
  The loop of the \<^verbatim>\<open>BLOCK_MANY\<close> case, over the recursive call \<open>K\<close>: epilogue stack, source slot,
  destination slot and builder.
\<close>

type_synonym lower_fn = "nat list \<Rightarrow> nat \<Rightarrow> nat \<Rightarrow> block list \<Rightarrow> block list option"

fun remove_defers_many ::
  "lower_fn \<Rightarrow> nat \<Rightarrow> block list \<Rightarrow> nat list \<Rightarrow> nat \<Rightarrow> nat \<Rightarrow> nat \<Rightarrow> block list \<times> nat \<Rightarrow> block list option"
where
  "remove_defers_many K 0 blocks epis dst src_child src_chain s = None"
| "remove_defers_many K (Suc n) blocks epis dst src_child src_chain s =
     (if src_child = BLOCK_INVALID then Some (fst s)
      else
        let dst_child = length (fst s);
            s = link_child dst dst_child (extend_heap (fst s) 1, snd s)
        in do {
          res \<leftarrow> K epis src_child dst_child (fst s);
          if src_chain = BLOCK_INVALID then Some res
          else if length blocks \<le> src_chain then Some res
          else (case blocks ! src_chain of
                  BLOCK_CHAIN cur nxt \<Rightarrow> remove_defers_many K n blocks epis dst cur nxt (res, snd s)
                | _ \<Rightarrow> Some res)
        })"

primrec remove_defers_at :: "nat \<Rightarrow> block list \<Rightarrow> lower_fn" where
  "remove_defers_at 0 blocks epis src dst res = None"
| "remove_defers_at (Suc n) blocks epis src dst res =
     (if length blocks \<le> src then None
      else
        let b = blocks ! src; res = res[dst := b] in
        (case b of
           BLOCK_BASIC r \<Rightarrow> Some res
         | BLOCK_DEFER nxt defer \<Rightarrow>
             let dst_pad = length res; dst_chain = length res + 1;
                 dst_defer = length res + 2; dst_next = length res + 3;
                 res = (extend_heap res 4)
                   [dst := BLOCK_MANY dst_pad dst_chain,
                    dst_chain := BLOCK_CHAIN dst_defer BLOCK_INVALID,
                    dst_pad := BLOCK_CRASH_PAD dst_next dst_defer]
             in do {
               res \<leftarrow> remove_defers_at n blocks (0 # epis) defer dst_defer res;
               remove_defers_at n blocks (dst_defer # epis) nxt dst_next res
             }
         | BLOCK_CRASH_PAD body pad \<Rightarrow>
             let dst_next = length res; dst_pad = length res + 1;
                 res = (extend_heap res 2)[dst := BLOCK_CRASH_PAD dst_next dst_pad]
             in do {
               res \<leftarrow> remove_defers_at n blocks (0 # epis) pad dst_pad res;
               remove_defers_at n blocks (dst_pad # epis) body dst_next res
             }
         | BLOCK_MANY cur nxt \<Rightarrow>
             remove_defers_many (remove_defers_at n blocks) n blocks (0 # epis) dst cur nxt
               (res[dst := BLOCK_MANY BLOCK_INVALID BLOCK_INVALID], BLOCK_INVALID)
         | BLOCK_CHAIN cur nxt \<Rightarrow> Some res
         | BLOCK_CRASH \<Rightarrow> Some res
         | BLOCK_HARD_CRASH \<Rightarrow> Some res
         | BLOCK_BRANCH cond src_yes src_no \<Rightarrow>
             let yes = length res; no = length res + 1;
                 res = (extend_heap res 2)[dst := BLOCK_BRANCH cond yes no]
             in do {
               res \<leftarrow> remove_defers_at n blocks (0 # epis) src_yes yes res;
               remove_defers_at n blocks (0 # epis) src_no no res
             }
         | BLOCK_LOOP src_body \<Rightarrow>
             let body = length res; res = (extend_heap res 1)[dst := BLOCK_LOOP body]
             in remove_defers_at n blocks (0 # epis) src_body body res
         | BLOCK_BREAK level \<Rightarrow> lower_break level (0 # epis) dst res
         | BLOCK_VAR var src_body \<Rightarrow>
             let body = length res; res = (extend_heap res 1)[dst := BLOCK_VAR var body]
             in remove_defers_at n blocks (0 # epis) src_body body res))"

declare remove_defers_at.simps(2) [simp del]
declare remove_defers_many.simps(2) [simp del]

text \<open>The entry point replaces the source array by the lowered one.\<close>

definition remove_defers :: "nat \<Rightarrow> block list \<Rightarrow> block list option" where
  "remove_defers fuel blocks = remove_defers_at fuel blocks [] 0 0 (extend_heap [] 1)"

end
