(* ===== verification/BlockTree.thy ===== *)
theory BlockTree
  imports Lowering
begin

text \<open>
  The trees a flat block array stands for, their lowering, and the frame of the code: which
  slots of the builder \<^verbatim>\<open>_remove_defers\<close> may write.

  \<^term>\<open>block_tree bs S i t\<close> says that slot \<open>i\<close> of the array \<open>bs\<close> stands for the tree \<open>t\<close>, and that
  only slots in \<open>S\<close> are involved; arrays with a cycle or a dangling index stand for no tree.
  Epilogues are copied by their root only, so the lowered array is a DAG: two slots may stand
  for trees that share slots.
\<close>

section \<open>Trees\<close>

datatype tree =
    Basic op_range
  | Defer tree tree
  | Many "tree list"
  | Crash
  | HardCrash
  | CrashPad tree tree
  | Branch op_range tree tree
  | Loop tree
  | Break nat
  | VarT nat tree

inductive block_tree :: "block list \<Rightarrow> nat set \<Rightarrow> nat \<Rightarrow> tree \<Rightarrow> bool"
  and chain_tree :: "block list \<Rightarrow> nat set \<Rightarrow> nat \<Rightarrow> nat \<Rightarrow> tree list \<Rightarrow> bool"
  for bs :: "block list" and S :: "nat set"
where
  basic: "\<lbrakk>i < length bs; i \<in> S; bs ! i = BLOCK_BASIC r\<rbrakk> \<Longrightarrow> block_tree bs S i (Basic r)"
| deferred: "\<lbrakk>i < length bs; i \<in> S; bs ! i = BLOCK_DEFER j k; block_tree bs S j body; block_tree bs S k cleanup\<rbrakk>
    \<Longrightarrow> block_tree bs S i (Defer body cleanup)"
| many: "\<lbrakk>i < length bs; i \<in> S; bs ! i = BLOCK_MANY j k; chain_tree bs S j k ts\<rbrakk>
    \<Longrightarrow> block_tree bs S i (Many ts)"
| crash: "\<lbrakk>i < length bs; i \<in> S; bs ! i = BLOCK_CRASH\<rbrakk> \<Longrightarrow> block_tree bs S i Crash"
| hard_crash: "\<lbrakk>i < length bs; i \<in> S; bs ! i = BLOCK_HARD_CRASH\<rbrakk> \<Longrightarrow> block_tree bs S i HardCrash"
| crash_pad: "\<lbrakk>i < length bs; i \<in> S; bs ! i = BLOCK_CRASH_PAD j k; block_tree bs S j body; block_tree bs S k pad\<rbrakk>
    \<Longrightarrow> block_tree bs S i (CrashPad body pad)"
| branch: "\<lbrakk>i < length bs; i \<in> S; bs ! i = BLOCK_BRANCH c j k; block_tree bs S j y; block_tree bs S k n\<rbrakk>
    \<Longrightarrow> block_tree bs S i (Branch c y n)"
| loop: "\<lbrakk>i < length bs; i \<in> S; bs ! i = BLOCK_LOOP j; block_tree bs S j body\<rbrakk>
    \<Longrightarrow> block_tree bs S i (Loop body)"
| break: "\<lbrakk>i < length bs; i \<in> S; bs ! i = BLOCK_BREAK k\<rbrakk> \<Longrightarrow> block_tree bs S i (Break k)"
| var: "\<lbrakk>i < length bs; i \<in> S; bs ! i = BLOCK_VAR v j; block_tree bs S j body\<rbrakk>
    \<Longrightarrow> block_tree bs S i (VarT v body)"
| chain_end: "chain_tree bs S BLOCK_INVALID k []"
| chain_last: "\<lbrakk>j \<noteq> BLOCK_INVALID; block_tree bs S j t\<rbrakk> \<Longrightarrow> chain_tree bs S j BLOCK_INVALID [t]"
| chain_link: "\<lbrakk>j \<noteq> BLOCK_INVALID; block_tree bs S j t; k \<noteq> BLOCK_INVALID; k < length bs; k \<in> S;
      bs ! k = BLOCK_CHAIN j' k'; chain_tree bs S j' k' ts\<rbrakk>
    \<Longrightarrow> chain_tree bs S j k (t # ts)"

inductive_cases block_tree_cases: "block_tree bs S i t"

lemma block_tree_transfer:
  "block_tree bs S i t \<Longrightarrow> (\<And>x. x \<in> S \<Longrightarrow> x < length bs \<Longrightarrow> x \<in> S' \<and> x < length bs' \<and> bs' ! x = bs ! x) \<Longrightarrow> block_tree bs' S' i t"
  "chain_tree bs S j k ts \<Longrightarrow> (\<And>x. x \<in> S \<Longrightarrow> x < length bs \<Longrightarrow> x \<in> S' \<and> x < length bs' \<and> bs' ! x = bs ! x) \<Longrightarrow> chain_tree bs' S' j k ts"
  by (induction rule: block_tree_chain_tree.inducts) (auto intro!: block_tree_chain_tree.intros)

lemma block_tree_root: "block_tree bs S i t \<Longrightarrow> i < length bs \<and> i \<in> S"
  by (cases rule: block_tree_cases) auto

text \<open>A copy of a root stands for the same tree.\<close>

lemma block_tree_copy:
  assumes "block_tree bs S i t" "j < length bs" "j \<in> S" "bs ! j = bs ! i"
  shows "block_tree bs S j t"
  using assms by (cases rule: block_tree_cases) (auto intro: block_tree_chain_tree.intros)

section \<open>Lowering of trees\<close>

fun epilogues :: "tree option list \<Rightarrow> tree list" where
  "epilogues [] = []"
| "epilogues (None # c) = epilogues c"
| "epilogues (Some t # c) = t # epilogues c"

function (sequential) lower :: "tree option list \<Rightarrow> tree \<Rightarrow> tree option"
  and lower_list :: "tree option list \<Rightarrow> tree list \<Rightarrow> tree list option" where
  "lower ctx (Basic r) = Some (Basic r)"
| "lower ctx (Defer body cleanup) =
     (case lower (None # ctx) cleanup of None \<Rightarrow> None | Some c \<Rightarrow>
       map_option (\<lambda>b. Many [CrashPad b c, c]) (lower (Some c # ctx) body))"
| "lower ctx (Many ts) = map_option Many (lower_list (None # ctx) ts)"
| "lower ctx Crash = Some Crash"
| "lower ctx HardCrash = Some HardCrash"
| "lower ctx (CrashPad body pad) =
     (case lower (None # ctx) pad of None \<Rightarrow> None | Some p \<Rightarrow>
       map_option (\<lambda>b. CrashPad b p) (lower (Some p # ctx) body))"
| "lower ctx (Branch c y n) =
     (case lower (None # ctx) y of None \<Rightarrow> None | Some y' \<Rightarrow>
       map_option (\<lambda>n'. Branch c y' n') (lower (None # ctx) n))"
| "lower ctx (Loop b) = map_option Loop (lower (None # ctx) b)"
| "lower ctx (Break k) =
     (if length ctx + 1 < k then None
      else let ds = epilogues (take k (None # ctx)) in
        Some (if ds = [] then Break k else Many (ds @ [Break (u32 (k + 1))])))"
| "lower ctx (VarT v b) = map_option (VarT v) (lower (None # ctx) b)"
| "lower_list ctx [] = Some []"
| "lower_list ctx (t # ts) =
     (case lower ctx t of None \<Rightarrow> None | Some t' \<Rightarrow> map_option ((#) t') (lower_list ctx ts))"
  by pat_completeness auto
termination
  by (relation "measure (\<lambda>x. case x of Inl (c, t) \<Rightarrow> size t | Inr (c, ts) \<Rightarrow> size_list size ts)") auto

section \<open>What the lowering writes\<close>

lemma m_next_set_cur [simp]: "m_next (set_cur c b) = m_next b"
  by (cases b) auto

lemma link_child_frame:
  assumes "link_child dst c (res, prev) = (res', prev')" "dst < length res"
  shows "length res \<le> length res'" "length res' \<le> Suc (length res)"
    "\<And>i. i < length res \<Longrightarrow> i \<noteq> dst \<Longrightarrow> m_next (res ! dst) = BLOCK_INVALID \<or> i \<noteq> prev \<Longrightarrow> res' ! i = res ! i"
  using assms
  by (auto simp: link_child_def append_chain_node_def nth_append nth_list_update split: if_splits)

lemma link_child_fresh:
  assumes "link_child dst c (res, prev) = (res', prev')" "dst < length res" "L \<le> length res"
    "m_next (res ! dst) = BLOCK_INVALID \<or> L \<le> prev"
  shows "m_next (res' ! dst) = BLOCK_INVALID \<or> L \<le> prev'"
  using assms by (auto simp: link_child_def append_chain_node_def nth_append nth_list_update split: if_splits)

text \<open>\<open>r\<close> differs from \<open>res\<close> at most at \<open>dst\<close> and in new slots.\<close>

definition grown :: "block list \<Rightarrow> nat \<Rightarrow> block list \<Rightarrow> bool" where
  "grown res dst r \<longleftrightarrow> length res \<le> length r \<and> (\<forall>i<length res. i \<noteq> dst \<longrightarrow> r ! i = res ! i)"

lemma grown_refl [simp]: "grown res dst res"
  by (simp add: grown_def)

lemma grown_update [simp]: "d = dst \<or> length res \<le> d \<Longrightarrow> grown res dst r \<Longrightarrow> grown res dst (r[d := b])"
  by (auto simp: grown_def nth_list_update)

lemma grown_extend [simp]: "grown res dst r \<Longrightarrow> grown res dst (extend_heap r n)"
  by (auto simp: grown_def extend_heap_def nth_append)

lemma grown_length: "grown res dst r \<Longrightarrow> length res \<le> length r"
  by (simp add: grown_def)

lemma grown_nth: "grown res dst r \<Longrightarrow> i < length res \<Longrightarrow> i \<noteq> dst \<Longrightarrow> r ! i = res ! i"
  by (simp add: grown_def)

lemma grown_trans: "grown res dst r \<Longrightarrow> grown r d r' \<Longrightarrow> d = dst \<or> length res \<le> d \<Longrightarrow> grown res dst r'"
  by (auto simp: grown_def)

lemma length_extend_heap [simp]: "length (extend_heap res n) = length res + n"
  by (simp add: extend_heap_def)

definition frame_ok :: "lower_fn \<Rightarrow> bool" where
  "frame_ok K \<longleftrightarrow> (\<forall>epis src dst res res'. K epis src dst res = Some res' \<longrightarrow> dst < length res \<longrightarrow> grown res dst res')"

lemma frame_okD: "frame_ok K \<Longrightarrow> K epis src dst res = Some res' \<Longrightarrow> dst < length res \<Longrightarrow> grown res dst res'"
  unfolding frame_ok_def by blast

lemma frame_ok_step:
  assumes "frame_ok K" "K e s d r = Some r'" "grown res dst r" "d = dst \<or> length res \<le> d" "d < length r"
  shows "grown res dst r'" "length r \<le> length r'"
  using frame_okD [OF assms(1,2,5)] grown_trans [OF assms(3) _ assms(4)] grown_length by blast+

lemma remove_defers_many_frame:
  assumes "frame_ok K"
  shows "\<lbrakk>remove_defers_many K n blocks epis dst child chain (res, prev) = Some res'; dst < L; L \<le> length res;
      m_next (res ! dst) = BLOCK_INVALID \<or> L \<le> prev\<rbrakk>
    \<Longrightarrow> length res \<le> length res' \<and> (\<forall>i<L. i \<noteq> dst \<longrightarrow> res' ! i = res ! i)"
proof (induction n arbitrary: child chain res prev)
  case 0
  then show ?case by simp
next
  case (Suc n)
  obtain r1 p1 where l: "link_child dst (length res) (extend_heap res 1, prev) = (r1, p1)"
    by fastforce
  have e: "length (extend_heap res 1) = Suc (length res)" "\<And>i. i < length res \<Longrightarrow> extend_heap res 1 ! i = res ! i"
    by (simp_all add: extend_heap_def nth_append)
  have d: "dst < length res" using Suc.prems by simp
  then have "dst < length (extend_heap res 1)" by simp
  note f1 = link_child_frame [OF l this, unfolded e(1)]
  have i1: "m_next (r1 ! dst) = BLOCK_INVALID \<or> L \<le> p1"
    by (rule link_child_fresh [OF l]) (use Suc.prems d e in auto)
  have same1: "r1 ! i = res ! i" if "i < L" "i \<noteq> dst" for i
    using f1(3) [of i] e(2) that Suc.prems d by auto
  show ?case
  proof (cases "child = BLOCK_INVALID")
    case True
    then show ?thesis using Suc.prems by (simp add: remove_defers_many.simps(2))
  next
    case False
    then obtain r2 where k: "K epis child (length res) r1 = Some r2"
      using Suc.prems(1) l by (auto simp: remove_defers_many.simps(2) split: bind_splits)
    note f2 = frame_okD [OF assms k, unfolded grown_def, THEN conjunct1] frame_okD [OF assms k, THEN grown_nth]
    have lr: "length res < length r1" using f1 by simp
    have fin: "length res \<le> length r2 \<and> (\<forall>i<L. i \<noteq> dst \<longrightarrow> r2 ! i = res ! i)"
      using f2 [OF lr] lr same1 Suc.prems by auto
    have dd: "r2 ! dst = r1 ! dst"
      using f2(2) [OF lr] lr d by simp
    show ?thesis
    proof (cases "chain = BLOCK_INVALID \<or> length blocks \<le> chain \<or> \<not> (\<exists>c n. blocks ! chain = BLOCK_CHAIN c n)")
      case True
      then have "res' = r2"
        using Suc.prems(1) False l k by (auto simp: remove_defers_many.simps(2) split: block.splits if_splits)
      with fin show ?thesis by simp
    next
      case c: False
      then obtain c' n' where c': "blocks ! chain = BLOCK_CHAIN c' n'" by blast
      have "remove_defers_many K n blocks epis dst c' n' (r2, p1) = Some res'"
        using Suc.prems(1) False l k c c' by (auto simp: remove_defers_many.simps(2))
      from Suc.IH [OF this] Suc.prems fin dd i1 show ?thesis by fastforce
    qed
  qed
qed

lemma copy_epilogues_frame:
  "\<lbrakk>copy_epilogues level epis dst (res, prev) = Some (res', prev'); dst < L; L \<le> length res;
      m_next (res ! dst) = BLOCK_INVALID \<or> L \<le> prev\<rbrakk>
    \<Longrightarrow> length res \<le> length res' \<and> (\<forall>i<L. i \<noteq> dst \<longrightarrow> res' ! i = res ! i)
      \<and> (m_next (res' ! dst) = BLOCK_INVALID \<or> L \<le> prev')"
proof (induction level arbitrary: epis res prev)
  case 0
  then show ?case by simp
next
  case (Suc level)
  then obtain d epis' where es: "epis = d # epis'" by (cases epis) auto
  show ?case
  proof (cases "d = 0")
    case True
    then show ?thesis using Suc.IH [of epis' res prev] Suc.prems es by simp
  next
    case False
    obtain r1 p1 where l: "link_child dst (length res) (res @ [res ! d], prev) = (r1, p1)"
      by fastforce
    have d: "dst < length (res @ [res ! d])" using Suc.prems by simp
    note f1 = link_child_frame [OF l d]
    have i1: "m_next (r1 ! dst) = BLOCK_INVALID \<or> L \<le> p1"
      by (rule link_child_fresh [OF l]) (use Suc.prems in \<open>auto simp: nth_append\<close>)
    have same1: "r1 ! i = res ! i" if "i < L" "i \<noteq> dst" for i
      using f1(3) [of i] that Suc.prems by (auto simp: nth_append)
    have "copy_epilogues level epis' dst (r1, p1) = Some (res', prev')"
      using Suc.prems es False l by simp
    from Suc.IH [OF this] Suc.prems f1 i1 same1 show ?thesis by fastforce
  qed
qed

lemma lower_break_frame:
  assumes "lower_break level epis dst res = Some res'" "dst < length res"
  shows "grown res dst res'"
proof -
  let ?r = "res[dst := BLOCK_MANY BLOCK_INVALID BLOCK_INVALID]"
  obtain r p where c: "copy_epilogues level epis dst (?r, BLOCK_INVALID) = Some (r, p)"
    using assms(1) by (auto simp: lower_break_def split: bind_splits)
  have f: "length res \<le> length r \<and> (\<forall>i<length res. i \<noteq> dst \<longrightarrow> r ! i = res ! i)
      \<and> (m_next (r ! dst) = BLOCK_INVALID \<or> length res \<le> p)"
    using copy_epilogues_frame [OF c, of "length res"] assms(2) by simp
  show ?thesis
  proof (cases "m_cur (r ! dst) = BLOCK_INVALID")
    case True
    then have "res' = r[dst := BLOCK_BREAK level]" using assms(1) c by (simp add: lower_break_def)
    with f show ?thesis by (simp add: grown_def)
  next
    case False
    obtain r1 p1 where l: "link_child dst (length r) (r @ [BLOCK_BREAK (u32 (level + 1))], p) = (r1, p1)"
      by fastforce
    have res': "res' = r1" using assms(1) c False l by (simp add: lower_break_def)
    have "r1 ! i = res ! i" if "i < length res" "i \<noteq> dst" for i
      using link_child_frame(3) [OF l, of i] f that assms(2) by (auto simp: nth_append)
    then show ?thesis using link_child_frame(1) [OF l] f assms(2) res' by (auto simp: grown_def)
  qed
qed

lemma remove_defers_at_frame: "frame_ok (remove_defers_at n blocks)"
proof (induction n)
  case 0
  then show ?case by (simp add: frame_ok_def)
next
  case (Suc n)
  note step = frame_ok_step [OF Suc.IH]
  show ?case unfolding frame_ok_def
  proof (intro allI impI)
    fix epis src dst res res'
    assume r: "remove_defers_at (Suc n) blocks epis src dst res = Some res'" and d: "dst < length res"
    have src: "src < length blocks" using r by (auto simp: remove_defers_at.simps(2) split: if_splits)
    note rd = r d src remove_defers_at.simps(2)
    show "grown res dst res'"
    proof (cases "blocks ! src")
      case (BLOCK_BREAK k)
      then show ?thesis using rd lower_break_frame [of k "0 # epis" dst "res[dst := BLOCK_BREAK k]" res']
        by (auto elim: grown_trans [rotated])
    next
      case (BLOCK_MANY j k)
      then show ?thesis using rd
          remove_defers_many_frame [OF Suc.IH, of n blocks "0 # epis" dst j k
            "res[dst := BLOCK_MANY BLOCK_INVALID BLOCK_INVALID]" BLOCK_INVALID res' "length res"]
        by (simp add: grown_def)
    next
      case (BLOCK_DEFER j k)
      let ?r0 = "(extend_heap (res[dst := BLOCK_DEFER j k]) 4)
         [dst := BLOCK_MANY (length res) (length res + 1),
          length res + 1 := BLOCK_CHAIN (length res + 2) BLOCK_INVALID,
          length res := BLOCK_CRASH_PAD (length res + 3) (length res + 2)]"
      obtain r1 where k: "remove_defers_at n blocks (0 # epis) k (length res + 2) ?r0 = Some r1"
        "remove_defers_at n blocks ((length res + 2) # epis) j (length res + 3) r1 = Some res'"
        using rd BLOCK_DEFER by (auto simp: Let_def split: bind_splits)
      note s1 = step [OF k(1), of res dst]
      show ?thesis by (rule step(1) [OF k(2) s1(1)]) (use s1(2) in \<open>auto\<close>)
    next
      case (BLOCK_CRASH_PAD j k)
      let ?r0 = "(extend_heap (res[dst := BLOCK_CRASH_PAD j k]) 2)[dst := BLOCK_CRASH_PAD (length res) (length res + 1)]"
      obtain r1 where k: "remove_defers_at n blocks (0 # epis) k (length res + 1) ?r0 = Some r1"
        "remove_defers_at n blocks ((length res + 1) # epis) j (length res) r1 = Some res'"
        using rd BLOCK_CRASH_PAD by (auto simp: Let_def split: bind_splits)
      note s1 = step [OF k(1), of res dst]
      show ?thesis by (rule step(1) [OF k(2) s1(1)]) (use s1(2) in \<open>auto\<close>)
    next
      case (BLOCK_BRANCH c j k)
      let ?r0 = "(extend_heap (res[dst := BLOCK_BRANCH c j k]) 2)[dst := BLOCK_BRANCH c (length res) (length res + 1)]"
      obtain r1 where k: "remove_defers_at n blocks (0 # epis) j (length res) ?r0 = Some r1"
        "remove_defers_at n blocks (0 # epis) k (length res + 1) r1 = Some res'"
        using rd BLOCK_BRANCH by (auto simp: Let_def split: bind_splits)
      note s1 = step [OF k(1), of res dst]
      show ?thesis by (rule step(1) [OF k(2) s1(1)]) (use s1(2) in \<open>auto\<close>)
    next
      case (BLOCK_LOOP j)
      let ?r0 = "(extend_heap (res[dst := BLOCK_LOOP j]) 1)[dst := BLOCK_LOOP (length res)]"
      have k: "remove_defers_at n blocks (0 # epis) j (length res) ?r0 = Some res'"
        using rd BLOCK_LOOP by (auto simp: Let_def)
      show ?thesis by (rule step(1) [OF k]) auto
    next
      case (BLOCK_VAR v j)
      let ?r0 = "(extend_heap (res[dst := BLOCK_VAR v j]) 1)[dst := BLOCK_VAR v (length res)]"
      have k: "remove_defers_at n blocks (0 # epis) j (length res) ?r0 = Some res'"
        using rd BLOCK_VAR by (auto simp: Let_def)
      show ?thesis by (rule step(1) [OF k]) auto
    qed (use rd in \<open>auto\<close>)
  qed
qed

end
