(* ===== verification/Lowering_Refine.thy ===== *)
theory Lowering_Refine
  imports BlockTree
begin

text \<open>
  The refinement of the defer lowering: whatever fuel it returned with, \<^verbatim>\<open>_remove_defers\<close> leaves at
  \<open>dst\<close> the tree that the lowering of trees computes, and it returns whenever no assertion fires.

  The invariant is \<^term>\<open>spine\<close> for a sequence under construction, and for the epilogue stack
  that every entry stands for the lowered cleanup of an enclosing defer, on slots that no
  call below it writes.
\<close>

section \<open>Sequences under construction\<close>

text \<open>
  \<open>dst\<close> heads a sequence of the child slots \<open>cs\<close>, linked through the chain nodes \<open>ls\<close>, and
  \<open>prev\<close> is the last of these nodes.
\<close>

definition spine :: "block list \<Rightarrow> nat \<Rightarrow> nat list \<Rightarrow> nat list \<Rightarrow> nat \<Rightarrow> bool" where
  "spine bs dst cs ls prev \<longleftrightarrow>
     dst < length bs \<and> (\<forall>l\<in>set ls. l < length bs) \<and> distinct (dst # ls)
   \<and> length ls = length cs - 1 \<and> (ls \<noteq> [] \<longrightarrow> prev = last ls)
   \<and> BLOCK_INVALID \<notin> set cs \<and> BLOCK_INVALID \<notin> set ls
   \<and> bs ! dst = BLOCK_MANY (if cs = [] then BLOCK_INVALID else hd cs) (if ls = [] then BLOCK_INVALID else hd ls)
   \<and> (\<forall>k<length ls. bs ! (ls ! k) = BLOCK_CHAIN (cs ! Suc k) (if Suc k < length ls then ls ! Suc k else BLOCK_INVALID))"

lemma spine_start: "dst < length bs \<Longrightarrow> bs ! dst = BLOCK_MANY BLOCK_INVALID BLOCK_INVALID \<Longrightarrow> spine bs dst [] [] prev"
  by (simp add: spine_def)

lemma spine_transfer:
  assumes "spine bs dst cs ls prev" "length bs \<le> length bs'"
    "\<And>i. i \<in> insert dst (set ls) \<Longrightarrow> bs' ! i = bs ! i"
  shows "spine bs' dst cs ls prev"
  using assms by (auto simp: spine_def)

lemma link_child_spine:
  assumes sp: "spine bs dst cs ls prev" and c: "c \<noteq> BLOCK_INVALID" and bound: "length bs' \<le> BLOCK_INVALID"
    and l: "link_child dst c (bs, prev) = (bs', prev')"
  shows "\<exists>ls'. spine bs' dst (cs @ [c]) ls' prev' \<and> set ls' \<subseteq> set ls \<union> {length bs..<length bs'}
    \<and> (\<forall>i<length bs. i \<notin> insert dst (set ls) \<longrightarrow> bs' ! i = bs ! i)"
proof (cases "cs = []")
  case True
  then have "ls = []" "bs ! dst = BLOCK_MANY BLOCK_INVALID BLOCK_INVALID" "dst < length bs"
    using sp by (auto simp: spine_def)
  then show ?thesis
    using l c True by (intro exI [of _ "[]"]) (auto simp: link_child_def spine_def split: if_splits)
next
  case False
  let ?link = "length bs"
  have d: "dst < length bs" and lsl: "\<forall>l\<in>set ls. l < length bs" and di: "distinct (dst # ls)"
    and len: "length ls = length cs - 1" and last: "ls \<noteq> [] \<longrightarrow> prev = last ls"
    and ci: "BLOCK_INVALID \<notin> set cs" and li: "BLOCK_INVALID \<notin> set ls"
    and b: "bs ! dst = BLOCK_MANY (hd cs) (if ls = [] then BLOCK_INVALID else hd ls)"
    and ch: "\<And>k. k < length ls \<Longrightarrow> bs ! (ls ! k) = BLOCK_CHAIN (cs ! Suc k) (if Suc k < length ls then ls ! Suc k else BLOCK_INVALID)"
    using sp False by (auto simp: spine_def)
  have hd: "hd cs \<noteq> BLOCK_INVALID" using ci False by (cases cs) auto
  have hl: "ls \<noteq> [] \<Longrightarrow> hd ls \<noteq> BLOCK_INVALID" using li by (cases ls) auto
  show ?thesis
  proof (cases "ls = []")
    case True
    obtain c0 where cs: "cs = [c0]" using len True False by (cases cs) auto
    have bs': "bs' = (bs @ [BLOCK_CHAIN c BLOCK_INVALID])[dst := BLOCK_MANY c0 ?link]" "prev' = ?link"
      using l b hd d True cs by (auto simp: link_child_def append_chain_node_def nth_append)
    then have "?link \<noteq> BLOCK_INVALID" using bound by auto
    with bs' d cs True c ci show ?thesis
      by (intro exI [of _ "[?link]"]) (auto simp: spine_def nth_append nth_list_update)
  next
    case ls: False
    then have prev: "prev = last ls" "prev \<in> set ls" using last by auto
    have pl: "prev < length bs" "prev \<noteq> dst" using prev lsl di by auto
    define m where "m = length ls - 1"
    have pm: "prev = ls ! m" "m < length ls" "Suc m = length ls"
      using prev ls by (auto simp: m_def last_conv_nth)
    have bp: "bs ! prev = BLOCK_CHAIN (cs ! Suc m) BLOCK_INVALID"
      using ch [OF pm(2)] pm by simp
    have bs': "bs' = (bs @ [BLOCK_CHAIN c BLOCK_INVALID])[prev := BLOCK_CHAIN (cs ! Suc m) ?link]" "prev' = ?link"
      using l b hd hl ls d pl bp by (auto simp: link_child_def append_chain_node_def nth_append)
    then have il: "?link \<noteq> BLOCK_INVALID" using bound by auto
    have lc: "length cs = Suc (length ls)" using len False by (cases cs) auto
    have old: "bs' ! i = bs ! i" if "i < length bs" "i \<noteq> prev" for i
      using that bs' by (simp add: nth_append nth_list_update)
    have "bs' ! ((ls @ [?link]) ! k) = BLOCK_CHAIN ((cs @ [c]) ! Suc k) (if Suc k < length (ls @ [?link]) then (ls @ [?link]) ! Suc k else BLOCK_INVALID)"
      if k: "k < length (ls @ [?link])" for k
    proof -
      consider "k < m" | "k = m" | "k = length ls" using k pm by fastforce
      then show ?thesis
      proof cases
        case 1
        then have kl: "k < length ls" "Suc k < length ls" using pm by auto
        have "ls ! k \<noteq> prev" using di pm 1 by (auto simp: nth_eq_iff_index_eq)
        then have "bs' ! (ls ! k) = bs ! (ls ! k)" using old lsl kl by simp
        then show ?thesis using kl ch [of k] lc by (simp add: nth_append)
      next
        case 2
        have "bs' ! prev = BLOCK_CHAIN (cs ! Suc m) ?link" using bs' pl by (simp add: nth_append nth_list_update)
        then show ?thesis using 2 pm lc by (simp add: nth_append)
      next
        case 3
        have "bs' ! ?link = BLOCK_CHAIN c BLOCK_INVALID" using bs' pl by (simp add: nth_append nth_list_update)
        then show ?thesis using 3 lc by (simp add: nth_append)
      qed
    qed
    moreover have "bs' ! dst = BLOCK_MANY (hd (cs @ [c])) (hd (ls @ [?link]))"
      using old [OF d] pl b False ls by simp
    ultimately have "spine bs' dst (cs @ [c]) (ls @ [?link]) prev'"
      using d lsl di c ci li il lc bs' unfolding spine_def by (auto simp: less_Suc_eq)
    moreover have "\<forall>i<length bs. i \<notin> insert dst (set ls) \<longrightarrow> bs' ! i = bs ! i" using old prev by auto
    moreover have "set (ls @ [?link]) \<subseteq> set ls \<union> {length bs..<length bs'}" using bs' by auto
    ultimately show ?thesis by blast
  qed
qed

lemma spine_chain_tree:
  assumes sp: "spine bs dst cs ls prev" and G: "set ls \<subseteq> G" and ts: "list_all2 (block_tree bs G) cs ts"
  shows "k < length cs \<Longrightarrow> chain_tree bs G (cs ! k) (if k < length ls then ls ! k else BLOCK_INVALID) (drop k ts)"
proof (induction "length cs - k" arbitrary: k rule: less_induct)
  case less
  have lt: "length ts = length cs" using ts by (simp add: list_all2_lengthD)
  have t: "block_tree bs G (cs ! k) (ts ! k)" using ts less.prems by (simp add: list_all2_nthD)
  have c: "cs ! k \<noteq> BLOCK_INVALID" using sp less.prems by (auto simp: spine_def dest: nth_mem)
  have dr: "drop k ts = ts ! k # drop (Suc k) ts" using lt less.prems by (simp add: Cons_nth_drop_Suc)
  show ?case
  proof (cases "k < length ls")
    case False
    then have "drop (Suc k) ts = []" using sp lt less.prems by (auto simp: spine_def)
    then show ?thesis using False t c dr by (auto intro: chain_last)
  next
    case True
    then have kc: "Suc k < length cs" using sp by (auto simp: spine_def)
    have l: "ls ! k \<noteq> BLOCK_INVALID" "ls ! k < length bs" "ls ! k \<in> G"
      "bs ! (ls ! k) = BLOCK_CHAIN (cs ! Suc k) (if Suc k < length ls then ls ! Suc k else BLOCK_INVALID)"
      using sp G True nth_mem [OF True] unfolding spine_def by (metis, blast, blast, blast)
    show ?thesis unfolding dr
      using chain_link [OF c t l(1-4) less.hyps [OF _ kc]] less.prems True by simp
  qed
qed

lemma spine_many:
  assumes sp: "spine bs dst cs ls prev" and G: "set ls \<subseteq> G" "dst \<in> G" and ts: "list_all2 (block_tree bs G) cs ts"
  shows "block_tree bs G dst (Many ts)"
proof (cases "cs = []")
  case True
  then have "bs ! dst = BLOCK_MANY BLOCK_INVALID BLOCK_INVALID" "dst < length bs" "ts = []"
    using sp ts by (auto simp: spine_def)
  then show ?thesis using G by (auto intro: many chain_end)
next
  case False
  have "chain_tree bs G (hd cs) (if ls = [] then BLOCK_INVALID else hd ls) ts"
    using spine_chain_tree [OF sp G(1) ts, of 0] False by (cases ls) (auto simp: hd_conv_nth)
  then show ?thesis using sp G(2) False by (auto simp: spine_def intro: many)
qed

section \<open>The builder holds the lowered tree\<close>

definition epi_slot :: "block list \<Rightarrow> nat set \<Rightarrow> nat \<Rightarrow> tree option \<Rightarrow> bool" where
  "epi_slot bs F d e = (case e of None \<Rightarrow> d = 0 | Some t \<Rightarrow> d \<noteq> 0 \<and> block_tree bs F d t)"

lemma epi_slot_simps [simp]:
  "epi_slot bs F d None \<longleftrightarrow> d = 0"
  "epi_slot bs F d (Some t) \<longleftrightarrow> d \<noteq> 0 \<and> block_tree bs F d t"
  by (simp_all add: epi_slot_def)

abbreviation epis_ok :: "block list \<Rightarrow> nat set \<Rightarrow> nat list \<Rightarrow> tree option list \<Rightarrow> bool" where
  "epis_ok bs F \<equiv> list_all2 (epi_slot bs F)"

lemma epis_ok_transfer:
  assumes "epis_ok bs F epis ctx" "F \<subseteq> F'" "\<And>i. i \<in> F \<Longrightarrow> i < length bs' \<and> bs' ! i = bs ! i"
  shows "epis_ok bs' F' epis ctx"
  using assms(1)
  by (rule list.rel_mono_strong)
    (use assms(2,3) in \<open>auto simp: epi_slot_def split: option.splits elim!: block_tree_transfer\<close>)

lemma link_child_length: "length (fst s) \<le> length (fst (link_child dst c s))"
  by (cases s) (auto simp: link_child_def append_chain_node_def split: if_splits)

lemma copy_epilogues_length:
  "copy_epilogues level epis dst s = Some s' \<Longrightarrow> length (fst s) \<le> length (fst s')"
proof (induction level arbitrary: epis s)
  case 0
  then show ?case by simp
next
  case (Suc level)
  then obtain d epis' where es: "epis = d # epis'" by (cases epis) auto
  obtain res prev where s: "s = (res, prev)" by fastforce
  show ?case
  proof (cases "d = 0")
    case True
    then show ?thesis using Suc.prems Suc.IH es by simp
  next
    case False
    then have "copy_epilogues level epis' dst (link_child dst (length res) (res @ [res ! d], prev)) = Some s'"
      using Suc.prems es s by simp
    from Suc.IH [OF this] show ?thesis
      using s link_child_length [of "(res @ [res ! d], prev)" dst "length res"] by simp
  qed
qed

lemma remove_defers_many_length:
  assumes "frame_ok K"
  shows "remove_defers_many K n blocks epis dst child chain s = Some res' \<Longrightarrow> length (fst s) \<le> length res'"
proof (induction n arbitrary: child chain s)
  case 0
  then show ?case by simp
next
  case (Suc n)
  let ?s = "link_child dst (length (fst s)) (extend_heap (fst s) 1, snd s)"
  have l: "length (fst s) < length (fst ?s)"
    using link_child_length [of "(extend_heap (fst s) 1, snd s)" dst "length (fst s)"] by simp
  show ?case
  proof (cases "child = BLOCK_INVALID")
    case True
    then show ?thesis using Suc.prems by (simp add: remove_defers_many.simps(2))
  next
    case False
    then obtain r where k: "K epis child (length (fst s)) (fst ?s) = Some r"
      using Suc.prems by (auto simp: remove_defers_many.simps(2) Let_def split: bind_splits)
    have "length (fst ?s) \<le> length r" using grown_length [OF frame_okD [OF assms k l]] .
    then show ?thesis using Suc.prems Suc.IH [of _ _ "(r, snd ?s)"] False k l
      by (fastforce simp: remove_defers_many.simps(2) Let_def split: if_splits block.splits)
  qed
qed

text \<open>Linking a finished child: its own tree and the trees of the epilogues survive.\<close>

lemma link_child_tree:
  assumes l: "link_child dst c (bs, prev) = (bs', prev')" and sp: "spine bs dst cs ls prev"
    and c: "c \<noteq> BLOCK_INVALID" and bound: "length bs' \<le> BLOCK_INVALID"
    and G: "G \<subseteq> {..<length bs}" "G \<inter> insert dst (set ls) = {}"
  obtains ls' where "spine bs' dst (cs @ [c]) ls' prev'" "set ls' \<subseteq> set ls \<union> {length bs..<length bs'}"
    "\<And>i. i < length bs \<Longrightarrow> i \<notin> insert dst (set ls) \<Longrightarrow> bs' ! i = bs ! i" "length bs \<le> length bs'"
    "\<And>i. i \<in> G \<Longrightarrow> i < length bs' \<and> bs' ! i = bs ! i"
proof -
  have len: "length bs \<le> length bs'" using link_child_length [of "(bs, prev)" dst c] l by simp
  from link_child_spine [OF sp c bound l] obtain ls' where ls':
    "spine bs' dst (cs @ [c]) ls' prev'" "set ls' \<subseteq> set ls \<union> {length bs..<length bs'}"
    "\<forall>i<length bs. i \<notin> insert dst (set ls) \<longrightarrow> bs' ! i = bs ! i" by blast
  show ?thesis
  proof (rule that [OF ls'(1,2) _ len])
    show "bs' ! i = bs ! i" if "i < length bs" "i \<notin> insert dst (set ls)" for i
      using ls'(3) that by blast
    show "i < length bs' \<and> bs' ! i = bs ! i" if "i \<in> G" for i
      using ls'(3) that G len by auto
  qed
qed

lemma copy_epilogues_tree:
  "\<lbrakk>copy_epilogues level epis dst (res, prev) = Some (res', prev'); spine res dst cs ls prev;
     epis_ok res F epis ctx; F \<subseteq> {..<length res}; F \<inter> insert dst (set ls) = {}; length res' \<le> BLOCK_INVALID\<rbrakk>
   \<Longrightarrow> level \<le> length ctx \<and>
     (\<exists>cs' ls'. spine res' dst (cs @ cs') ls' prev' \<and> set ls' \<subseteq> set ls \<union> {length res..<length res'}
      \<and> (\<forall>i<length res. i \<notin> insert dst (set ls) \<longrightarrow> res' ! i = res ! i)
      \<and> list_all2 (block_tree res' (F \<union> ({length res..<length res'} - set ls'))) cs' (epilogues (take level ctx)))"
proof (induction level arbitrary: epis ctx res prev cs ls)
  case 0
  then show ?case by (auto intro!: exI [of _ "[]"] exI [of _ ls])
next
  case (Suc level)
  then obtain d epis' where es: "epis = d # epis'" by (cases epis) auto
  then obtain e ctx' where cx: "ctx = e # ctx'" using Suc.prems(3) by (cases ctx) auto
  show ?case
  proof (cases e)
    case None
    with Suc.prems es cx have "d = 0" "epis_ok res F epis' ctx'" by auto
    moreover from this have "copy_epilogues level epis' dst (res, prev) = Some (res', prev')"
      using Suc.prems(1) es by simp
    ultimately show ?thesis using Suc.IH [of epis' res prev cs ls ctx'] Suc.prems None cx by auto
  next
    case (Some t)
    with Suc.prems es cx have dt: "d \<noteq> 0" "block_tree res F d t" "epis_ok res F epis' ctx'" by auto
    define c where "c = length res"
    define r0 where "r0 = res @ [res ! d]"
    obtain r1 p1 where l: "link_child dst c (r0, prev) = (r1, p1)"
      by fastforce
    have ce: "copy_epilogues level epis' dst (r1, p1) = Some (res', prev')"
      using Suc.prems(1) es dt l by (simp add: c_def r0_def)
    have len1: "length r1 \<le> length res'" using copy_epilogues_length [OF ce] by simp
    have sl: "dst < length res" "\<forall>x\<in>set ls. x < length res" using Suc.prems(2) by (auto simp: spine_def)
    have r0: "length r0 = Suc c" "\<And>i. i < c \<Longrightarrow> r0 ! i = res ! i" "r0 ! c = res ! d"
      by (auto simp: r0_def c_def nth_append)
    have sp0: "spine r0 dst cs ls prev"
      by (rule spine_transfer [OF Suc.prems(2)]) (use r0 sl in \<open>auto simp: c_def\<close>)
    have dF: "d < length res" "d \<in> F" using block_tree_root [OF dt(2)] by auto
    have t0: "block_tree r0 (insert c F) d t"
      by (rule block_tree_transfer(1) [OF dt(2)]) (use r0 in \<open>auto simp: c_def\<close>)
    have tc: "block_tree r0 (insert c F) c t"
      by (rule block_tree_copy [OF t0]) (use r0 dF in \<open>auto simp: c_def\<close>)
    have lr: "length r0 \<le> length r1" using link_child_length [of "(r0, prev)" dst c] l by simp
    have cI: "c \<noteq> BLOCK_INVALID" "length r1 \<le> BLOCK_INVALID" using len1 lr r0(1) Suc.prems(6) by auto
    have G0: "insert c F \<subseteq> {..<length r0}" "insert c F \<inter> insert dst (set ls) = {}"
      using Suc.prems(4,5) r0(1) sl by (auto simp: c_def)
    obtain ls1 where s1: "spine r1 dst (cs @ [c]) ls1 p1" "set ls1 \<subseteq> set ls \<union> {length r0..<length r1}"
      "\<And>i. i < length r0 \<Longrightarrow> i \<notin> insert dst (set ls) \<Longrightarrow> r1 ! i = r0 ! i" "length r0 \<le> length r1"
      "\<And>i. i \<in> insert c F \<Longrightarrow> i < length r1 \<and> r1 ! i = r0 ! i"
      by (rule link_child_tree [OF l sp0 cI G0]) blast
    have e1: "epis_ok r1 F epis' ctx'"
      by (rule epis_ok_transfer [OF dt(3)]) (use s1(5) r0 Suc.prems(4) in \<open>auto simp: c_def\<close>)
    have F1: "F \<subseteq> {..<length r1}" using Suc.prems(4) lr r0(1) by (auto simp: c_def)
    have F2: "F \<inter> insert dst (set ls1) = {}"
      using Suc.prems(4,5) s1(2) r0(1) by (fastforce simp: c_def)
    from Suc.IH [OF ce s1(1) e1 F1 F2 Suc.prems(6)] obtain cs' ls' where ih: "level \<le> length ctx'"
      "spine res' dst ((cs @ [c]) @ cs') ls' prev'" "set ls' \<subseteq> set ls1 \<union> {length r1..<length res'}"
      "\<And>i. i < length r1 \<Longrightarrow> i \<notin> insert dst (set ls1) \<Longrightarrow> res' ! i = r1 ! i"
      "list_all2 (block_tree res' (F \<union> ({length r1..<length res'} - set ls'))) cs' (epilogues (take level ctx'))"
      by blast
    let ?G = "F \<union> ({length res..<length res'} - set ls')"
    have cl: "c \<notin> set ls'" using ih(3) s1(2) lr r0(1) sl by (fastforce simp: c_def)
    have c1: "block_tree r1 (insert c F) c t"
      by (rule block_tree_transfer(1) [OF tc]) (use s1(5) in auto)
    have c2: "block_tree res' ?G c t"
    proof (rule block_tree_transfer(1) [OF c1])
      fix i assume i: "i \<in> insert c F" "i < length r1"
      then have "i < length r0" "i \<notin> insert dst (set ls)" using G0 by auto
      then have "i \<notin> insert dst (set ls1)" using s1(2) by auto
      then have "res' ! i = r1 ! i" using ih(4) i by blast
      moreover have "i \<in> ?G" using i cl len1 lr r0(1) by (auto simp: c_def)
      ultimately show "i \<in> ?G \<and> i < length res' \<and> res' ! i = r1 ! i" using i len1 by simp
    qed
    have cs2: "list_all2 (block_tree res' ?G) cs' (epilogues (take level ctx'))"
      using ih(5) by (rule list.rel_mono_strong) (use lr r0(1) in \<open>auto simp: c_def elim!: block_tree_transfer\<close>)
    show ?thesis
    proof (intro conjI exI)
      show "Suc level \<le> length ctx" using ih(1) cx by simp
      show "spine res' dst (cs @ (c # cs')) ls' prev'" using ih(2) by simp
      show "set ls' \<subseteq> set ls \<union> {length res..<length res'}"
        using ih(3) s1(2) len1 lr r0(1) by (force simp: c_def)
      show "\<forall>i<length res. i \<notin> insert dst (set ls) \<longrightarrow> res' ! i = res ! i"
      proof (intro allI impI)
        fix i assume i: "i < length res" "i \<notin> insert dst (set ls)"
        then have "i \<notin> insert dst (set ls1)" using s1(2) r0(1) by (auto simp: c_def)
        then show "res' ! i = res ! i" using ih(4) [of i] s1(3) [of i] r0 i lr by (simp add: c_def)
      qed
      show "list_all2 (block_tree res' ?G) (c # cs') (epilogues (take (Suc level) ctx))"
        using c2 cs2 Some cx by simp
    qed
  qed
qed

lemma lower_break_tree:
  assumes b: "lower_break level (0 # epis) dst res = Some res'" and ep: "epis_ok res F epis ctx"
    and d: "dst < length res" "dst \<notin> F" and F: "F \<subseteq> {..<length res}" and bound: "length res' \<le> BLOCK_INVALID"
  shows "\<exists>t'. lower ctx (Break level) = Some t' \<and> block_tree res' (F \<union> {dst} \<union> {length res..<length res'}) dst t'"
proof -
  define r0 where "r0 = res[dst := BLOCK_MANY BLOCK_INVALID BLOCK_INVALID]"
  have r0: "length r0 = length res" "r0 ! dst = BLOCK_MANY BLOCK_INVALID BLOCK_INVALID"
    "\<And>i. i \<in> F \<Longrightarrow> i < length r0 \<and> r0 ! i = res ! i"
    using d F by (auto simp: r0_def nth_list_update)
  obtain r p where c: "copy_epilogues level (0 # epis) dst (r0, BLOCK_INVALID) = Some (r, p)"
    using b by (auto simp: lower_break_def r0_def split: bind_splits)
  have len: "length res \<le> length r" using copy_epilogues_length [OF c] r0(1) by simp
  define ds where "ds = epilogues (take level (None # ctx))"
  have e0: "epis_ok r0 F (0 # epis) (None # ctx)"
    using epis_ok_transfer [OF ep order_refl r0(3)] by simp
  have sp0: "spine r0 dst [] [] BLOCK_INVALID" using r0 d by (simp add: spine_start)
  show ?thesis
  proof (cases "m_cur (r ! dst) = BLOCK_INVALID")
    case True
    then have res': "res' = r[dst := BLOCK_BREAK level]" using b c by (simp add: lower_break_def r0_def)
    then have "length r \<le> BLOCK_INVALID" using bound by simp
    from copy_epilogues_tree [OF c sp0 e0 _ _ this] F d r0(1) obtain cs' ls' where
      x: "level \<le> length ctx + 1" "spine r dst cs' ls' p" "list_all2 (block_tree r (F \<union> ({length res..<length r} - set ls'))) cs' ds"
      by (fastforce simp: ds_def)
    have "cs' = []" using x(2) True by (cases cs') (auto simp: spine_def)
    then have "ds = []" using x(3) by simp
    then have "lower ctx (Break level) = Some (Break level)" using x(1) by (simp add: ds_def)
    moreover have "block_tree res' (F \<union> {dst} \<union> {length res..<length res'}) dst (Break level)"
      using res' len d by (intro break) auto
    ultimately show ?thesis by blast
  next
    case False
    define rb where "rb = r @ [BLOCK_BREAK (u32 (level + 1))]"
    obtain p' where l: "link_child dst (length r) (rb, p) = (res', p')"
      using b c False by (cases "link_child dst (length r) (rb, p)") (auto simp: lower_break_def r0_def rb_def)
    have lb: "Suc (length r) \<le> length res'" using link_child_length [of "(rb, p)" dst "length r"] l by (simp add: rb_def)
    have br: "length r \<le> BLOCK_INVALID" "length r \<noteq> BLOCK_INVALID" using lb bound by auto
    from copy_epilogues_tree [OF c sp0 e0 _ _ br(1)] F d r0(1) obtain cs' ls' where
      x: "level \<le> length ctx + 1" "spine r dst cs' ls' p" "set ls' \<subseteq> {length res..<length r}"
        "list_all2 (block_tree r (F \<union> ({length res..<length r} - set ls'))) cs' ds"
      by (fastforce simp: ds_def)
    have cs: "cs' \<noteq> []" using x(2) False by (auto simp: spine_def)
    then have dn: "ds \<noteq> []" using x(4) by auto
    let ?G = "F \<union> {dst} \<union> {length res..<length res'}"
    have sb: "spine rb dst cs' ls' p"
      by (rule spine_transfer [OF x(2)]) (use x(3) d len in \<open>auto simp: rb_def nth_append\<close>)
    from link_child_spine [OF sb br(2) bound l] obtain ls2 where
      y: "spine res' dst (cs' @ [length r]) ls2 p'" "set ls2 \<subseteq> set ls' \<union> {length rb..<length res'}"
        "\<forall>i<length rb. i \<notin> insert dst (set ls') \<longrightarrow> res' ! i = rb ! i" by blast
    have nl: "length r \<notin> insert dst (set ls')" using x(3) d len by auto
    have tb: "block_tree res' ?G (length r) (Break (u32 (level + 1)))"
      by (rule break) (use y(3) nl lb len in \<open>auto simp: rb_def\<close>)
    have "list_all2 (block_tree res' ?G) cs' ds" using x(4)
    proof (rule list.rel_mono_strong)
      fix i t assume t: "block_tree r (F \<union> ({length res..<length r} - set ls')) i t"
      show "block_tree res' ?G i t"
      proof (rule block_tree_transfer(1) [OF t])
        fix j assume j: "j \<in> F \<union> ({length res..<length r} - set ls')" "j < length r"
        have "j \<notin> insert dst (set ls')" using j x(3) d F by fastforce
        then show "j \<in> ?G \<and> j < length res' \<and> res' ! j = r ! j"
          using j y(3) lb by (auto simp: rb_def nth_append)
      qed
    qed
    then have all: "list_all2 (block_tree res' ?G) (cs' @ [length r]) (ds @ [Break (u32 (level + 1))])"
      using tb by (auto intro: list_all2_appendI)
    have "block_tree res' ?G dst (Many (ds @ [Break (u32 (level + 1))]))"
      by (rule spine_many [OF y(1) _ _ all]) (use x(3) y(2) lb len in \<open>force simp: rb_def\<close>)+
    moreover have "lower ctx (Break level) = Some (Many (ds @ [Break (u32 (level + 1))]))"
      using x(1) dn by (simp add: ds_def)
    ultimately show ?thesis by blast
  qed
qed

definition lowers :: "lower_fn \<Rightarrow> nat \<Rightarrow> tree \<Rightarrow> bool" where
  "lowers K src t \<longleftrightarrow> (\<forall>epis dst res res' F ctx.
     K epis src dst res = Some res' \<longrightarrow> epis_ok res F epis ctx \<longrightarrow> dst < length res \<longrightarrow> dst \<notin> F
     \<longrightarrow> F \<subseteq> {..<length res} \<longrightarrow> length res' \<le> BLOCK_INVALID
     \<longrightarrow> (\<exists>t'. lower ctx t = Some t' \<and> block_tree res' (F \<union> {dst} \<union> {length res..<length res'}) dst t'))"

lemma lowersI:
  assumes "\<And>epis dst res res' F ctx. \<lbrakk>K epis src dst res = Some res'; epis_ok res F epis ctx; dst < length res; dst \<notin> F;
     F \<subseteq> {..<length res}; length res' \<le> BLOCK_INVALID\<rbrakk>
     \<Longrightarrow> \<exists>t'. lower ctx t = Some t' \<and> block_tree res' (F \<union> {dst} \<union> {length res..<length res'}) dst t'"
  shows "lowers K src t"
  unfolding lowers_def using assms by blast

lemma lowersD:
  assumes "lowers K src t" "K epis src dst res = Some res'" "epis_ok res F epis ctx" "dst < length res" "dst \<notin> F"
    "F \<subseteq> {..<length res}" "length res' \<le> BLOCK_INVALID"
  obtains t' where "lower ctx t = Some t'" "block_tree res' (F \<union> {dst} \<union> {length res..<length res'}) dst t'"
  using assms unfolding lowers_def by blast

definition lowers_chain :: "lower_fn \<Rightarrow> block list \<Rightarrow> nat \<Rightarrow> nat \<Rightarrow> tree list \<Rightarrow> bool" where
  "lowers_chain K blocks child chain ts \<longleftrightarrow> (\<forall>m epis dst res prev res' F ctx cs ls.
     remove_defers_many K m blocks epis dst child chain (res, prev) = Some res' \<longrightarrow> spine res dst cs ls prev
     \<longrightarrow> epis_ok res F epis ctx \<longrightarrow> F \<subseteq> {..<length res} \<longrightarrow> F \<inter> insert dst (set ls) = {} \<longrightarrow> length res' \<le> BLOCK_INVALID
     \<longrightarrow> (\<exists>ts' cs' ls' prev'. lower_list ctx ts = Some ts' \<and> spine res' dst (cs @ cs') ls' prev'
           \<and> set ls' \<subseteq> set ls \<union> {length res..<length res'}
           \<and> (\<forall>i<length res. i \<notin> insert dst (set ls) \<longrightarrow> res' ! i = res ! i)
           \<and> list_all2 (block_tree res' (F \<union> ({length res..<length res'} - set ls'))) cs' ts'))"

lemma lowers_chainD:
  assumes "lowers_chain K blocks child chain ts"
    "remove_defers_many K m blocks epis dst child chain (res, prev) = Some res'" "spine res dst cs ls prev"
    "epis_ok res F epis ctx" "F \<subseteq> {..<length res}" "F \<inter> insert dst (set ls) = {}" "length res' \<le> BLOCK_INVALID"
  obtains ts' cs' ls' prev' where "lower_list ctx ts = Some ts'" "spine res' dst (cs @ cs') ls' prev'"
    "set ls' \<subseteq> set ls \<union> {length res..<length res'}"
    "\<And>i. i < length res \<Longrightarrow> i \<notin> insert dst (set ls) \<Longrightarrow> res' ! i = res ! i"
    "list_all2 (block_tree res' (F \<union> ({length res..<length res'} - set ls'))) cs' ts'"
proof -
  from assms(1) [unfolded lowers_chain_def, rule_format, OF assms(2-7)] obtain ts' cs' ls' prev' where
    "lower_list ctx ts = Some ts'" "spine res' dst (cs @ cs') ls' prev'"
    "set ls' \<subseteq> set ls \<union> {length res..<length res'}"
    "\<forall>i<length res. i \<notin> insert dst (set ls) \<longrightarrow> res' ! i = res ! i"
    "list_all2 (block_tree res' (F \<union> ({length res..<length res'} - set ls'))) cs' ts'" by blast
  then show thesis by (intro that) blast+
qed

lemma lowers_chain_end: "lowers_chain K blocks BLOCK_INVALID chain []"
  unfolding lowers_chain_def
proof (intro allI impI)
  fix m epis dst res prev res' F ctx cs ls
  assume "remove_defers_many K m blocks epis dst BLOCK_INVALID chain (res, prev) = Some res'"
    "spine res dst cs ls prev"
  then show "\<exists>ts' cs' ls' prev'. lower_list ctx [] = Some ts' \<and> spine res' dst (cs @ cs') ls' prev'
           \<and> set ls' \<subseteq> set ls \<union> {length res..<length res'}
           \<and> (\<forall>i<length res. i \<notin> insert dst (set ls) \<longrightarrow> res' ! i = res ! i)
           \<and> list_all2 (block_tree res' (F \<union> ({length res..<length res'} - set ls'))) cs' ts'"
    by (cases m) (auto simp: remove_defers_many.simps(2) intro!: exI [of _ "[]"] exI [of _ ls] exI [of _ prev])
qed

text \<open>One round of the loop: link a fresh child slot, lower the child into it.\<close>

lemma lowers_round:
  assumes fr: "frame_ok K" and K: "lowers K child t" and sp: "spine res dst cs ls prev"
    and ep: "epis_ok res F epis ctx" and F: "F \<subseteq> {..<length res}" "F \<inter> insert dst (set ls) = {}"
    and l: "link_child dst (length res) (extend_heap res 1, prev) = (r1, p1)"
    and k: "K epis child (length res) r1 = Some r2" and bound: "length r2 \<le> BLOCK_INVALID"
  obtains t' ls1 where "lower ctx t = Some t'" "spine r2 dst (cs @ [length res]) ls1 p1"
    "set ls1 \<subseteq> set ls \<union> {length res..<length r2}" "length res \<notin> set ls1" "length res < length r2"
    "\<And>i. i < length res \<Longrightarrow> i \<notin> insert dst (set ls) \<Longrightarrow> r2 ! i = res ! i"
    "block_tree r2 (F \<union> ({length res..<length r2} - set ls1)) (length res) t'"
    "epis_ok r2 F epis ctx" "F \<inter> insert dst (set ls1) = {}"
proof -
  let ?c = "length res" and ?r0 = "extend_heap res 1"
  have sl: "dst < length res" "\<forall>x\<in>set ls. x < length res" using sp by (auto simp: spine_def)
  have r0: "length ?r0 = Suc ?c" "\<And>i. i < ?c \<Longrightarrow> ?r0 ! i = res ! i"
    by (auto simp: extend_heap_def nth_append)
  have sp0: "spine ?r0 dst cs ls prev"
    by (rule spine_transfer [OF sp]) (use r0 sl in auto)
  have lr: "Suc ?c \<le> length r1" using link_child_length [of "(?r0, prev)" dst ?c] l by simp
  have g: "grown r1 ?c r2" using frame_okD [OF fr k] lr by simp
  have lr2: "length r1 \<le> length r2" using grown_length [OF g] .
  have cI: "?c \<noteq> BLOCK_INVALID" "length r1 \<le> BLOCK_INVALID" using lr lr2 bound by auto
  have G0: "F \<subseteq> {..<length ?r0}" "F \<inter> insert dst (set ls) = {}" using F r0 by auto
  obtain ls1 where s1: "spine r1 dst (cs @ [?c]) ls1 p1" "set ls1 \<subseteq> set ls \<union> {length ?r0..<length r1}"
    "\<And>i. i < length ?r0 \<Longrightarrow> i \<notin> insert dst (set ls) \<Longrightarrow> r1 ! i = ?r0 ! i"
    "\<And>i. i \<in> F \<Longrightarrow> i < length r1 \<and> r1 ! i = ?r0 ! i"
    by (rule link_child_tree [OF l sp0 cI G0]) blast
  have c1: "?c \<notin> insert dst (set ls1)" using s1(2) sl r0(1) by fastforce
  have e1: "epis_ok r1 F epis ctx"
    by (rule epis_ok_transfer [OF ep]) (use s1(4) r0 F in auto)
  have F1: "?c < length r1" "?c \<notin> F" "F \<subseteq> {..<length r1}" using F lr by auto
  obtain t' where t': "lower ctx t = Some t'" "block_tree r2 (F \<union> {?c} \<union> {length r1..<length r2}) ?c t'"
    by (rule lowersD [OF K k e1 F1 bound]) blast
  have ls1: "\<forall>x\<in>insert dst (set ls1). x < length r1" using s1(1) by (auto simp: spine_def)
  have keep: "r2 ! i = r1 ! i" if "i < length r1" "i \<noteq> ?c" for i using grown_nth [OF g] that by blast
  show thesis
  proof (rule that)
    show "lower ctx t = Some t'" by (rule t')
    show "spine r2 dst (cs @ [?c]) ls1 p1"
      by (rule spine_transfer [OF s1(1) lr2]) (use ls1 c1 in \<open>blast intro: keep\<close>)
    show "set ls1 \<subseteq> set ls \<union> {?c..<length r2}" using s1(2) lr2 r0(1) by fastforce
    show "?c \<notin> set ls1" "?c < length r2" using c1 lr lr2 by auto
    show "r2 ! i = res ! i" if "i < ?c" "i \<notin> insert dst (set ls)" for i
      using keep [of i] s1(3) [of i] r0 that lr by simp
    show "block_tree r2 (F \<union> ({?c..<length r2} - set ls1)) ?c t'"
      by (rule block_tree_transfer(1) [OF t'(2)]) (use c1 lr ls1 in fastforce)
    show "epis_ok r2 F epis ctx"
      by (rule epis_ok_transfer [OF e1]) (use F1 lr2 keep in fastforce)+
    show "F \<inter> insert dst (set ls1) = {}" using F s1(2) r0(1) by fastforce
  qed
qed

lemma lowers_chain_last:
  assumes fr: "frame_ok K" and c: "child \<noteq> BLOCK_INVALID" and K: "lowers K child t"
  shows "lowers_chain K blocks child BLOCK_INVALID [t]"
  unfolding lowers_chain_def
proof (intro allI impI)
  fix m epis dst res prev res' F ctx cs ls
  assume r: "remove_defers_many K m blocks epis dst child BLOCK_INVALID (res, prev) = Some res'"
    and sp: "spine res dst cs ls prev" and ep: "epis_ok res F epis ctx" and F: "F \<subseteq> {..<length res}"
    "F \<inter> insert dst (set ls) = {}" and bound: "length res' \<le> BLOCK_INVALID"
  obtain r1 p1 where l: "link_child dst (length res) (extend_heap res 1, prev) = (r1, p1)" by fastforce
  have k: "K epis child (length res) r1 = Some res'"
    using r c l by (cases m) (auto simp: remove_defers_many.simps(2) split: bind_splits)
  show "\<exists>ts' cs' ls' prev'. lower_list ctx [t] = Some ts' \<and> spine res' dst (cs @ cs') ls' prev'
           \<and> set ls' \<subseteq> set ls \<union> {length res..<length res'}
           \<and> (\<forall>i<length res. i \<notin> insert dst (set ls) \<longrightarrow> res' ! i = res ! i)
           \<and> list_all2 (block_tree res' (F \<union> ({length res..<length res'} - set ls'))) cs' ts'"
    by (rule lowers_round [OF fr K sp ep F l k bound])
      (rule exI [of _ "[_]"], rule exI [of _ "[length res]"], fastforce)
qed

lemma lowers_chain_link:
  assumes fr: "frame_ok K" and c: "child \<noteq> BLOCK_INVALID" and K: "lowers K child t"
    and ch: "chain \<noteq> BLOCK_INVALID" "chain < length blocks" "blocks ! chain = BLOCK_CHAIN child' chain'"
    and IH: "lowers_chain K blocks child' chain' ts"
  shows "lowers_chain K blocks child chain (t # ts)"
  unfolding lowers_chain_def
proof (intro allI impI)
  fix m epis dst res prev res' F ctx cs ls
  assume r: "remove_defers_many K m blocks epis dst child chain (res, prev) = Some res'"
    and sp: "spine res dst cs ls prev" and ep: "epis_ok res F epis ctx" and F: "F \<subseteq> {..<length res}"
    "F \<inter> insert dst (set ls) = {}" and bound: "length res' \<le> BLOCK_INVALID"
  obtain r1 p1 where l: "link_child dst (length res) (extend_heap res 1, prev) = (r1, p1)" by fastforce
  then obtain r2 m' where k: "K epis child (length res) r1 = Some r2"
    and m: "remove_defers_many K m' blocks epis dst child' chain' (r2, p1) = Some res'"
    using r c ch by (cases m) (auto simp: remove_defers_many.simps(2) split: bind_splits)
  have len: "length r2 \<le> length res'" using remove_defers_many_length [OF fr m] by simp
  then have b2: "length r2 \<le> BLOCK_INVALID" using bound by simp
  obtain t' ls1 where x: "lower ctx t = Some t'" "spine r2 dst (cs @ [length res]) ls1 p1"
    "set ls1 \<subseteq> set ls \<union> {length res..<length r2}" "length res \<notin> set ls1" "length res < length r2"
    "\<And>i. i < length res \<Longrightarrow> i \<notin> insert dst (set ls) \<Longrightarrow> r2 ! i = res ! i"
    "block_tree r2 (F \<union> ({length res..<length r2} - set ls1)) (length res) t'"
    "epis_ok r2 F epis ctx" "F \<inter> insert dst (set ls1) = {}"
    by (rule lowers_round [OF fr K sp ep F l k b2]) blast
  have F2: "F \<subseteq> {..<length r2}" using F x(5) by auto
  obtain ts' cs' ls' prev' where y: "lower_list ctx ts = Some ts'"
    "spine res' dst ((cs @ [length res]) @ cs') ls' prev'"
    "set ls' \<subseteq> set ls1 \<union> {length r2..<length res'}"
    "\<And>i. i < length r2 \<Longrightarrow> i \<notin> insert dst (set ls1) \<Longrightarrow> res' ! i = r2 ! i"
    "list_all2 (block_tree res' (F \<union> ({length r2..<length res'} - set ls'))) cs' ts'"
    by (rule lowers_chainD [OF IH m x(2) x(8) F2 x(9) bound]) blast
  have sl: "dst < length res" using sp by (auto simp: spine_def)
  let ?G = "F \<union> ({length res..<length res'} - set ls')"
  have c: "block_tree res' ?G (length res) t'"
  proof (rule block_tree_transfer(1) [OF x(7)])
    fix i assume i: "i \<in> F \<union> ({length res..<length r2} - set ls1)" "i < length r2"
    then have "i \<notin> insert dst (set ls1)" using x(9) sl by auto
    moreover have "i \<notin> set ls' \<or> i \<in> F" using i y(3) by fastforce
    ultimately show "i \<in> ?G \<and> i < length res' \<and> res' ! i = r2 ! i"
      using y(4) [of i] i len by auto
  qed
  have cs: "list_all2 (block_tree res' ?G) cs' ts'"
    using y(5) by (rule list.rel_mono_strong) (use x(5) in \<open>auto elim!: block_tree_transfer\<close>)
  show "\<exists>ts' cs' ls' prev'. lower_list ctx (t # ts) = Some ts' \<and> spine res' dst (cs @ cs') ls' prev'
           \<and> set ls' \<subseteq> set ls \<union> {length res..<length res'}
           \<and> (\<forall>i<length res. i \<notin> insert dst (set ls) \<longrightarrow> res' ! i = res ! i)
           \<and> list_all2 (block_tree res' (F \<union> ({length res..<length res'} - set ls'))) cs' ts'"
  proof (intro exI conjI allI impI)
    show "lower_list ctx (t # ts) = Some (t' # ts')" using x(1) y(1) by simp
    show "spine res' dst (cs @ (length res # cs')) ls' prev'" using y(2) by simp
    show "set ls' \<subseteq> set ls \<union> {length res..<length res'}" using y(3) x(3,5) len by fastforce
    show "res' ! i = res ! i" if "i < length res" "i \<notin> insert dst (set ls)" for i
      using y(4) [of i] x(6) [of i] x(3,5) that by fastforce
    show "list_all2 (block_tree res' ?G) (length res # cs') (t' # ts')" using c cs by simp
  qed
qed

text \<open>The two calls of the \<^verbatim>\<open>BLOCK_DEFER\<close>, \<^verbatim>\<open>BLOCK_CRASH_PAD\<close> and \<^verbatim>\<open>BLOCK_BRANCH\<close> cases.\<close>

lemma lowers_step:
  assumes fr: "frame_ok K" and K: "lowers K src t" and k: "K epis src d r = Some r'" and ep: "epis_ok r F epis ctx"
    and F: "F \<subseteq> {..<length r}" "d < length r" "d \<notin> F" and bound: "length r' \<le> BLOCK_INVALID"
  obtains t' where "lower ctx t = Some t'" "block_tree r' (F \<union> {d} \<union> {length r..<length r'}) d t'"
    "length r \<le> length r'" "\<And>i. i < length r \<Longrightarrow> i \<noteq> d \<Longrightarrow> r' ! i = r ! i" "\<And>e c. epis_ok r F e c \<Longrightarrow> epis_ok r' F e c"
proof -
  have g: "grown r d r'" using frame_okD [OF fr k F(2)] .
  obtain t' where "lower ctx t = Some t'" "block_tree r' (F \<union> {d} \<union> {length r..<length r'}) d t'"
    by (rule lowersD [OF K k ep F(2,3,1) bound]) blast
  moreover have "epis_ok r' F e c" if "epis_ok r F e c" for e c
    by (rule epis_ok_transfer [OF that]) (use F g in \<open>auto simp: grown_def\<close>)
  ultimately show thesis using g by (intro that) (auto simp: grown_def)
qed

lemma lowers_defer:
  assumes b: "src < length blocks" "blocks ! src = BLOCK_DEFER j k"
    and J: "lowers (remove_defers_at n blocks) j body" and K: "lowers (remove_defers_at n blocks) k cleanup"
  shows "lowers (remove_defers_at (Suc n) blocks) src (Defer body cleanup)"
proof (rule lowersI)
  fix epis dst res res' F ctx
  assume r: "remove_defers_at (Suc n) blocks epis src dst res = Some res'" and ep: "epis_ok res F epis ctx"
    and d: "dst < length res" "dst \<notin> F" and F: "F \<subseteq> {..<length res}" and bound: "length res' \<le> BLOCK_INVALID"
  let ?L = "length res"
  define r0 where "r0 = (extend_heap (res[dst := BLOCK_DEFER j k]) 4)
         [dst := BLOCK_MANY ?L (?L + 1), ?L + 1 := BLOCK_CHAIN (?L + 2) BLOCK_INVALID,
          ?L := BLOCK_CRASH_PAD (?L + 3) (?L + 2)]"
  note fr = remove_defers_at_frame [of n blocks]
  obtain r1 where k1: "remove_defers_at n blocks (0 # epis) k (?L + 2) r0 = Some r1"
    and k2: "remove_defers_at n blocks ((?L + 2) # epis) j (?L + 3) r1 = Some res'"
    using r b by (auto simp: remove_defers_at.simps(2) Let_def r0_def split: bind_splits)
  have r0: "length r0 = ?L + 4" "r0 ! dst = BLOCK_MANY ?L (?L + 1)" "r0 ! (?L + 1) = BLOCK_CHAIN (?L + 2) BLOCK_INVALID"
    "r0 ! ?L = BLOCK_CRASH_PAD (?L + 3) (?L + 2)" "\<And>i. i < ?L \<Longrightarrow> i \<noteq> dst \<Longrightarrow> r0 ! i = res ! i"
    using d by (auto simp: r0_def extend_heap_def nth_append)
  have e0: "epis_ok r0 F epis ctx" by (rule epis_ok_transfer [OF ep]) (use r0 d F in auto)
  then have e0': "epis_ok r0 F (0 # epis) (None # ctx)" by simp
  have s2: "length r1 \<le> length res'" if "?L + 3 < length r1"
    using grown_length [OF frame_okD [OF fr k2 that]] .
  have s1: "?L + 4 \<le> length r1" using grown_length [OF frame_okD [OF fr k1]] r0 by simp
  have b1: "length r1 \<le> BLOCK_INVALID" using s1 s2 bound by simp
  have F0: "F \<subseteq> {..<length r0}" "?L + 2 < length r0" "?L + 2 \<notin> F" using F r0 by auto
  obtain c where c: "lower (None # ctx) cleanup = Some c"
    "block_tree r1 (F \<union> {?L + 2} \<union> {length r0..<length r1}) (?L + 2) c"
    "\<And>i. i < length r0 \<Longrightarrow> i \<noteq> ?L + 2 \<Longrightarrow> r1 ! i = r0 ! i" "\<And>e x. epis_ok r0 F e x \<Longrightarrow> epis_ok r1 F e x"
    by (rule lowers_step [OF fr K k1 e0' F0 b1]) blast
  define G where "G = F \<union> {?L + 2} \<union> {length r0..<length r1}"
  have e1: "epis_ok r1 G ((?L + 2) # epis) (Some c # ctx)"
    using c(2) epis_ok_transfer [OF c(4) [OF e0], of G r1] F s1 by (fastforce simp: G_def)
  have F1: "G \<subseteq> {..<length r1}" "?L + 3 < length r1" "?L + 3 \<notin> G" using F s1 r0 by (auto simp: G_def)
  obtain t where t: "lower (Some c # ctx) body = Some t"
    "block_tree res' (G \<union> {?L + 3} \<union> {length r1..<length res'}) (?L + 3) t" "length r1 \<le> length res'"
    "\<And>i. i < length r1 \<Longrightarrow> i \<noteq> ?L + 3 \<Longrightarrow> res' ! i = r1 ! i"
    "\<And>e x. epis_ok r1 G e x \<Longrightarrow> epis_ok res' G e x"
    by (rule lowers_step [OF fr J k2 e1 F1 bound]) blast
  let ?G = "F \<union> {dst} \<union> {?L..<length res'}"
  have GG: "G \<union> {?L + 3} \<union> {length r1..<length res'} \<subseteq> ?G" using s1 t(3) r0 by (auto simp: G_def)
  have tt: "block_tree res' ?G (?L + 3) t"
    by (rule block_tree_transfer(1) [OF t(2)]) (use GG s1 in auto)
  have "epis_ok res' G ((?L + 2) # epis) (Some c # ctx)" using t(5) [OF e1] .
  then have "block_tree res' G (?L + 2) c" by simp
  then have cc: "block_tree res' ?G (?L + 2) c"
    by (rule block_tree_transfer(1)) (use GG in auto)
  have v: "res' ! i = r0 ! i" if "i \<in> {dst, ?L, ?L + 1}" for i
    using t(4) [of i] c(3) [of i] that s1 r0 d by auto
  have pad: "block_tree res' ?G ?L (CrashPad t c)"
    by (rule crash_pad [OF _ _ _ tt cc]) (use v [of ?L] r0 s1 t(3) in auto)
  have rest: "chain_tree res' ?G (?L + 2) BLOCK_INVALID [c]"
    by (rule chain_last [OF _ cc]) (use bound s1 t(3) in auto)
  have "chain_tree res' ?G ?L (?L + 1) [CrashPad t c, c]"
    by (rule chain_link [OF _ pad _ _ _ _ rest]) (use v [of "?L + 1"] r0 bound s1 t(3) in auto)
  then have "block_tree res' ?G dst (Many [CrashPad t c, c])"
    by (rule many [rotated 3]) (use v [of dst] r0 d s1 t(3) in auto)
  then show "\<exists>t'. lower ctx (Defer body cleanup) = Some t' \<and> block_tree res' ?G dst t'"
    using c(1) t(1) by simp
qed

lemma lowers_pair:
  assumes fr: "frame_ok K" and P: "lowers K k first" and Q: "lowers K j second"
    and r0: "length r0 = length res + 2" "\<And>i. i < length res \<Longrightarrow> i \<noteq> dst \<Longrightarrow> r0 ! i = res ! i"
    and k1: "K e1 k d1 r0 = Some r1" and k2: "K e2 j d2 r1 = Some res'"
    and ds: "{d1, d2} = {length res, length res + 1}" "d1 \<noteq> d2"
    and ep: "epis_ok res F epis ctx" and d: "dst < length res" "dst \<notin> F"
    and F: "F \<subseteq> {..<length res}" and bound: "length res' \<le> BLOCK_INVALID"
    and e1: "\<And>r G. epis_ok r G epis ctx \<Longrightarrow> epis_ok r G e1 c1"
    and e2: "\<And>r G t. epis_ok r G epis ctx \<Longrightarrow> lower c1 first = Some t \<Longrightarrow> block_tree r G d1 t \<Longrightarrow> epis_ok r G e2 (c2 t)"
  obtains t1 t2 where "lower c1 first = Some t1" "lower (c2 t1) second = Some t2"
    "block_tree res' (F \<union> {dst} \<union> {length res..<length res'}) d1 t1"
    "block_tree res' (F \<union> {dst} \<union> {length res..<length res'}) d2 t2"
    "length res + 2 \<le> length res'" "res' ! dst = r0 ! dst"
proof -
  have dl: "d1 < length r0" "d2 < length r0" "length res \<le> d1" "length res \<le> d2" using ds r0 by (auto simp: doubleton_eq_iff)
  have ep0: "epis_ok r0 F epis ctx" by (rule epis_ok_transfer [OF ep]) (use r0 d F in auto)
  have s1: "length r0 \<le> length r1" using grown_length [OF frame_okD [OF fr k1 dl(1)]] .
  have s2: "length r1 \<le> length res'" using grown_length [OF frame_okD [OF fr k2]] s1 dl by simp
  have b1: "length r1 \<le> BLOCK_INVALID" using s2 bound by simp
  have F0: "F \<subseteq> {..<length r0}" "d1 < length r0" "d1 \<notin> F" using F r0 dl by auto
  obtain t1 where t1: "lower c1 first = Some t1" "block_tree r1 (F \<union> {d1} \<union> {length r0..<length r1}) d1 t1"
    "\<And>i. i < length r0 \<Longrightarrow> i \<noteq> d1 \<Longrightarrow> r1 ! i = r0 ! i" "\<And>e x. epis_ok r0 F e x \<Longrightarrow> epis_ok r1 F e x"
    by (rule lowers_step [OF fr P k1 e1 [OF ep0] F0 b1]) blast
  define G where "G = F \<union> {d1} \<union> {length r0..<length r1}"
  have ep1: "epis_ok r1 G epis ctx"
    by (rule epis_ok_transfer [OF t1(4) [OF ep0]]) (use F s1 r0 in \<open>auto simp: G_def\<close>)
  have F1: "G \<subseteq> {..<length r1}" "d2 < length r1" "d2 \<notin> G" using F s1 r0 dl ds by (auto simp: G_def)
  have tG: "block_tree r1 G d1 t1" using t1(2) by (simp add: G_def)
  obtain t2 where t2: "lower (c2 t1) second = Some t2"
    "block_tree res' (G \<union> {d2} \<union> {length r1..<length res'}) d2 t2"
    "\<And>i. i < length r1 \<Longrightarrow> i \<noteq> d2 \<Longrightarrow> res' ! i = r1 ! i"
    by (rule lowers_step [OF fr Q k2 e2 [OF ep1 t1(1) tG] F1 bound]) blast
  let ?G = "F \<union> {dst} \<union> {length res..<length res'}"
  have GG: "G \<union> {d2} \<union> {length r1..<length res'} \<subseteq> ?G" using s1 s2 r0 dl by (auto simp: G_def)
  show thesis
  proof (rule that)
    show "block_tree res' ?G d1 t1"
      by (rule block_tree_transfer(1) [OF tG]) (use GG F1 s2 t2(3) in fastforce)
    show "block_tree res' ?G d2 t2"
      by (rule block_tree_transfer(1) [OF t2(2)]) (use GG in blast)
    show "res' ! dst = r0 ! dst"
      using t2(3) [of dst] t1(3) [of dst] d dl s1 r0 by simp
  qed (use t1 t2 s1 s2 r0 in auto)
qed

lemma lowers_crash_pad:
  assumes b: "src < length blocks" "blocks ! src = BLOCK_CRASH_PAD j k"
    and J: "lowers (remove_defers_at n blocks) j body" and K: "lowers (remove_defers_at n blocks) k pad"
  shows "lowers (remove_defers_at (Suc n) blocks) src (CrashPad body pad)"
proof (rule lowersI)
  fix epis dst res res' F ctx
  assume r: "remove_defers_at (Suc n) blocks epis src dst res = Some res'" and ep: "epis_ok res F epis ctx"
    and d: "dst < length res" "dst \<notin> F" and F: "F \<subseteq> {..<length res}" and bound: "length res' \<le> BLOCK_INVALID"
  let ?L = "length res"
  define r0 where "r0 = (extend_heap (res[dst := BLOCK_CRASH_PAD j k]) 2)[dst := BLOCK_CRASH_PAD ?L (?L + 1)]"
  obtain r1 where k1: "remove_defers_at n blocks (0 # epis) k (?L + 1) r0 = Some r1"
    and k2: "remove_defers_at n blocks ((?L + 1) # epis) j ?L r1 = Some res'"
    using r b by (auto simp: remove_defers_at.simps(2) Let_def r0_def split: bind_splits)
  have r0: "length r0 = ?L + 2" "\<And>i. i < ?L \<Longrightarrow> i \<noteq> dst \<Longrightarrow> r0 ! i = res ! i"
    "r0 ! dst = BLOCK_CRASH_PAD ?L (?L + 1)"
    using d by (auto simp: r0_def extend_heap_def nth_append)
  show "\<exists>t'. lower ctx (CrashPad body pad) = Some t' \<and> block_tree res' (F \<union> {dst} \<union> {?L..<length res'}) dst t'"
    by (rule lowers_pair [OF remove_defers_at_frame K J r0(1,2) k1 k2 _ _ ep d F bound,
          where ?c1.0 = "None # ctx" and ?c2.0 = "\<lambda>t. Some t # ctx"])
      (use r0(3) d in \<open>auto intro!: crash_pad\<close>)
qed

lemma lowers_branch:
  assumes b: "src < length blocks" "blocks ! src = BLOCK_BRANCH cond j k"
    and J: "lowers (remove_defers_at n blocks) j yes" and K: "lowers (remove_defers_at n blocks) k no"
  shows "lowers (remove_defers_at (Suc n) blocks) src (Branch cond yes no)"
proof (rule lowersI)
  fix epis dst res res' F ctx
  assume r: "remove_defers_at (Suc n) blocks epis src dst res = Some res'" and ep: "epis_ok res F epis ctx"
    and d: "dst < length res" "dst \<notin> F" and F: "F \<subseteq> {..<length res}" and bound: "length res' \<le> BLOCK_INVALID"
  let ?L = "length res"
  define r0 where "r0 = (extend_heap (res[dst := BLOCK_BRANCH cond j k]) 2)[dst := BLOCK_BRANCH cond ?L (?L + 1)]"
  obtain r1 where k1: "remove_defers_at n blocks (0 # epis) j ?L r0 = Some r1"
    and k2: "remove_defers_at n blocks (0 # epis) k (?L + 1) r1 = Some res'"
    using r b by (auto simp: remove_defers_at.simps(2) Let_def r0_def split: bind_splits)
  have r0: "length r0 = ?L + 2" "\<And>i. i < ?L \<Longrightarrow> i \<noteq> dst \<Longrightarrow> r0 ! i = res ! i"
    "r0 ! dst = BLOCK_BRANCH cond ?L (?L + 1)"
    using d by (auto simp: r0_def extend_heap_def nth_append)
  show "\<exists>t'. lower ctx (Branch cond yes no) = Some t' \<and> block_tree res' (F \<union> {dst} \<union> {?L..<length res'}) dst t'"
    by (rule lowers_pair [OF remove_defers_at_frame J K r0(1,2) k1 k2 _ _ ep d F bound,
          where ?c1.0 = "None # ctx" and ?c2.0 = "\<lambda>t. None # ctx"])
      (use r0(3) d in \<open>auto intro!: branch\<close>)
qed

text \<open>A block with a single child.\<close>

lemma lowers_single:
  assumes J: "lowers (remove_defers_at n blocks) j body"
    and r: "remove_defers_at n blocks (0 # epis) j (length res) ((extend_heap (res[dst := b]) 1)[dst := b']) = Some res'"
    and ep: "epis_ok res F epis ctx" and d: "dst < length res" "dst \<notin> F" and F: "F \<subseteq> {..<length res}"
    and bound: "length res' \<le> BLOCK_INVALID"
  obtains t where "lower (None # ctx) body = Some t" "dst < length res'" "res' ! dst = b'"
    "block_tree res' (F \<union> {dst} \<union> {length res..<length res'}) (length res) t"
proof -
  define r0 where "r0 = (extend_heap (res[dst := b]) 1)[dst := b']"
  note r = r [folded r0_def]
  let ?L = "length res" and ?r0 = r0
  have r0: "length ?r0 = ?L + 1" "\<And>i. i < ?L \<Longrightarrow> i \<noteq> dst \<Longrightarrow> ?r0 ! i = res ! i" "?r0 ! dst = b'"
    using d by (auto simp: r0_def extend_heap_def nth_append)
  have "epis_ok ?r0 F epis ctx" by (rule epis_ok_transfer [OF ep]) (use r0 d F in auto)
  then have e0: "epis_ok ?r0 F (0 # epis) (None # ctx)" by simp
  have F0: "F \<subseteq> {..<length ?r0}" "?L < length ?r0" "?L \<notin> F" using F r0 by auto
  obtain t where t: "lower (None # ctx) body = Some t" "block_tree res' (F \<union> {?L} \<union> {length ?r0..<length res'}) ?L t"
    "length ?r0 \<le> length res'" "\<And>i. i < length ?r0 \<Longrightarrow> i \<noteq> ?L \<Longrightarrow> res' ! i = ?r0 ! i"
    by (rule lowers_step [OF remove_defers_at_frame J r e0 F0 bound]) blast
  show thesis
    by (rule that [OF t(1)]) (use t(3,4) r0 d in \<open>auto intro: block_tree_transfer(1) [OF t(2)]\<close>)
qed

lemma lowers_many:
  assumes b: "src < length blocks" "blocks ! src = BLOCK_MANY j k"
    and C: "lowers_chain (remove_defers_at n blocks) blocks j k ts"
  shows "lowers (remove_defers_at (Suc n) blocks) src (Many ts)"
proof (rule lowersI)
  fix epis dst res res' F ctx
  assume r: "remove_defers_at (Suc n) blocks epis src dst res = Some res'" and ep: "epis_ok res F epis ctx"
    and d: "dst < length res" "dst \<notin> F" and F: "F \<subseteq> {..<length res}" and bound: "length res' \<le> BLOCK_INVALID"
  let ?r0 = "res[dst := BLOCK_MANY BLOCK_INVALID BLOCK_INVALID]"
  have m: "remove_defers_many (remove_defers_at n blocks) n blocks (0 # epis) dst j k (?r0, BLOCK_INVALID) = Some res'"
    using r b d by (simp add: remove_defers_at.simps(2))
  have "epis_ok ?r0 F epis ctx"
    by (rule epis_ok_transfer [OF ep]) (use d F in \<open>auto simp: nth_list_update\<close>)
  then have e0: "epis_ok ?r0 F (0 # epis) (None # ctx)" by simp
  have sp: "spine ?r0 dst [] [] BLOCK_INVALID" using d by (simp add: spine_start)
  have F0: "F \<subseteq> {..<length ?r0}" "F \<inter> insert dst (set []) = {}" using F d by auto
  obtain ts' cs' ls' prev' where x: "lower_list (None # ctx) ts = Some ts'" "spine res' dst ([] @ cs') ls' prev'"
    "set ls' \<subseteq> set [] \<union> {length ?r0..<length res'}"
    "list_all2 (block_tree res' (F \<union> ({length ?r0..<length res'} - set ls'))) cs' ts'"
    by (rule lowers_chainD [OF C m sp e0 F0 bound]) blast
  let ?G = "F \<union> {dst} \<union> {length res..<length res'}"
  have "list_all2 (block_tree res' ?G) cs' ts'"
    using x(4) by (rule list.rel_mono_strong) (auto elim!: block_tree_transfer)
  then have "block_tree res' ?G dst (Many ts')"
    by (intro spine_many [OF x(2) [simplified]]) (use x(3) in auto)
  then show "\<exists>t'. lower ctx (Many ts) = Some t' \<and> block_tree res' ?G dst t'" using x(1) by simp
qed

lemma lowers_loop:
  assumes b: "src < length blocks" "blocks ! src = BLOCK_LOOP j"
    and J: "lowers (remove_defers_at n blocks) j body"
  shows "lowers (remove_defers_at (Suc n) blocks) src (Loop body)"
proof (rule lowersI)
  fix epis dst res res' F ctx
  assume r: "remove_defers_at (Suc n) blocks epis src dst res = Some res'" and ep: "epis_ok res F epis ctx"
    and d: "dst < length res" "dst \<notin> F" and F: "F \<subseteq> {..<length res}" and bound: "length res' \<le> BLOCK_INVALID"
  have k: "remove_defers_at n blocks (0 # epis) j (length res)
      ((extend_heap (res[dst := BLOCK_LOOP j]) 1)[dst := BLOCK_LOOP (length res)]) = Some res'"
    using r b by (simp add: remove_defers_at.simps(2) Let_def)
  show "\<exists>t'. lower ctx (Loop body) = Some t' \<and> block_tree res' (F \<union> {dst} \<union> {length res..<length res'}) dst t'"
    by (rule lowers_single [OF J k ep d F bound]) (auto intro: loop)
qed

lemma lowers_var:
  assumes b: "src < length blocks" "blocks ! src = BLOCK_VAR v j"
    and J: "lowers (remove_defers_at n blocks) j body"
  shows "lowers (remove_defers_at (Suc n) blocks) src (VarT v body)"
proof (rule lowersI)
  fix epis dst res res' F ctx
  assume r: "remove_defers_at (Suc n) blocks epis src dst res = Some res'" and ep: "epis_ok res F epis ctx"
    and d: "dst < length res" "dst \<notin> F" and F: "F \<subseteq> {..<length res}" and bound: "length res' \<le> BLOCK_INVALID"
  have k: "remove_defers_at n blocks (0 # epis) j (length res)
      ((extend_heap (res[dst := BLOCK_VAR v j]) 1)[dst := BLOCK_VAR v (length res)]) = Some res'"
    using r b by (simp add: remove_defers_at.simps(2) Let_def)
  show "\<exists>t'. lower ctx (VarT v body) = Some t' \<and> block_tree res' (F \<union> {dst} \<union> {length res..<length res'}) dst t'"
    by (rule lowers_single [OF J k ep d F bound]) (auto intro: var)
qed

lemma lowers_atom:
  assumes "src < length blocks" "\<And>n epis dst res. remove_defers_at (Suc n) blocks epis src dst res = Some (res[dst := blocks ! src])"
    "\<And>ctx. lower ctx t = Some t" "\<And>bs S i. i < length bs \<Longrightarrow> i \<in> S \<Longrightarrow> bs ! i = blocks ! src \<Longrightarrow> block_tree bs S i t"
  shows "lowers (remove_defers_at n blocks) src t"
proof (cases n)
  case 0
  then show ?thesis by (simp add: lowers_def)
next
  case (Suc m)
  show ?thesis unfolding Suc by (rule lowersI) (use assms in \<open>auto intro: assms(4)\<close>)
qed

lemma lowers_0: "lowers (remove_defers_at 0 blocks) src t" "lowers (\<lambda>a b c d. None) src t"
  by (simp_all add: lowers_def)

text \<open>The lowering of \<^verbatim>\<open>ir.c\<close> builds the lowered tree, whatever fuel it returned with.\<close>

lemma remove_defers_at_lowers:
  "block_tree blocks UNIV src t \<Longrightarrow> lowers (remove_defers_at n blocks) src t"
  "chain_tree blocks UNIV child chain ts \<Longrightarrow> lowers_chain (remove_defers_at n blocks) blocks child chain ts"
proof (induction arbitrary: n and n rule: block_tree_chain_tree.inducts)
  case (basic i r)
  then show ?case by (intro lowers_atom) (auto simp: remove_defers_at.simps(2) intro: block_tree_chain_tree.intros)
next
  case (deferred i j k body cleanup)
  then show ?case by (cases n) (auto intro: lowers_0 lowers_defer)
next
  case (many i j k ts)
  then show ?case by (cases n) (auto intro: lowers_0 lowers_many)
next
  case (crash i)
  then show ?case by (intro lowers_atom) (auto simp: remove_defers_at.simps(2) intro: block_tree_chain_tree.intros)
next
  case (hard_crash i)
  then show ?case by (intro lowers_atom) (auto simp: remove_defers_at.simps(2) intro: block_tree_chain_tree.intros)
next
  case (crash_pad i j k body pad)
  then show ?case by (cases n) (auto intro: lowers_0 lowers_crash_pad)
next
  case (branch i c j k y n')
  then show ?case by (cases n) (auto intro: lowers_0 lowers_branch)
next
  case (loop i j body)
  then show ?case by (cases n) (auto intro: lowers_0 lowers_loop)
next
  case (break i k)
  show ?case
  proof (cases n)
    case (Suc m)
    show ?thesis unfolding Suc
    proof (rule lowersI)
      fix epis dst res res' F ctx
      assume r: "remove_defers_at (Suc m) blocks epis i dst res = Some res'" and ep: "epis_ok res F epis ctx"
        and d: "dst < length res" "dst \<notin> F" and F: "F \<subseteq> {..<length res}" and bound: "length res' \<le> BLOCK_INVALID"
      let ?r = "res[dst := BLOCK_BREAK k]"
      have "lower_break k (0 # epis) dst ?r = Some res'"
        using r break by (simp add: remove_defers_at.simps(2))
      moreover have "epis_ok ?r F epis ctx"
        by (rule epis_ok_transfer [OF ep]) (use d F in \<open>auto simp: nth_list_update\<close>)
      ultimately show "\<exists>t'. lower ctx (Break k) = Some t' \<and> block_tree res' (F \<union> {dst} \<union> {length res..<length res'}) dst t'"
        using lower_break_tree [of k epis dst ?r res' F ctx] d F bound by simp
    qed
  qed (simp add: lowers_0)
next
  case (var i v j body)
  then show ?case by (cases n) (auto intro: lowers_0 lowers_var)
next
  case (chain_end k)
  then show ?case by (rule lowers_chain_end)
next
  case (chain_last j t)
  then show ?case by (intro lowers_chain_last remove_defers_at_frame) auto
next
  case (chain_link j t k j' k' ts)
  then show ?case by (intro lowers_chain_link [of _ j t k] remove_defers_at_frame) auto
qed

section \<open>Termination\<close>

text \<open>Enough fuel for a tree, and the condition under which no assertion fires.\<close>

fun height :: "tree \<Rightarrow> nat" and heights :: "tree list \<Rightarrow> nat" where
  "height (Basic r) = 1"
| "height (Defer b c) = Suc (max (height b) (height c))"
| "height (Many ts) = Suc (heights ts)"
| "height Crash = 1"
| "height HardCrash = 1"
| "height (CrashPad b p) = Suc (max (height b) (height p))"
| "height (Branch c y n) = Suc (max (height y) (height n))"
| "height (Loop b) = Suc (height b)"
| "height (Break k) = 1"
| "height (VarT v b) = Suc (height b)"
| "heights [] = 1"
| "heights (t # ts) = Suc (max (height t) (heights ts))"

fun levels_ok :: "nat \<Rightarrow> tree \<Rightarrow> bool" and levels_ok_list :: "nat \<Rightarrow> tree list \<Rightarrow> bool" where
  "levels_ok d (Basic r) \<longleftrightarrow> True"
| "levels_ok d (Defer b c) \<longleftrightarrow> levels_ok (Suc d) c \<and> levels_ok (Suc d) b"
| "levels_ok d (Many ts) \<longleftrightarrow> levels_ok_list (Suc d) ts"
| "levels_ok d Crash \<longleftrightarrow> True"
| "levels_ok d HardCrash \<longleftrightarrow> True"
| "levels_ok d (CrashPad b p) \<longleftrightarrow> levels_ok (Suc d) p \<and> levels_ok (Suc d) b"
| "levels_ok d (Branch c y n) \<longleftrightarrow> levels_ok (Suc d) y \<and> levels_ok (Suc d) n"
| "levels_ok d (Loop b) \<longleftrightarrow> levels_ok (Suc d) b"
| "levels_ok d (Break k) \<longleftrightarrow> k \<le> Suc d"
| "levels_ok d (VarT v b) \<longleftrightarrow> levels_ok (Suc d) b"
| "levels_ok_list d [] \<longleftrightarrow> True"
| "levels_ok_list d (t # ts) \<longleftrightarrow> levels_ok d t \<and> levels_ok_list d ts"

lemma heights_pos [simp]: "0 < heights ts" "0 < height t"
  by (cases ts, auto, cases t, auto)

lemma lower_defined:
  "lower ctx t \<noteq> None \<longleftrightarrow> levels_ok (length ctx) t"
  "lower_list ctx ts \<noteq> None \<longleftrightarrow> levels_ok_list (length ctx) ts"
  by (induction ctx t and ctx ts rule: lower_lower_list.induct) (auto split: option.splits simp: Let_def)

lemma copy_epilogues_defined: "copy_epilogues level epis dst s \<noteq> None \<longleftrightarrow> level \<le> length epis"
  by (induction level arbitrary: epis s) (auto split: list.splits prod.splits)

lemma lower_break_defined: "lower_break level epis dst res \<noteq> None \<longleftrightarrow> level \<le> length epis"
  using copy_epilogues_defined [of level epis dst "(res[dst := BLOCK_MANY BLOCK_INVALID BLOCK_INVALID], BLOCK_INVALID)"]
  by (auto simp: lower_break_def split: bind_splits prod.splits)

definition returns_when :: "lower_fn \<Rightarrow> nat \<Rightarrow> (nat \<Rightarrow> bool) \<Rightarrow> bool" where
  "returns_when K src ok \<longleftrightarrow> (\<forall>epis dst res. K epis src dst res \<noteq> None \<longleftrightarrow> ok (length epis))"

lemma returns_whenD: "returns_when K src ok \<Longrightarrow> K epis src dst res = None \<longleftrightarrow> \<not> ok (length epis)"
  unfolding returns_when_def by blast

lemma remove_defers_returns:
  "block_tree blocks UNIV src t \<Longrightarrow> height t \<le> n \<Longrightarrow>
     returns_when (remove_defers_at n blocks) src (\<lambda>d. levels_ok d t)"
  "chain_tree blocks UNIV child chain ts \<Longrightarrow> heights ts \<le> n \<Longrightarrow> heights ts \<le> m \<Longrightarrow>
     remove_defers_many (remove_defers_at n blocks) m blocks epis dst child chain s \<noteq> None
       \<longleftrightarrow> levels_ok_list (length epis) ts"
proof (induction arbitrary: n and n m s epis dst rule: block_tree_chain_tree.inducts)
  case (basic i r)
  then show ?case by (cases n) (auto simp: returns_when_def remove_defers_at.simps(2))
next
  case (deferred i j k body cleanup)
  then obtain m where n: "n = Suc m" "height body \<le> m" "height cleanup \<le> m" by (cases n) auto
  note ih = deferred(5) [OF n(2), THEN returns_whenD] deferred(7) [OF n(3), THEN returns_whenD]
  show ?case using deferred(1,3) n ih
    by (auto simp: returns_when_def remove_defers_at.simps(2) Let_def bind_eq_None_conv)
next
  case (many i j k ts)
  then obtain m where n: "n = Suc m" "heights ts \<le> m" by (cases n) auto
  show ?case using many(1,3) n many(5) [OF n(2) n(2)]
    by (auto simp: returns_when_def remove_defers_at.simps(2))
next
  case (crash i)
  then show ?case by (cases n) (auto simp: returns_when_def remove_defers_at.simps(2))
next
  case (hard_crash i)
  then show ?case by (cases n) (auto simp: returns_when_def remove_defers_at.simps(2))
next
  case (crash_pad i j k body pad)
  then obtain m where n: "n = Suc m" "height body \<le> m" "height pad \<le> m" by (cases n) auto
  note ih = crash_pad(5) [OF n(2), THEN returns_whenD] crash_pad(7) [OF n(3), THEN returns_whenD]
  show ?case using crash_pad(1,3) n ih
    by (auto simp: returns_when_def remove_defers_at.simps(2) Let_def bind_eq_None_conv)
next
  case (branch i c j k y n')
  then obtain m where n: "n = Suc m" "height y \<le> m" "height n' \<le> m" by (cases n) auto
  note ih = branch(5) [OF n(2), THEN returns_whenD] branch(7) [OF n(3), THEN returns_whenD]
  show ?case using branch(1,3) n ih
    by (auto simp: returns_when_def remove_defers_at.simps(2) Let_def bind_eq_None_conv)
next
  case (loop i j body)
  then obtain m where n: "n = Suc m" "height body \<le> m" by (cases n) auto
  show ?case using loop(1,3) n loop(5) [OF n(2), THEN returns_whenD]
    by (auto simp: returns_when_def remove_defers_at.simps(2) Let_def)
next
  case (break i k)
  then obtain m where n: "n = Suc m" by (cases n) auto
  then show ?case using break(1,3) lower_break_defined [of k "0 # _"]
    by (auto simp: returns_when_def remove_defers_at.simps(2))
next
  case (var i v j body)
  then obtain m where n: "n = Suc m" "height body \<le> m" by (cases n) auto
  show ?case using var(1,3) n var(5) [OF n(2), THEN returns_whenD]
    by (auto simp: returns_when_def remove_defers_at.simps(2) Let_def)
next
  case (chain_end k)
  then show ?case by (cases m) (auto simp: remove_defers_many.simps(2))
next
  case (chain_last j t)
  then obtain m' where n: "m = Suc m'" "height t \<le> n" by (cases m) auto
  show ?case using chain_last(1) n chain_last(3) [OF n(2), THEN returns_whenD]
    by (auto simp: remove_defers_many.simps(2) Let_def bind_eq_None_conv)
next
  case (chain_link j t k j' k' ts)
  then obtain m' where n: "m = Suc m'" "height t \<le> n" "heights ts \<le> n" "heights ts \<le> m'" by (cases m) auto
  show ?case using chain_link(1,2,5-7) n chain_link(4) [OF n(2), THEN returns_whenD] chain_link(9) [OF n(3,4)]
    by (auto simp: remove_defers_many.simps(2) Let_def bind_eq_None_conv)
qed

end
