(* ===== verification/TreeSem.thy ===== *)
theory TreeSem
  imports BlockTree
begin

text \<open>
  What a block tree means, and that the lowering keeps it.

  The meaning of straight-line code and of conditions is a parameter (\<^verbatim>\<open>'s world\<close>): a basic block
  ends normally, crashes or hard-crashes.  The scopes a \<^verbatim>\<open>BLOCK_BREAK\<close> counts are the ones
  \<^verbatim>\<open>vm.c\<close> pushes: \<^verbatim>\<open>BLOCK_MANY\<close>, \<^verbatim>\<open>BLOCK_LOOP\<close>, \<^verbatim>\<open>BLOCK_VAR\<close> and the sequence a \<^verbatim>\<open>BLOCK_DEFER\<close>
  becomes.  A crash pad runs when its body crashes, and the crash goes on afterwards; a deferred
  cleanup runs when its body ends, however it ends.  Two things are left without a meaning, since
  the IR forbids them: a break that leaves a cleanup, and a cleanup that does not end normally
  on the way of a break.
\<close>

datatype 's outcome = Normal 's | Breaking nat 's | Crashed 's | Halted 's

record 's world =
  w_basic :: "op_range \<Rightarrow> 's \<Rightarrow> 's outcome"
  w_cond :: "op_range \<Rightarrow> 's \<Rightarrow> bool \<times> 's outcome"
  w_enter :: "nat \<Rightarrow> 's \<Rightarrow> 's"

fun is_breaking :: "'s outcome \<Rightarrow> bool" where
  "is_breaking (Breaking k s) = True"
| "is_breaking _ = False"

fun is_normal :: "'s outcome \<Rightarrow> bool" where
  "is_normal (Normal s) = True"
| "is_normal _ = False"

fun is_crashed :: "'s outcome \<Rightarrow> bool" where
  "is_crashed (Crashed s) = True"
| "is_crashed _ = False"

text \<open>Leaving a scope consumes one level of a break.\<close>

fun leave :: "'s outcome \<Rightarrow> 's outcome" where
  "leave (Breaking (Suc 0) s) = Normal s"
| "leave (Breaking (Suc (Suc k)) s) = Breaking (Suc k) s"
| "leave r = r"

text \<open>After a pad the crash goes on.\<close>

fun recrash :: "'s outcome \<Rightarrow> 's outcome" where
  "recrash (Normal s) = Crashed s"
| "recrash r = r"

inductive exec :: "'s world \<Rightarrow> tree \<Rightarrow> 's \<Rightarrow> 's outcome \<Rightarrow> bool"
  and exec_seq :: "'s world \<Rightarrow> tree list \<Rightarrow> 's \<Rightarrow> 's outcome \<Rightarrow> bool"
  for w :: "'s world"
where
  x_basic: "\<lbrakk>w_basic w r s = out; \<not> is_breaking out\<rbrakk> \<Longrightarrow> exec w (Basic r) s out"
| x_crash: "exec w Crash s (Crashed s)"
| x_hard: "exec w HardCrash s (Halted s)"
| x_break: "0 < k \<Longrightarrow> exec w (Break k) s (Breaking k s)"
| x_many: "exec_seq w ts s out \<Longrightarrow> exec w (Many ts) s (leave out)"
| x_cond: "\<lbrakk>snd (w_cond w c s) = Normal s1; exec w (if fst (w_cond w c s) then yes else no) s1 out\<rbrakk> \<Longrightarrow> exec w (Branch c yes no) s out"
| x_cond_stop: "\<lbrakk>snd (w_cond w c s) = out; \<not> is_normal out; \<not> is_breaking out\<rbrakk> \<Longrightarrow> exec w (Branch c yes no) s out"
| x_loop: "\<lbrakk>exec w body s (Normal s1); exec w (Loop body) s1 out\<rbrakk> \<Longrightarrow> exec w (Loop body) s out"
| x_loop_stop: "\<lbrakk>exec w body s out; \<not> is_normal out\<rbrakk> \<Longrightarrow> exec w (Loop body) s (leave out)"
| x_var: "exec w body (w_enter w v s) out \<Longrightarrow> exec w (VarT v body) s (leave out)"
| x_pad: "\<lbrakk>exec w body s (Crashed s1); exec w pad s1 out\<rbrakk> \<Longrightarrow> exec w (CrashPad body pad) s (recrash out)"
| x_pad_skip: "\<lbrakk>exec w body s out; \<not> is_crashed out\<rbrakk> \<Longrightarrow> exec w (CrashPad body pad) s out"
| x_defer: "\<lbrakk>exec w body s (Normal s1); exec w cleanup s1 out; \<not> is_breaking out\<rbrakk>
    \<Longrightarrow> exec w (Defer body cleanup) s out"
| x_defer_crash: "\<lbrakk>exec w body s (Crashed s1); exec w cleanup s1 out; \<not> is_breaking out\<rbrakk>
    \<Longrightarrow> exec w (Defer body cleanup) s (recrash out)"
| x_defer_break: "\<lbrakk>exec w body s (Breaking k s1); exec w cleanup s1 (Normal s2)\<rbrakk>
    \<Longrightarrow> exec w (Defer body cleanup) s (leave (Breaking k s2))"
| x_defer_hard: "exec w body s (Halted s1) \<Longrightarrow> exec w (Defer body cleanup) s (Halted s1)"
| x_nil: "exec_seq w [] s (Normal s)"
| x_cons: "\<lbrakk>exec w t s (Normal s1); exec_seq w ts s1 out\<rbrakk> \<Longrightarrow> exec_seq w (t # ts) s out"
| x_stop: "\<lbrakk>exec w t s out; \<not> is_normal out\<rbrakk> \<Longrightarrow> exec_seq w (t # ts) s out"

inductive_cases exec_basicE: "exec w (Basic r) s out"
inductive_cases exec_crashE: "exec w Crash s out"
inductive_cases exec_hardE: "exec w HardCrash s out"
inductive_cases exec_breakE: "exec w (Break k) s out"
inductive_cases exec_manyE: "exec w (Many ts) s out"
inductive_cases exec_branchE: "exec w (Branch c yes no) s out"
inductive_cases exec_varE: "exec w (VarT v body) s out"
inductive_cases exec_padE: "exec w (CrashPad body pad) s out"
inductive_cases exec_deferE: "exec w (Defer body cleanup) s out"
inductive_cases exec_loopE: "exec w (Loop body) s out"
inductive_cases exec_nilE: "exec_seq w [] s out"
inductive_cases exec_consE: "exec_seq w (t # ts) s out"

text \<open>The meaning is deterministic.\<close>

lemma exec_det:
  "exec w t s out \<Longrightarrow> exec w t s out' \<Longrightarrow> out = out'"
  "exec_seq w ts s out \<Longrightarrow> exec_seq w ts s out' \<Longrightarrow> out = out'"
proof (induction arbitrary: out' and out' rule: exec_exec_seq.inducts)
  case x_basic
  from x_basic.prems show ?case
    by (rule exec_basicE) (use x_basic in \<open>fastforce+\<close>)?
next
  case x_crash
  from x_crash.prems show ?case
    by (rule exec_crashE) (use x_crash in \<open>fastforce+\<close>)?
next
  case x_hard
  from x_hard.prems show ?case
    by (rule exec_hardE) (use x_hard in \<open>fastforce+\<close>)?
next
  case x_break
  from x_break.prems show ?case
    by (rule exec_breakE) (use x_break in \<open>fastforce+\<close>)?
next
  case x_many
  from x_many.prems show ?case
    by (rule exec_manyE) (use x_many in \<open>fastforce+\<close>)?
next
  case x_cond
  from x_cond(4) show ?case
    by (rule exec_branchE) (metis x_cond outcome.inject(1) is_normal.simps(1))+
next
  case x_cond_stop
  from x_cond_stop.prems show ?case
    by (rule exec_branchE) (metis x_cond_stop is_normal.simps(1))+
next
  case x_loop
  from x_loop.prems show ?case
    by (rule exec_loopE) (metis x_loop outcome.inject outcome.distinct(1,3,5,7,9,11) is_normal.simps(1) is_crashed.simps(1))+
next
  case x_loop_stop
  from x_loop_stop.prems show ?case
    by (rule exec_loopE) (metis x_loop_stop outcome.inject outcome.distinct(1,3,5,7,9,11) is_normal.simps(1) is_crashed.simps(1))+
next
  case x_var
  from x_var.prems show ?case
    by (rule exec_varE) (use x_var in \<open>fastforce+\<close>)?
next
  case x_pad
  from x_pad.prems show ?case
    by (rule exec_padE) (metis x_pad outcome.inject outcome.distinct(1,3,5,7,9,11) is_normal.simps(1) is_crashed.simps(1))+
next
  case x_pad_skip
  from x_pad_skip.prems show ?case
    by (rule exec_padE) (metis x_pad_skip outcome.inject outcome.distinct(1,3,5,7,9,11) is_normal.simps(1) is_crashed.simps(1))+
next
  case x_defer
  from x_defer.prems show ?case
    by (rule exec_deferE) (metis x_defer outcome.inject outcome.distinct(1,3,5,7,9,11) is_normal.simps(1) is_crashed.simps(1))+
next
  case x_defer_crash
  from x_defer_crash.prems show ?case
    by (rule exec_deferE) (metis x_defer_crash outcome.inject outcome.distinct(1,3,5,7,9,11) is_normal.simps(1) is_crashed.simps(1))+
next
  case x_defer_break
  from x_defer_break.prems show ?case
    by (rule exec_deferE) (metis x_defer_break outcome.inject outcome.distinct(1,3,5,7,9,11) is_normal.simps(1) is_crashed.simps(1))+
next
  case x_defer_hard
  from x_defer_hard.prems show ?case
    by (rule exec_deferE) (metis x_defer_hard outcome.inject outcome.distinct(1,3,5,7,9,11) is_normal.simps(1) is_crashed.simps(1))+
next
  case x_nil
  from x_nil.prems show ?case
    by (rule exec_nilE) (use x_nil in \<open>fastforce+\<close>)?
next
  case x_cons
  from x_cons.prems show ?case
    by (rule exec_consE) (metis x_cons outcome.inject outcome.distinct(1,3,5,7,9,11) is_normal.simps(1) is_crashed.simps(1))+
next
  case x_stop
  from x_stop.prems show ?case
    by (rule exec_consE) (metis x_stop outcome.inject outcome.distinct(1,3,5,7,9,11) is_normal.simps(1) is_crashed.simps(1))+
qed

section \<open>Breaks and the epilogue stack\<close>

datatype entry = Plain | Scope | Cleanup tree | Pad tree

fun epi :: "entry \<Rightarrow> tree option" where
  "epi Plain = None"
| "epi Scope = None"
| "epi (Cleanup t) = Some t"
| "epi (Pad t) = Some t"

text \<open>The cleanups that a break of \<open>k\<close> levels has to run on its way out, innermost first.\<close>

fun crossed :: "entry list \<Rightarrow> nat \<Rightarrow> tree list option" where
  "crossed [] k = (if k = 0 then Some [] else None)"
| "crossed (e # ctx) k =
     (if k = 0 then Some []
      else case e of
        Plain \<Rightarrow> crossed ctx k
      | Pad p \<Rightarrow> crossed ctx k
      | Scope \<Rightarrow> crossed ctx (k - 1)
      | Cleanup c \<Rightarrow> map_option ((#) c) (crossed ctx (k - 1)))"

lemma crossed_simps [simp]:
  "crossed ctx 0 = Some []"
  "crossed (Plain # ctx) (Suc k) = crossed ctx (Suc k)"
  "crossed (Pad p # ctx) (Suc k) = crossed ctx (Suc k)"
  "crossed (Scope # ctx) (Suc k) = crossed ctx k"
  "crossed (Cleanup c # ctx) (Suc k) = map_option ((#) c) (crossed ctx k)"
  by (cases ctx) simp_all

declare crossed.simps(2) [simp del]

text \<open>The entries \<^verbatim>\<open>_remove_defers\<close> pops for a break are exactly these.\<close>

definition break_ok :: "entry list \<Rightarrow> nat \<Rightarrow> bool" where
  "break_ok ctx k \<longleftrightarrow> Suc k < W32 \<and> k \<le> length ctx + 1 \<and>
     crossed ctx k = Some (epilogues (take k (None # map epi ctx)))"

function (sequential) breaks_ok :: "entry list \<Rightarrow> tree \<Rightarrow> bool" and breaks_ok_list :: "entry list \<Rightarrow> tree list \<Rightarrow> bool" where
  "breaks_ok ctx (Basic r) \<longleftrightarrow> True"
| "breaks_ok ctx (Defer b c) \<longleftrightarrow> breaks_ok (Plain # ctx) c \<and>
     (case lower (None # map epi ctx) c of None \<Rightarrow> False | Some c' \<Rightarrow> breaks_ok (Cleanup c' # ctx) b)"
| "breaks_ok ctx (Many ts) \<longleftrightarrow> breaks_ok_list (Scope # ctx) ts"
| "breaks_ok ctx Crash \<longleftrightarrow> True"
| "breaks_ok ctx HardCrash \<longleftrightarrow> True"
| "breaks_ok ctx (CrashPad b p) \<longleftrightarrow> breaks_ok (Plain # ctx) p \<and>
     (case lower (None # map epi ctx) p of None \<Rightarrow> False | Some p' \<Rightarrow> breaks_ok (Pad p' # ctx) b)"
| "breaks_ok ctx (Branch c y n) \<longleftrightarrow> breaks_ok (Plain # ctx) y \<and> breaks_ok (Plain # ctx) n"
| "breaks_ok ctx (Loop b) \<longleftrightarrow> breaks_ok (Scope # ctx) b"
| "breaks_ok ctx (Break k) \<longleftrightarrow> break_ok ctx k"
| "breaks_ok ctx (VarT v b) \<longleftrightarrow> breaks_ok (Scope # ctx) b"
| "breaks_ok_list ctx [] \<longleftrightarrow> True"
| "breaks_ok_list ctx (t # ts) \<longleftrightarrow> breaks_ok ctx t \<and> breaks_ok_list ctx ts"
  by pat_completeness auto
termination
  by (relation "measure (\<lambda>x. case x of Inl (c, t) \<Rightarrow> size t | Inr (c, ts) \<Rightarrow> size_list size ts)") auto

text \<open>Running the crossed cleanups in order, each ending normally.\<close>

inductive runs :: "'s world \<Rightarrow> tree list \<Rightarrow> 's \<Rightarrow> 's \<Rightarrow> bool" for w where
  "runs w [] s s"
| "exec w t s (Normal s1) \<Longrightarrow> runs w ts s1 s2 \<Longrightarrow> runs w (t # ts) s s2"

inductive_cases runs_cases: "runs w [] s s'" "runs w (t # ts) s s'"

lemma exec_seq_append: "runs w ts s s1 \<Longrightarrow> exec_seq w us s1 out \<Longrightarrow> exec_seq w (ts @ us) s out"
  by (induction rule: runs.induct) (auto intro: exec_exec_seq.intros)

text \<open>
  What the lowered tree has to do where the tree has the outcome \<open>out\<close>: the same, except that a
  break has run, before it leaves, the cleanups it crosses outside the tree.
\<close>

fun delivers :: "'s world \<Rightarrow> entry list \<Rightarrow> tree \<Rightarrow> 's \<Rightarrow> 's outcome \<Rightarrow> bool" where
  "delivers w ctx t s (Breaking k s1) \<longleftrightarrow>
     0 < k \<and> (\<forall>cs s2. crossed ctx k = Some cs \<longrightarrow> runs w cs s1 s2 \<longrightarrow> exec w t s (Breaking k s2))"
| "delivers w ctx t s out \<longleftrightarrow> exec w t s out"

definition delivers_seq :: "'s world \<Rightarrow> entry list \<Rightarrow> tree list \<Rightarrow> 's \<Rightarrow> 's outcome \<Rightarrow> bool" where
  "delivers_seq w ctx ts s out \<longleftrightarrow> (case out of
     Breaking k s1 \<Rightarrow> 0 < k \<and> (\<forall>cs s2. crossed ctx k = Some cs \<longrightarrow> runs w cs s1 s2 \<longrightarrow> exec_seq w ts s (Breaking k s2))
   | _ \<Rightarrow> exec_seq w ts s out)"

lemma delivers_plain: "\<not> is_breaking out \<Longrightarrow> delivers w ctx t s out \<longleftrightarrow> exec w t s out"
  by (cases out) auto

lemma delivers_seq_plain: "\<not> is_breaking out \<Longrightarrow> delivers_seq w ctx ts s out \<longleftrightarrow> exec_seq w ts s out"
  by (cases out) (auto simp: delivers_seq_def)

lemma delivers_atom:
  "exec w t s out \<Longrightarrow> \<not> is_breaking out \<Longrightarrow> delivers w ctx t s out"
  by (simp add: delivers_plain)

text \<open>Leaving a scope that owns no cleanup.\<close>

lemma leave_scope:
  assumes c: "\<And>k. crossed ctx' (Suc k) = crossed ctx k"
    and out: "\<not> is_breaking out \<Longrightarrow> P out"
    and brk: "\<And>k s1 cs s2. out = Breaking (Suc k) s1 \<Longrightarrow> crossed ctx' (Suc k) = Some cs \<Longrightarrow> runs w cs s1 s2 \<Longrightarrow> P (Breaking (Suc k) s2)"
    and pos: "\<And>s1. out \<noteq> Breaking 0 s1"
    and P: "\<And>out. P out \<Longrightarrow> exec w t s (leave out)"
  shows "delivers w ctx t s (leave out)"
proof (cases out)
  case (Breaking k s1)
  then obtain j where k: "k = Suc j" using pos by (cases k) auto
  show ?thesis
  proof (cases j)
    case 0
    have "P (Breaking 1 s1)" using brk [of 0 s1 "[]" s1] Breaking k 0 c [of 0] by (auto intro: runs.intros)
    from P [OF this] show ?thesis using Breaking k 0 by simp
  next
    case (Suc i)
    have "exec w t s (Breaking j s2)" if "crossed ctx j = Some cs" "runs w cs s1 s2" for cs s2
      using P [OF brk [of j s1 cs s2]] that Breaking k Suc c by simp
    then show ?thesis using Breaking k Suc by simp
  qed
qed (use P [OF out] in \<open>auto\<close>)

lemma exec_breaking_pos:
  "exec w t s out \<Longrightarrow> out \<noteq> Breaking 0 s'"
  "exec_seq w ts s out \<Longrightarrow> out \<noteq> Breaking 0 s'"
proof (induction arbitrary: s' and s' rule: exec_exec_seq.inducts)
  case (x_many ts s out)
  then show ?case by (cases out rule: leave.cases) auto
next
  case (x_loop_stop body s out)
  then show ?case by (cases out rule: leave.cases) auto
next
  case (x_var body v s out)
  then show ?case by (cases out rule: leave.cases) auto
next
  case (x_pad body s s1 pad out)
  then show ?case by (cases out) auto
next
  case (x_defer_crash body s s1 cleanup out)
  then show ?case by (cases out) auto
next
  case (x_defer_break body s k s1 cleanup s2)
  then show ?case by (cases k rule: nat.exhaust; cases "k - 1") auto
qed auto

lemma delivers_breaking:
  "delivers w ctx t s (Breaking (Suc k) s1) \<Longrightarrow> crossed ctx (Suc k) = Some cs \<Longrightarrow> runs w cs s1 s2 \<Longrightarrow> exec w t s (Breaking (Suc k) s2)"
  by simp

lemma delivers_Plain [simp]:
  "delivers w (Plain # ctx) t s out \<longleftrightarrow> delivers w ctx t s out"
  "delivers w (Pad p # ctx) t s out \<longleftrightarrow> delivers w ctx t s out"
proof -
  have "crossed (Plain # ctx) k = crossed ctx k" "crossed (Pad p # ctx) k = crossed ctx k" if "0 < k" for k
    using that by (cases k, simp_all)+
  then show "delivers w (Plain # ctx) t s out \<longleftrightarrow> delivers w ctx t s out"
    "delivers w (Pad p # ctx) t s out \<longleftrightarrow> delivers w ctx t s out"
    by (cases out; auto)+
qed

text \<open>Changing the block around a tree, when the outcome goes through.\<close>

lemma delivers_map:
  assumes "delivers w ctx t s0 out" "\<And>out. exec w t s0 out \<Longrightarrow> P out \<Longrightarrow> exec w t' s out" "P out"
    "\<And>k s1 s2. P (Breaking k s1) \<Longrightarrow> P (Breaking k s2)"
  shows "delivers w ctx t' s out"
proof (cases out)
  case (Breaking k s1)
  have "exec w t' s (Breaking k s2)" if "crossed ctx k = Some cs" "runs w cs s1 s2" for cs s2
    using assms(1) that Breaking assms(3) by (intro assms(2) assms(4) [of k s1 s2]) auto
  then show ?thesis using assms(1) Breaking by simp
qed (use assms(1-3) in auto)

lemma exec_seq_single: "exec w t s out \<Longrightarrow> exec_seq w [t] s out"
  by (cases out) (auto intro: exec_exec_seq.intros)

text \<open>The sequence a defer becomes.\<close>

lemma exec_lowered_defer:
  assumes "exec w (CrashPad b c) s (Normal s1)" "exec w c s1 out" "\<not> is_breaking out"
  shows "exec w (Many [CrashPad b c, c]) s out"
proof -
  have "exec_seq w [CrashPad b c, c] s out"
    by (rule x_cons [OF assms(1) exec_seq_single [OF assms(2)]])
  from x_many [OF this] show ?thesis using assms(3) by (cases out) auto
qed

lemma exec_lowered_defer_stop:
  assumes "exec w (CrashPad b c) s out" "\<not> is_normal out"
  shows "exec w (Many [CrashPad b c, c]) s (leave out)"
  by (rule x_many, rule x_stop) (use assms in auto)

lemma lower_delivers:
  "exec w t s out \<Longrightarrow> breaks_ok ctx t \<Longrightarrow> lower (map epi ctx) t = Some t' \<Longrightarrow> delivers w ctx t' s out"
  "exec_seq w ts s out \<Longrightarrow> breaks_ok_list ctx ts \<Longrightarrow> lower_list (map epi ctx) ts = Some ts' \<Longrightarrow> delivers_seq w ctx ts' s out"
proof (induction arbitrary: ctx t' and ctx ts' rule: exec_exec_seq.inducts)
  case (x_basic r s out)
  then show ?case by (auto simp: delivers_plain intro: exec_exec_seq.x_basic)
next
  case (x_break k s)
  have "exec w t' s (Breaking k s2)" if cs: "crossed ctx k = Some cs" and r: "runs w cs s s2" for cs s2
  proof (cases "cs = []")
    case True
    then show ?thesis using x_break r cs by (auto simp: break_ok_def Let_def elim: runs_cases intro: exec_exec_seq.x_break)
  next
    case False
    have "Suc k < W32" "cs = epilogues (take k (None # map epi ctx))" using x_break cs by (auto simp: break_ok_def)
    then have "t' = Many (cs @ [Break (Suc k)])" using x_break.prems False by (auto simp: Let_def split: if_splits)
    moreover have "exec_seq w (cs @ [Break (Suc k)]) s (Breaking (Suc k) s2)"
      by (rule exec_seq_append [OF r]) (auto intro: exec_exec_seq.intros)
    ultimately show ?thesis using exec_exec_seq.x_many [of w _ s "Breaking (Suc k) s2"] x_break(1)
      by (cases k) auto
  qed
  then show ?case using x_break(1) by simp
next
  case (x_many ts s out)
  then obtain us where us: "lower_list (map epi (Scope # ctx)) ts = Some us" "t' = Many us" by auto
  have d: "delivers_seq w (Scope # ctx) us s out" using x_many us by simp
  show ?case unfolding us(2)
  proof (rule leave_scope [where ctx' = "Scope # ctx" and P = "exec_seq w us s"])
    show "exec_seq w us s out" if "\<not> is_breaking out" using d that by (simp add: delivers_seq_plain)
    show "exec_seq w us s (Breaking (Suc k) s2)"
      if "out = Breaking (Suc k) s1" "crossed (Scope # ctx) (Suc k) = Some cs" "runs w cs s1 s2" for k s1 cs s2
      using d that by (simp add: delivers_seq_def)
    show "out \<noteq> Breaking 0 s1" for s1 using exec_breaking_pos(2) [OF x_many(1)] .
  qed (auto intro: exec_exec_seq.x_many)
next
  case (x_cond c s s1 yes no out)
  then obtain y n where t': "t' = Branch c y n" "lower (map epi (Plain # ctx)) yes = Some y"
    "lower (map epi (Plain # ctx)) no = Some n" by (auto split: option.splits)
  let ?b = "fst (w_cond w c s)"
  have "delivers w (Plain # ctx) (if ?b then y else n) s1 out"
    using x_cond(3) [of "Plain # ctx"] x_cond(4) t' by (cases ?b) auto
  then have "delivers w ctx (if ?b then y else n) s1 out" by simp
  then show ?case unfolding t'(1)
    by (rule delivers_map [where P = "\<lambda>_. True"]) (use x_cond in \<open>auto intro: exec_exec_seq.x_cond\<close>)
next
  case (x_cond_stop c s out yes no)
  then show ?case by (auto simp: delivers_plain split: option.splits intro: exec_exec_seq.x_cond_stop)
next
  case (x_loop body s s1 out)
  then obtain b where b: "lower (map epi (Scope # ctx)) body = Some b" "t' = Loop b" by auto
  have "exec w b s (Normal s1)" using x_loop b by (auto simp: delivers_plain)
  moreover have "delivers w ctx (Loop b) s1 out" using x_loop b by simp
  ultimately show ?case unfolding b(2)
    by (elim delivers_map [where P = "\<lambda>_. True"]) (auto intro: exec_exec_seq.x_loop)
next
  case (x_loop_stop body s out)
  then obtain b where b: "lower (map epi (Scope # ctx)) body = Some b" "t' = Loop b" by auto
  have d: "delivers w (Scope # ctx) b s out" using x_loop_stop b by simp
  show ?case unfolding b(2)
  proof (rule leave_scope [where ctx' = "Scope # ctx" and P = "\<lambda>out. exec w b s out \<and> \<not> is_normal out"])
    show "exec w b s out \<and> \<not> is_normal out" if "\<not> is_breaking out"
      using d that x_loop_stop(3) by (simp add: delivers_plain)
    show "exec w b s (Breaking (Suc k) s2) \<and> \<not> is_normal (Breaking (Suc k) s2)"
      if "out = Breaking (Suc k) s1" "crossed (Scope # ctx) (Suc k) = Some cs" "runs w cs s1 s2" for k s1 cs s2
      using d that by simp
    show "out \<noteq> Breaking 0 s1" for s1 using exec_breaking_pos(1) [OF x_loop_stop(1)] .
  qed (auto intro: exec_exec_seq.x_loop_stop)
next
  case (x_var body v s out)
  then obtain b where b: "lower (map epi (Scope # ctx)) body = Some b" "t' = VarT v b" by auto
  let ?s = "w_enter w v s"
  have d: "delivers w (Scope # ctx) b ?s out" using x_var b by simp
  show ?case unfolding b(2)
  proof (rule leave_scope [where ctx' = "Scope # ctx" and P = "exec w b ?s"])
    show "exec w b ?s out" if "\<not> is_breaking out" using d that by (simp add: delivers_plain)
    show "exec w b ?s (Breaking (Suc k) s2)"
      if "out = Breaking (Suc k) s1" "crossed (Scope # ctx) (Suc k) = Some cs" "runs w cs s1 s2" for k s1 cs s2
      using d that by simp
    show "out \<noteq> Breaking 0 s1" for s1 using exec_breaking_pos(1) [OF x_var(1)] .
  qed (auto intro: exec_exec_seq.x_var)
next
  case (x_pad body s s1 pad out)
  then obtain p b where t': "t' = CrashPad b p" "lower (map epi (Plain # ctx)) pad = Some p"
    "lower (map epi (Pad p # ctx)) body = Some b" by (auto split: option.splits)
  have b: "exec w b s (Crashed s1)" using x_pad t' by (auto simp: delivers_plain)
  have "delivers w ctx p s1 out" using x_pad(4) [of "Plain # ctx" p] x_pad(5) t' by simp
  moreover have "exec w (CrashPad b p) s (Breaking k s2)" if "exec w p s1 (Breaking k s2)" for k s2
    using exec_exec_seq.x_pad [OF b that] by simp
  ultimately show ?case unfolding t'(1)
    by (cases out) (auto dest: exec_exec_seq.x_pad [OF b, of p])
next
  case (x_pad_skip body s out pad)
  then obtain p b where t': "t' = CrashPad b p" "lower (map epi (Plain # ctx)) pad = Some p"
    "lower (map epi (Pad p # ctx)) body = Some b" by (auto split: option.splits)
  have "delivers w ctx b s out" using x_pad_skip(2) [of "Pad p # ctx" b] x_pad_skip(4) t' by simp
  then show ?case unfolding t'(1)
    by (rule delivers_map [where P = "\<lambda>out. \<not> is_crashed out"]) (use x_pad_skip in \<open>auto intro: exec_exec_seq.x_pad_skip\<close>)
next
  case (x_defer body s s1 cleanup out)
  then obtain c b where t': "t' = Many [CrashPad b c, c]" "lower (map epi (Plain # ctx)) cleanup = Some c"
    "lower (map epi (Cleanup c # ctx)) body = Some b" by (auto split: option.splits)
  have "exec w b s (Normal s1)" using x_defer t' by (auto simp: delivers_plain)
  then have "exec w (CrashPad b c) s (Normal s1)" by (auto intro: exec_exec_seq.x_pad_skip)
  moreover have "exec w c s1 out" using x_defer t' by (auto simp: delivers_plain)
  ultimately show ?case using x_defer by (simp add: delivers_plain t'(1) exec_lowered_defer)
next
  case (x_defer_crash body s s1 cleanup out)
  then obtain c b where t': "t' = Many [CrashPad b c, c]" "lower (map epi (Plain # ctx)) cleanup = Some c"
    "lower (map epi (Cleanup c # ctx)) body = Some b" by (auto split: option.splits)
  have b: "exec w b s (Crashed s1)" using x_defer_crash t' by (auto simp: delivers_plain)
  have "exec w c s1 out" using x_defer_crash t' by (auto simp: delivers_plain)
  then have "exec w (CrashPad b c) s (recrash out)" by (rule exec_exec_seq.x_pad [OF b])
  from exec_lowered_defer_stop [OF this] show ?case using x_defer_crash(5) unfolding t'(1)
    by (cases out) auto
next
  case (x_defer_break body s k s1 cleanup s2)
  then obtain c b where t': "t' = Many [CrashPad b c, c]" "lower (map epi (Plain # ctx)) cleanup = Some c"
    "lower (map epi (Cleanup c # ctx)) body = Some b" by (auto split: option.splits)
  have d: "delivers w (Cleanup c # ctx) b s (Breaking k s1)" using x_defer_break(2) [of "Cleanup c # ctx" b] x_defer_break(5) t' by simp
  then obtain j where k: "k = Suc j" by (cases k) auto
  have c: "exec w c s1 (Normal s2)" using x_defer_break t' by (auto simp: delivers_plain)
  have brk: "exec w (Many [CrashPad b c, c]) s (leave (Breaking k s3))"
    if "crossed ctx j = Some cs" "runs w cs s2 s3" for cs s3
  proof -
    have "exec w b s (Breaking k s3)"
      using d k that runs.intros(2) [OF c that(2)] by simp
    then have "exec w (CrashPad b c) s (Breaking k s3)" by (auto intro: exec_exec_seq.x_pad_skip)
    then show ?thesis by (rule exec_lowered_defer_stop) simp
  qed
  show ?case
  proof (cases j)
    case 0
    then show ?thesis using brk [of "[]" s2] k unfolding t'(1) by (auto intro: runs.intros)
  next
    case (Suc i)
    then show ?thesis using brk k unfolding t'(1) by auto
  qed
next
  case (x_defer_hard body s s1 cleanup)
  then obtain c b where t': "t' = Many [CrashPad b c, c]" "lower (map epi (Plain # ctx)) cleanup = Some c"
    "lower (map epi (Cleanup c # ctx)) body = Some b" by (auto split: option.splits)
  have "exec w b s (Halted s1)" using x_defer_hard t' by (auto simp: delivers_plain)
  then have "exec w (CrashPad b c) s (Halted s1)" by (auto intro: exec_exec_seq.x_pad_skip)
  from exec_lowered_defer_stop [OF this] show ?case unfolding t'(1) by simp
next
  case (x_cons t s s1 ts out)
  then obtain u us where us: "ts' = u # us" "lower (map epi ctx) t = Some u" "lower_list (map epi ctx) ts = Some us"
    by (auto split: option.splits)
  have u: "exec w u s (Normal s1)" using x_cons us by (auto simp: delivers_plain)
  have "delivers_seq w ctx us s1 out" using x_cons us by simp
  then show ?case unfolding us(1)
    by (cases out) (auto simp: delivers_seq_def intro: exec_exec_seq.x_cons [OF u])
next
  case (x_stop t s out ts)
  then obtain u us where us: "ts' = u # us" "lower (map epi ctx) t = Some u"
    by (auto split: option.splits)
  have "delivers w ctx u s out" using x_stop us by simp
  then show ?case using x_stop(3) unfolding us(1)
    by (cases out) (auto simp: delivers_seq_def intro: exec_exec_seq.x_stop)
qed (auto intro: exec_exec_seq.intros simp: delivers_seq_def)

end
