(* ===== verification/Lowering_Props.thy ===== *)
theory Lowering_Props
  imports Lowering_Refine TreeSem
begin

text \<open>
  The correctness of \<^verbatim>\<open>remove_defers\<close>: it returns, its result stands for the lowered tree, it
  leaves no defer behind, and it keeps the meaning of the program as long as every break pops
  the epilogues it crosses.  That last condition is real: the code counts other levels than the
  compiler does, and the last theorem of this file is a program whose cleanup gets lost.
\<close>

section \<open>The entry point\<close>

text \<open>
  C20. The lowering returns on every array that stands for a tree: with as much fuel as the tree
  is high, a result is missing exactly when an assertion fires, that is when some break has a
  level above its depth.
\<close>

theorem remove_defers_returns_iff:
  assumes "block_tree blocks UNIV 0 t" "height t \<le> fuel"
  shows "remove_defers fuel blocks \<noteq> None \<longleftrightarrow> levels_ok 0 t"
  using returns_whenD [OF remove_defers_returns(1) [OF assms], of "[]"]
  by (simp add: remove_defers_def)

lemma remove_defers_refines_core:
  assumes "block_tree blocks UNIV 0 t" "remove_defers fuel blocks = Some out" "length out \<le> BLOCK_INVALID"
  shows "\<exists>t'. lower [] t = Some t' \<and> block_tree out UNIV 0 t'"
proof -
  have K: "remove_defers_at fuel blocks [] 0 0 (extend_heap [] 1) = Some out"
    using assms(2) by (simp add: remove_defers_def)
  obtain t' where t': "lower [] t = Some t'"
    "block_tree out ({} \<union> {0} \<union> {length (extend_heap [] 1)..<length out}) 0 t'"
    by (rule lowersD [OF remove_defers_at_lowers(1) [OF assms(1)] K, of "{}" "[]"])
      (use assms(3) in auto)
  have "block_tree out UNIV 0 t'"
    by (rule block_tree_transfer(1) [OF t'(2)]) auto
  with t'(1) show ?thesis by blast
qed

text \<open>
  C2. Refinement: whenever the lowering returns, its result stands for the tree the functional
  specification \<^const>\<open>lower\<close> computes from the tree the source array stands for.
\<close>

theorem remove_defers_refines:
  assumes "block_tree blocks UNIV 0 t" "remove_defers fuel blocks = Some out" "length out \<le> BLOCK_INVALID"
  shows "\<exists>t'. lower [] t = Some t' \<and> block_tree out UNIV 0 t'"
  by (rule remove_defers_refines_core [OF assms])

section \<open>No defer is left\<close>

fun defer_free :: "tree \<Rightarrow> bool" where
  "defer_free (Defer b c) \<longleftrightarrow> False"
| "defer_free (Many ts) \<longleftrightarrow> list_all defer_free ts"
| "defer_free (CrashPad b p) \<longleftrightarrow> defer_free b \<and> defer_free p"
| "defer_free (Branch c y n) \<longleftrightarrow> defer_free y \<and> defer_free n"
| "defer_free (Loop b) \<longleftrightarrow> defer_free b"
| "defer_free (VarT v b) \<longleftrightarrow> defer_free b"
| "defer_free _ \<longleftrightarrow> True"

lemma epilogues_set: "set (epilogues c) = {t. Some t \<in> set c}"
  by (induction c rule: epilogues.induct) auto

lemma lower_defer_free:
  "lower ctx t = Some t' \<Longrightarrow> \<forall>e\<in>set ctx. pred_option defer_free e \<Longrightarrow> defer_free t'"
  "lower_list ctx ts = Some ts' \<Longrightarrow> \<forall>e\<in>set ctx. pred_option defer_free e \<Longrightarrow> list_all defer_free ts'"
proof (induction ctx t and ctx ts arbitrary: t' and ts' rule: lower_lower_list.induct)
  case (9 ctx k)
  have "list_all defer_free (epilogues (take k (None # ctx)))"
  proof -
    have "set (take k (None # ctx)) \<subseteq> insert None (set ctx)"
      using set_take_subset [of k "None # ctx"] by simp
    then have "pred_option defer_free e" if "e \<in> set (take k (None # ctx))" for e
      using that 9(2) by auto
    then show ?thesis by (force simp: list_all_iff epilogues_set)
  qed
  then show ?case using 9 by (auto simp: Let_def split: if_splits)
qed (auto split: option.splits)

text \<open>
  C21. The result of the lowering has no \<^verbatim>\<open>BLOCK_DEFER\<close> anywhere in the tree it stands for, so the
  compiler's refusal of raw defers cannot hit it.
\<close>

theorem remove_defers_no_defer:
  assumes "block_tree blocks UNIV 0 t" "remove_defers fuel blocks = Some out" "length out \<le> BLOCK_INVALID"
  shows "\<exists>t'. block_tree out UNIV 0 t' \<and> defer_free t'"
proof -
  obtain t' where t': "lower [] t = Some t'" "block_tree out UNIV 0 t'"
    using remove_defers_refines_core [OF assms] by blast
  with lower_defer_free(1) [OF t'(1)] show ?thesis by auto
qed

section \<open>Meaning\<close>


lemma crossed_scopes:
  "\<forall>e\<in>set (take k ctx). e = Scope \<or> (\<exists>c. e = Cleanup c) \<Longrightarrow> k \<le> length ctx \<Longrightarrow>
     crossed ctx k = Some (epilogues (map epi (take k ctx)))"
proof (induction ctx arbitrary: k)
  case (Cons e ctx)
  then show ?case by (cases k) auto
qed simp

text \<open>
  A break is lowered right when its way out consists of scopes only and ends in a scope that
  owns no cleanup: no branch, crash pad or cleanup lies between it and its target.
\<close>

theorem break_ok_scopes:
  assumes "0 < k" "Suc k < W32" "k \<le> length ctx" "ctx ! (k - 1) = Scope"
    "\<forall>e\<in>set (take k ctx). e = Scope \<or> (\<exists>c. e = Cleanup c)"
  shows "break_ok ctx k"
proof -
  obtain j where k: "k = Suc j" using assms(1) by (cases k) auto
  have "take k ctx = take j ctx @ [Scope]"
    using assms(3,4) k take_Suc_conv_app_nth [of j ctx] by simp
  moreover have "epilogues (xs @ [None]) = epilogues xs" for xs
    by (induction xs rule: epilogues.induct) auto
  ultimately have "epilogues (map epi (take k ctx)) = epilogues (map epi (take j ctx))" by simp
  then show ?thesis using crossed_scopes [OF assms(5,3)] assms k
    by (simp add: break_ok_def take_map)
qed

section \<open>A cleanup that is lost\<close>

text \<open>A world that records which basic blocks ran; every condition holds.\<close>

definition trace_world :: "nat list world" where
  "trace_world = \<lparr>w_basic = (\<lambda>r s. Normal (s @ [r_start r])), w_cond = (\<lambda>r s. (True, Normal s)), w_enter = (\<lambda>v s. s)\<rparr>"

text \<open>\<^verbatim>\<open>loop { start { if c { break out of the loop } } finally { block 7 } }\<close>\<close>

definition lost_blocks :: "block list" where
  "lost_blocks = [BLOCK_LOOP 1, BLOCK_DEFER 2 3, BLOCK_BRANCH \<lparr>r_start = 0, r_len = 1\<rparr> 4 5,
     BLOCK_BASIC \<lparr>r_start = 7, r_len = 1\<rparr>, BLOCK_BREAK 2, BLOCK_BASIC \<lparr>r_start = 0, r_len = 0\<rparr>]"

definition lost_tree :: tree where
  "lost_tree = Loop (Defer (Branch \<lparr>r_start = 0, r_len = 1\<rparr> (Break 2) (Basic \<lparr>r_start = 0, r_len = 0\<rparr>))
     (Basic \<lparr>r_start = 7, r_len = 1\<rparr>))"

lemma lost_lowered:
  "remove_defers 5 lost_blocks = Some [BLOCK_LOOP 1, BLOCK_MANY 2 3, BLOCK_CRASH_PAD 5 4,
     BLOCK_CHAIN 4 4294967295, BLOCK_BASIC \<lparr>r_start = 7, r_len = 1\<rparr>, BLOCK_BRANCH \<lparr>r_start = 0, r_len = 1\<rparr> 6 7,
     BLOCK_BREAK 2, BLOCK_BASIC \<lparr>r_start = 0, r_len = 0\<rparr>]"
  by code_simp

lemma lost_source: "block_tree lost_blocks UNIV 0 lost_tree"
  unfolding lost_tree_def lost_blocks_def
  by (rule loop [where j = 1], simp, simp, simp, rule deferred [where j = 2 and k = 3], simp, simp, simp,
      rule branch [where j = 4 and k = 5], simp, simp, simp, rule break, simp, simp, simp, rule basic, simp, simp, simp,
      rule basic, simp, simp, simp)

lemma lost_target:
  "block_tree (the (remove_defers 5 lost_blocks)) UNIV 0
     (Loop (Many [CrashPad (Branch \<lparr>r_start = 0, r_len = 1\<rparr> (Break 2) (Basic \<lparr>r_start = 0, r_len = 0\<rparr>))
        (Basic \<lparr>r_start = 7, r_len = 1\<rparr>), Basic \<lparr>r_start = 7, r_len = 1\<rparr>]))"
proof -
  have "lower [] lost_tree = Some (Loop (Many [CrashPad (Branch \<lparr>r_start = 0, r_len = 1\<rparr> (Break 2) (Basic \<lparr>r_start = 0, r_len = 0\<rparr>))
        (Basic \<lparr>r_start = 7, r_len = 1\<rparr>), Basic \<lparr>r_start = 7, r_len = 1\<rparr>]))"
    by code_simp
  moreover have "\<exists>t'. lower [] lost_tree = Some t' \<and> block_tree (the (remove_defers 5 lost_blocks)) UNIV 0 t'"
    using remove_defers_refines_core [OF lost_source lost_lowered] lost_lowered by (simp add: BLOCK_INVALID_def)
  ultimately show ?thesis by simp
qed

lemma exec_lost_source: "exec trace_world lost_tree [] (Normal [7])"
proof -
  let ?c = "\<lparr>r_start = 0, r_len = 1\<rparr>" and ?e = "Basic \<lparr>r_start = 0, r_len = 0\<rparr>" and ?f = "Basic \<lparr>r_start = 7, r_len = 1\<rparr>"
  have "exec trace_world (Branch ?c (Break 2) ?e) [] (Breaking 2 [])"
    by (rule x_cond [where ?s1.0 = "[]"]) (auto simp: trace_world_def intro: x_break)
  moreover have "exec trace_world ?f [] (Normal [7])"
    by (rule x_basic) (auto simp: trace_world_def)
  ultimately have "exec trace_world (Defer (Branch ?c (Break 2) ?e) ?f) [] (leave (Breaking 2 [7]))"
    by (rule x_defer_break)
  from x_loop_stop [OF this] show ?thesis by (simp add: lost_tree_def numeral_2_eq_2)
qed

lemma exec_lost_target:
  "exec trace_world (Loop (Many [CrashPad (Branch \<lparr>r_start = 0, r_len = 1\<rparr> (Break 2) (Basic \<lparr>r_start = 0, r_len = 0\<rparr>))
        (Basic \<lparr>r_start = 7, r_len = 1\<rparr>), Basic \<lparr>r_start = 7, r_len = 1\<rparr>])) [] (Normal [])"
proof -
  let ?c = "\<lparr>r_start = 0, r_len = 1\<rparr>" and ?e = "Basic \<lparr>r_start = 0, r_len = 0\<rparr>" and ?f = "Basic \<lparr>r_start = 7, r_len = 1\<rparr>"
  have "exec trace_world (Branch ?c (Break 2) ?e) [] (Breaking 2 [])"
    by (rule x_cond [where ?s1.0 = "[]"]) (auto simp: trace_world_def intro: x_break)
  then have "exec trace_world (CrashPad (Branch ?c (Break 2) ?e) ?f) [] (Breaking 2 [])"
    by (rule x_pad_skip) simp
  from x_loop_stop [OF exec_lowered_defer_stop [OF this]] show ?thesis by (simp add: numeral_2_eq_2)
qed


section \<open>Witnesses\<close>

text \<open>\<^verbatim>\<open>loop { start { break out of the loop } finally { block 7 } }\<close>\<close>

definition kept_blocks :: "block list" where
  "kept_blocks = [BLOCK_LOOP 1, BLOCK_DEFER 2 3, BLOCK_BREAK 2, BLOCK_BASIC \<lparr>r_start = 7, r_len = 1\<rparr>]"

definition kept_tree :: tree where
  "kept_tree = Loop (Defer (Break 2) (Basic \<lparr>r_start = 7, r_len = 1\<rparr>))"

lemma kept_source: "block_tree kept_blocks UNIV 0 kept_tree"
  unfolding kept_tree_def kept_blocks_def
  by (rule loop [where j = 1], simp, simp, simp, rule deferred [where j = 2 and k = 3], simp, simp, simp,
      rule break, simp, simp, simp, rule basic, simp, simp, simp)

lemma kept_length: "length (the (remove_defers 4 kept_blocks)) \<le> BLOCK_INVALID" "remove_defers 4 kept_blocks \<noteq> None"
  by code_simp+

lemma kept_lowered: "remove_defers 4 kept_blocks = Some (the (remove_defers 4 kept_blocks))"
  using kept_length(2) by auto

lemma exec_kept: "exec trace_world kept_tree [] (Normal [7])"
proof -
  have "exec trace_world (Break 2) [] (Breaking 2 [])" by (rule x_break) simp
  moreover have "exec trace_world (Basic \<lparr>r_start = 7, r_len = 1\<rparr>) [] (Normal [7])"
    by (rule x_basic) (auto simp: trace_world_def)
  ultimately have "exec trace_world (Defer (Break 2) (Basic \<lparr>r_start = 7, r_len = 1\<rparr>)) [] (leave (Breaking 2 [7]))"
    by (rule x_defer_break)
  from x_loop_stop [OF this] show ?thesis by (simp add: kept_tree_def numeral_2_eq_2)
qed

lemma remove_defers_returns_iff_witness:
  "height kept_tree = 3 \<and> remove_defers 4 kept_blocks \<noteq> None \<and> levels_ok 0 kept_tree"
proof -
  have h: "height kept_tree = 3" "levels_ok 0 kept_tree" by (simp_all add: kept_tree_def)
  then have "remove_defers 4 kept_blocks \<noteq> None \<longleftrightarrow> levels_ok 0 kept_tree"
    by (intro remove_defers_returns_iff [OF kept_source]) simp
  with h show ?thesis by simp
qed

lemma remove_defers_refines_witness:
  "\<exists>t'. lower [] kept_tree = Some t' \<and> block_tree (the (remove_defers 4 kept_blocks)) UNIV 0 t'"
  by (rule remove_defers_refines [OF kept_source kept_lowered kept_length(1)])

lemma remove_defers_no_defer_witness:
  "\<exists>t'. block_tree (the (remove_defers 4 kept_blocks)) UNIV 0 t' \<and> defer_free t'"
  by (rule remove_defers_no_defer [OF kept_source kept_lowered kept_length(1)])


lemma break_ok_scopes_witness: "break_ok [Cleanup Crash, Scope] 2"
  by (rule break_ok_scopes) simp_all

end
