(* ===== verification/Bytecode.thy ===== *)
theory Bytecode
  imports Ir
begin

text \<open>
  The instruction set of \<^verbatim>\<open>ir.h\<close> and the code buffer of \<^verbatim>\<open>vm.c\<close>: the opcodes, the emitters, the
  patching of jump targets and the readers the machine uses on the same layout.

  An allocation succeeds or fails as an oracle on its size says (\<open>can_alloc\<close>); the capacity of
  every growable buffer is kept, because it decides when the code allocates.
\<close>

section \<open>Opcodes\<close>

datatype bytecode =
    B_DONE
  | B_RET
  | B_STORAGE_ADD
  | B_PUSH_VAR
  | B_PUSH_ARG
  | B_DROP_N
  | B_PUSH_ARR_AT
  | B_COPY
  | B_ADD
  | B_SUB
  | B_MUL
  | B_DIV
  | B_AND
  | B_OR
  | B_XOR
  | B_BIT_NOT
  | B_ARR_PUSH
  | B_ARR_DROP
  | B_JUMP
  | B_BRANCH
  | B_BRANCH_TOP
  | B_PUSH_CRASH
  | B_POP_CRASH
  | B_CRASH
  | B_HARD_CRASH
  | B_PUSH_GLOBAL
  | B_CALL
  | B_CALL_NATIVE
  | B_SLICE_FROM_ARR
  | B_PUSH_SLICE_AT
  | B_SLICE_INC
  | B_SLICE_DEC
  | B_PUSH_STRUCT_AT
  | B_SLICE_FROM_ONE

text \<open>The values of the enumeration, in the order of its declaration.\<close>

definition opcodes :: "bytecode list" where
  "opcodes = [B_DONE, B_RET, B_STORAGE_ADD, B_PUSH_VAR, B_PUSH_ARG, B_DROP_N, B_PUSH_ARR_AT, B_COPY,
     B_ADD, B_SUB, B_MUL, B_DIV, B_AND, B_OR, B_XOR, B_BIT_NOT, B_ARR_PUSH, B_ARR_DROP, B_JUMP,
     B_BRANCH, B_BRANCH_TOP, B_PUSH_CRASH, B_POP_CRASH, B_CRASH, B_HARD_CRASH, B_PUSH_GLOBAL, B_CALL,
     B_CALL_NATIVE, B_SLICE_FROM_ARR, B_PUSH_SLICE_AT, B_SLICE_INC, B_SLICE_DEC, B_PUSH_STRUCT_AT,
     B_SLICE_FROM_ONE]"

fun opcode :: "bytecode \<Rightarrow> byte" where
  "opcode B_DONE = 0"
| "opcode B_RET = 1"
| "opcode B_STORAGE_ADD = 2"
| "opcode B_PUSH_VAR = 3"
| "opcode B_PUSH_ARG = 4"
| "opcode B_DROP_N = 5"
| "opcode B_PUSH_ARR_AT = 6"
| "opcode B_COPY = 7"
| "opcode B_ADD = 8"
| "opcode B_SUB = 9"
| "opcode B_MUL = 10"
| "opcode B_DIV = 11"
| "opcode B_AND = 12"
| "opcode B_OR = 13"
| "opcode B_XOR = 14"
| "opcode B_BIT_NOT = 15"
| "opcode B_ARR_PUSH = 16"
| "opcode B_ARR_DROP = 17"
| "opcode B_JUMP = 18"
| "opcode B_BRANCH = 19"
| "opcode B_BRANCH_TOP = 20"
| "opcode B_PUSH_CRASH = 21"
| "opcode B_POP_CRASH = 22"
| "opcode B_CRASH = 23"
| "opcode B_HARD_CRASH = 24"
| "opcode B_PUSH_GLOBAL = 25"
| "opcode B_CALL = 26"
| "opcode B_CALL_NATIVE = 27"
| "opcode B_SLICE_FROM_ARR = 28"
| "opcode B_PUSH_SLICE_AT = 29"
| "opcode B_SLICE_INC = 30"
| "opcode B_SLICE_DEC = 31"
| "opcode B_PUSH_STRUCT_AT = 32"
| "opcode B_SLICE_FROM_ONE = 33"

definition opcode_of_byte :: "byte \<Rightarrow> bytecode option" where
  "opcode_of_byte b = (if b < length opcodes then Some (opcodes ! b) else None)"

lemma opcode_of_opcode [simp]: "opcode_of_byte (opcode op) = Some op"
  by (cases op; simp add: opcode_of_byte_def opcodes_def; code_simp)

lemma opcode_byte [simp]: "opcode op < 256"
  by (cases op) simp_all

section \<open>The code buffer\<close>

text \<open>Doubling a capacity until it suffices.\<close>

function grow_cap :: "nat \<Rightarrow> nat \<Rightarrow> nat" where
  "grow_cap cap need = (if need \<le> cap \<or> cap = 0 then cap else grow_cap (cap * 2) need)"
  by pat_completeness auto
termination
  by (relation "measure (\<lambda>(cap, need). need - cap)") auto

declare grow_cap.simps [simp del]

lemma grow_cap_enough: "0 < cap \<Longrightarrow> need \<le> grow_cap cap need"
  by (induction cap need rule: grow_cap.induct) (subst grow_cap.simps, auto)

record code_builder =
  cb_data :: "byte list"
  cb_cap :: nat

definition grow_bytes :: "(nat \<Rightarrow> bool) \<Rightarrow> nat \<Rightarrow> code_builder \<Rightarrow> code_builder option" where
  "grow_bytes can_alloc n cb =
     (if length (cb_data cb) + n \<le> cb_cap cb then Some cb
      else
        let cap = grow_cap (if cb_cap cb = 0 then 64 else cb_cap cb) (length (cb_data cb) + n) in
        if can_alloc cap then Some (cb\<lparr>cb_cap := cap\<rparr>) else None)"

definition emit_bytes :: "(nat \<Rightarrow> bool) \<Rightarrow> byte list \<Rightarrow> code_builder \<Rightarrow> code_builder option" where
  "emit_bytes can_alloc bs cb =
     do {
       cb \<leftarrow> grow_bytes can_alloc (length bs) cb;
       Some (cb\<lparr>cb_data := cb_data cb @ bs\<rparr>)
     }"

definition emit_op :: "(nat \<Rightarrow> bool) \<Rightarrow> bytecode \<Rightarrow> code_builder \<Rightarrow> code_builder option" where
  "emit_op can_alloc x = emit_bytes can_alloc [opcode x]"

definition emit_offset :: "(nat \<Rightarrow> bool) \<Rightarrow> int \<Rightarrow> code_builder \<Rightarrow> code_builder option" where
  "emit_offset can_alloc x = emit_bytes can_alloc (bytes_of_nat 2 (nat (x mod 65536)))"

definition emit_uoffset :: "(nat \<Rightarrow> bool) \<Rightarrow> nat \<Rightarrow> code_builder \<Rightarrow> code_builder option" where
  "emit_uoffset can_alloc x = emit_bytes can_alloc (bytes_of_nat 2 (u16 x))"

definition emit_count :: "(nat \<Rightarrow> bool) \<Rightarrow> nat \<Rightarrow> code_builder \<Rightarrow> code_builder option" where
  "emit_count can_alloc x = emit_bytes can_alloc (bytes_of_nat 4 (u32 x))"

definition emit_size :: "(nat \<Rightarrow> bool) \<Rightarrow> nat \<Rightarrow> code_builder \<Rightarrow> code_builder option" where
  "emit_size can_alloc x = emit_bytes can_alloc (bytes_of_nat 8 (u64 x))"

definition emit_pointer :: "(nat \<Rightarrow> bool) \<Rightarrow> nat \<Rightarrow> code_builder \<Rightarrow> code_builder option" where
  "emit_pointer can_alloc x = emit_bytes can_alloc (bytes_of_nat 8 (u64 x))"

text \<open>A target that does not fit the operand is refused; the patch itself stays in the buffer.\<close>

definition patch_uoffset :: "nat \<Rightarrow> nat \<Rightarrow> code_builder \<Rightarrow> code_builder option" where
  "patch_uoffset at target cb =
     (if 65535 < target then None
      else Some (cb\<lparr>cb_data := splice (cb_data cb) at (bytes_of_nat 2 target)\<rparr>))"

text \<open>
  The growable stacks of the code share one shape: when the length reaches the capacity, the
  capacity doubles, from an initial value on; a failed reallocation leaves the stack as it is.
\<close>

definition push_grow :: "(nat \<Rightarrow> bool) \<Rightarrow> nat \<Rightarrow> nat \<Rightarrow> 'a \<Rightarrow> 'a list \<times> nat \<Rightarrow> ('a list \<times> nat) option" where
  "push_grow can_alloc initial width x s = (case s of (xs, cap) \<Rightarrow>
     if length xs = cap then
       (let cap = (if cap = 0 then initial else cap * 2) in
        if can_alloc (cap * width) then Some (xs @ [x], cap) else None)
     else Some (xs @ [x], cap))"

lemma push_grow_list: "push_grow can_alloc initial width x (xs, cap) = Some (ys, cap') \<Longrightarrow> ys = xs @ [x]"
  by (auto simp: push_grow_def Let_def split: if_splits)

lemma push_grow_cap:
  "push_grow can_alloc initial width x (xs, cap) = Some (ys, cap') \<Longrightarrow> 0 < initial \<Longrightarrow> length xs \<le> cap \<Longrightarrow> length ys \<le> cap'"
  by (cases xs) (auto simp: push_grow_def Let_def split: if_splits)

section \<open>Memory and the readers\<close>

type_synonym mem = "nat \<Rightarrow> byte option"

text \<open>A read or write that touches an unmapped address is \<^term>\<open>None\<close>.\<close>

primrec load :: "mem \<Rightarrow> nat \<Rightarrow> nat \<Rightarrow> byte list option" where
  "load m a 0 = Some []"
| "load m a (Suc k) = (case m a of None \<Rightarrow> None | Some b \<Rightarrow> map_option ((#) b) (load m (Suc a) k))"

fun store :: "mem \<Rightarrow> nat \<Rightarrow> byte list \<Rightarrow> mem option" where
  "store m a [] = Some m"
| "store m a (b # bs) = (if m a = None then None else store (m(a \<mapsto> b)) (Suc a) bs)"

definition signed :: "nat \<Rightarrow> byte list \<Rightarrow> int" where
  "signed k bs = (let n = nat_of_bytes bs in
     if 2 * n < 256 ^ k then int n else int n - 256 ^ k)"

definition read_offset :: "mem \<Rightarrow> nat \<Rightarrow> (int \<times> nat) option" where
  "read_offset m pc = map_option (\<lambda>bs. (signed 2 bs, pc + 2)) (load m pc 2)"

definition read_uoffset :: "mem \<Rightarrow> nat \<Rightarrow> (nat \<times> nat) option" where
  "read_uoffset m pc = map_option (\<lambda>bs. (nat_of_bytes bs, pc + 2)) (load m pc 2)"

definition read_count :: "mem \<Rightarrow> nat \<Rightarrow> (nat \<times> nat) option" where
  "read_count m pc = map_option (\<lambda>bs. (nat_of_bytes bs, pc + 4)) (load m pc 4)"

definition read_size :: "mem \<Rightarrow> nat \<Rightarrow> (nat \<times> nat) option" where
  "read_size m pc = map_option (\<lambda>bs. (nat_of_bytes bs, pc + 8)) (load m pc 8)"

definition read_pointer :: "mem \<Rightarrow> nat \<Rightarrow> (nat \<times> nat) option" where
  "read_pointer m pc = map_option (\<lambda>bs. (nat_of_bytes bs, pc + 8)) (load m pc 8)"

end
