(* ===== verification/Table_Iface.thy ===== *)
theory Table_Iface
  imports Prelude
begin

text \<open>
  The interface between the hash tables of the program and the code that uses them to number
  things.  A table may in principle probe forever, so its operations are partial; the laws say
  that they are not on the tables the program builds.
\<close>

locale table_impl =
  fixes inv :: "'t \<Rightarrow> bool" and abs :: "'t \<Rightarrow> 'k \<Rightarrow> 'v option"
    and get :: "'t \<Rightarrow> 'k \<Rightarrow> 'v option option" and put :: "'t \<Rightarrow> 'k \<Rightarrow> 'v \<Rightarrow> 't option" and new :: 't
  assumes new_ok: "inv new" "abs new = Map.empty"
    and get_ok: "inv t \<Longrightarrow> get t k = Some (abs t k)"
    and put_ok: "inv t \<Longrightarrow> \<exists>t'. put t k v = Some t' \<and> inv t' \<and> abs t' = (abs t)(k \<mapsto> v)"
begin

lemma put_Some: "inv t \<Longrightarrow> put t k v = Some t' \<Longrightarrow> inv t' \<and> abs t' = (abs t)(k \<mapsto> v)"
  using put_ok [of t k v] by auto

lemma get_after_put:
  assumes "inv t" "put t k v = Some t'"
  shows "get t' k' = (if k' = k then Some (Some v) else get t k')"
  using put_Some [OF assms] get_ok assms(1) by simp

lemma get_new: "get new k = Some None"
  using new_ok get_ok [of new k] by simp

end

text \<open>Looking a key up and, when it is new, giving it the next number.\<close>

definition intern_with :: "('t \<Rightarrow> 'k \<Rightarrow> nat option option) \<Rightarrow> ('t \<Rightarrow> 'k \<Rightarrow> nat \<Rightarrow> 't option) \<Rightarrow> 'k \<Rightarrow> 't \<times> 'k list
    \<Rightarrow> (nat \<times> 't \<times> 'k list) option" where
  "intern_with get put k s = (case s of (t, ks) \<Rightarrow> do {
     r \<leftarrow> get t k;
     case r of
       Some i \<Rightarrow> Some (i, t, ks)
     | None \<Rightarrow> do { t' \<leftarrow> put t k (length ks); Some (length ks, t', ks @ [k]) } })"

text \<open>A map that numbers the elements of a list by their position.\<close>

definition numbers :: "('k \<Rightarrow> nat option) \<Rightarrow> 'k list \<Rightarrow> bool" where
  "numbers f ks \<longleftrightarrow> (\<forall>k i. f k = Some i \<longleftrightarrow> i < length ks \<and> ks ! i = k)"

lemma numbers_Nil: "numbers Map.empty []"
  by (simp add: numbers_def)

lemma numbers_None: "numbers f ks \<Longrightarrow> f k = None \<longleftrightarrow> k \<notin> set ks"
proof -
  assume n: "numbers f ks"
  have "f k \<noteq> None \<longleftrightarrow> (\<exists>i. f k = Some i)" by auto
  also have "\<dots> \<longleftrightarrow> (\<exists>i<length ks. ks ! i = k)" using n by (simp add: numbers_def)
  also have "\<dots> \<longleftrightarrow> k \<in> set ks" by (simp add: in_set_conv_nth)
  finally show ?thesis by blast
qed

lemma numbers_snoc:
  assumes "numbers f ks" "f k = None"
  shows "numbers (f(k \<mapsto> length ks)) (ks @ [k])"
  unfolding numbers_def
proof (intro allI)
  fix k' i
  have "ks ! i \<noteq> k" if "i < length ks"
    using assms(1) [unfolded numbers_def, rule_format, of k i] assms(2) that by auto
  moreover have "f k' = Some i \<longleftrightarrow> i < length ks \<and> ks ! i = k'" using assms(1) by (simp add: numbers_def)
  ultimately show "(f(k \<mapsto> length ks)) k' = Some i \<longleftrightarrow> i < length (ks @ [k]) \<and> (ks @ [k]) ! i = k'"
    by (cases "i < length ks"; cases "k' = k") (auto simp: nth_append less_Suc_eq)
qed

locale interner = table_impl inv abs get put new
  for inv :: "'t \<Rightarrow> bool" and abs :: "'t \<Rightarrow> 'k \<Rightarrow> nat option" and get put new
begin

text \<open>Interning keeps the numbering, never renumbers, and is the position of the key.\<close>

lemma intern_numbers:
  assumes "inv t" "numbers (abs t) ks"
  shows "\<exists>i t' ks'. intern_with get put k (t, ks) = Some (i, t', ks') \<and> inv t' \<and> numbers (abs t') ks'
    \<and> i < length ks' \<and> ks' ! i = k \<and> (ks' = ks \<or> k \<notin> set ks \<and> i = length ks \<and> ks' = ks @ [k])"
proof (cases "abs t k")
  case (Some i)
  then show ?thesis using assms get_ok [OF assms(1), of k] by (auto simp: intern_with_def numbers_def)
next
  case None
  from put_ok [OF assms(1), of k "length ks"] obtain t' where t':
    "put t k (length ks) = Some t'" "inv t'" "abs t' = (abs t)(k \<mapsto> length ks)" by blast
  then show ?thesis
    using None get_ok [OF assms(1), of k] numbers_snoc [OF assms(2) None] numbers_None [OF assms(2), of k]
    by (auto simp: intern_with_def)
qed

lemma intern_again:
  assumes "inv t" "numbers (abs t) ks" "intern_with get put k (t, ks) = Some (i, t', ks')"
  shows "intern_with get put k (t', ks') = Some (i, t', ks')"
proof -
  from intern_numbers [OF assms(1,2), of k] assms(3) have "inv t'" "numbers (abs t') ks'" "i < length ks'" "ks' ! i = k" by auto
  then have "get t' k = Some (Some i)" using get_ok [of t' k] by (simp add: numbers_def)
  then show ?thesis by (simp add: intern_with_def)
qed

end

end
