(* ===== verification/ParTable.thy ===== *)
theory ParTable
  imports Ir Table_Iface
begin

text \<open>
  The borrow checker's table of places (\<^verbatim>\<open>ParIdxTable\<close> of \<^verbatim>\<open>verification.c\<close>): a hash table with
  linear probing and a power of two as capacity.  The arrays \<^verbatim>\<open>keys\<close>, \<^verbatim>\<open>vals\<close> and \<^verbatim>\<open>used\<close> are one
  list of optional pairs, as a key or value is only read where \<^verbatim>\<open>used\<close> is set.  A probe that meets
  neither its key nor a free slot in a whole round never ends; it is \<^term>\<open>None\<close>.
\<close>

section \<open>Places\<close>

datatype par_kind = PAR_LOCAL | PAR_ARG | PAR_GLOBAL | PAR_STRUCT_FILED | PAR_ARR_MEMBER

record par =
  par_kind :: par_kind
  par_i :: nat
  par_parent :: nat

fun par_kind_num :: "par_kind \<Rightarrow> nat" where
  "par_kind_num PAR_LOCAL = 0"
| "par_kind_num PAR_ARG = 1"
| "par_kind_num PAR_GLOBAL = 2"
| "par_kind_num PAR_STRUCT_FILED = 3"
| "par_kind_num PAR_ARR_MEMBER = 4"

definition par_eq :: "par \<Rightarrow> par \<Rightarrow> bool" where
  "par_eq a b \<longleftrightarrow> par_kind a = par_kind b \<and> par_i a = par_i b \<and> par_parent a = par_parent b"

lemma par_eq_iff [simp]: "par_eq a b \<longleftrightarrow> a = b"
  by (auto simp: par_eq_def)

definition par_hash :: "par \<Rightarrow> nat" where
  "par_hash p =
     (let h = 1469598103934665603;
          h = u64 (xor h (par_kind_num (par_kind p)) * 1099511628211);
          h = u64 (xor h (par_i p) * 1099511628211);
          h = u64 (xor h (par_parent p) * 1099511628211) in h)"

section \<open>The table\<close>

type_synonym slots = "(par \<times> nat) option list"

record par_table =
  pt_slots :: slots
  pt_len :: nat

abbreviation pt_cap :: "par_table \<Rightarrow> nat" where "pt_cap t \<equiv> length (pt_slots t)"

text \<open>The index computations \<open>h & (cap - 1)\<close>.\<close>

definition mask_cap :: "nat \<Rightarrow> nat \<Rightarrow> nat" where
  "mask_cap c h = and h (c - 1)"

text \<open>The first slot from \<open>i\<close> on at which the loop stops, within \<open>n\<close> steps.\<close>

primrec probe :: "((par \<times> nat) option \<Rightarrow> bool) \<Rightarrow> slots \<Rightarrow> nat \<Rightarrow> nat \<Rightarrow> nat option" where
  "probe stop ss 0 i = None"
| "probe stop ss (Suc n) i =
     (if stop (ss ! i) then Some i else probe stop ss n (mask_cap (length ss) (i + 1)))"

text \<open>A key's probe stops at a free slot or at the key, a reinsertion at a free slot.\<close>

definition free_or :: "par \<Rightarrow> (par \<times> nat) option \<Rightarrow> bool" where
  "free_or k s = (case s of None \<Rightarrow> True | Some (k', v) \<Rightarrow> par_eq k' k)"

abbreviation is_free :: "(par \<times> nat) option \<Rightarrow> bool" where "is_free s \<equiv> s = None"

definition probe_from :: "((par \<times> nat) option \<Rightarrow> bool) \<Rightarrow> slots \<Rightarrow> par \<Rightarrow> nat option" where
  "probe_from stop ss k = probe stop ss (length ss) (mask_cap (length ss) (par_hash k))"

definition par_idx_table_free :: "par_table \<Rightarrow> par_table" where
  "par_idx_table_free t = \<lparr>pt_slots = [], pt_len = 0\<rparr>"

definition par_idx_table_reset :: "par_table \<Rightarrow> par_table" where
  "par_idx_table_reset t = \<lparr>pt_slots = replicate (pt_cap t) None, pt_len = 0\<rparr>"

text \<open>Doubling the table: every used slot of the old arrays is put into the new ones in order.\<close>

fun reinsert :: "slots \<Rightarrow> slots \<times> nat \<Rightarrow> (slots \<times> nat) option" where
  "reinsert [] s = Some s"
| "reinsert (None # old) s = reinsert old s"
| "reinsert (Some (k, v) # old) (ss, n) =
     (case probe_from is_free ss k of
        None \<Rightarrow> None
      | Some j \<Rightarrow> reinsert old (ss[j := Some (k, v)], n + 1))"

definition par_idx_table_grow :: "par_table \<Rightarrow> par_table option" where
  "par_idx_table_grow t =
     (let cap = (if pt_cap t \<noteq> 0 then pt_cap t * 2 else 16) in
      map_option (\<lambda>(ss, n). \<lparr>pt_slots = ss, pt_len = n\<rparr>) (reinsert (pt_slots t) (replicate cap None, 0)))"

text \<open>The outer option is termination, the inner one whether the key is there.\<close>

definition par_idx_table_get :: "par_table \<Rightarrow> par \<Rightarrow> nat option option" where
  "par_idx_table_get t k =
     (if pt_cap t = 0 then Some None
      else map_option (\<lambda>i. map_option snd (pt_slots t ! i)) (probe_from (free_or k) (pt_slots t) k))"

definition par_idx_table_put :: "par_table \<Rightarrow> par \<Rightarrow> nat \<Rightarrow> par_table option" where
  "par_idx_table_put t k v =
     do {
       t \<leftarrow> (if pt_cap t * 3 \<le> (pt_len t + 1) * 4 then par_idx_table_grow t else Some t);
       i \<leftarrow> probe_from (free_or k) (pt_slots t) k;
       Some (t\<lparr>pt_slots := (pt_slots t)[i := Some (k, v)],
               pt_len := (if pt_slots t ! i = None then pt_len t + 1 else pt_len t)\<rparr>)
     }"

end
