(* ===== verification/Context.thy ===== *)
theory Context
  imports ParTable
begin

text \<open>
  The context shared by the compiler, the checker and the frontend (\<^verbatim>\<open>CompileContext\<close> of
  \<^verbatim>\<open>verification.h\<close>), in two layers: what the bytecode compiler uses, and the places, handles
  and holds of the checker on top of it.
\<close>

section \<open>The compiler's part\<close>

text \<open>
  The fields of \<^verbatim>\<open>CompileContext\<close> the bytecode compiler uses.  \<open>x_placed\<close> counts the code buffers made so
  far; the parameter \<open>x_place\<close> gives the address of each.
\<close>

record compile_ctx =
  x_globals :: "global list"
  x_funcs :: "func list"
  x_code :: "vm_code list"
  x_code_cap :: nat
  x_placed :: nat
  x_place :: "nat \<Rightarrow> nat"

text \<open>The operands a signature asks for: its outputs, then its inputs.\<close>

definition sig_tids :: "sig \<Rightarrow> nat list" where
  "sig_tids s = map v_tid (s_outs s) @ map (\<lambda>i. v_tid (si_var i)) (s_ins s)"

definition sig_len :: "sig \<Rightarrow> nat" where
  "sig_len s = length (s_outs s) + length (s_ins s)"

section \<open>The checker's part\<close>

datatype life = LIFE_FREE | LIFE_UNIQUE | LIFE_SHARED

record code_loc =
  loc_block :: nat
  loc_op :: nat

record hold_chain =
  hc_par :: nat
  hc_site :: code_loc
  hc_parent :: nat
  hc_just_const :: bool

record handle =
  h_par :: par
  h_life :: life
  h_start :: nat
  h_num :: nat

definition NO_PARRENT :: nat where "NO_PARRENT = 4294967295"
definition PAR_IDX_INVALID :: nat where "PAR_IDX_INVALID = 4294967295"

record cctx = compile_ctx +
  v_globals_cap :: nat
  v_handles :: "handle list"
  v_holds :: "hold_chain list"
  v_table :: par_table
  v_pars :: "nat list"

definition comp_context_reset :: "cctx \<Rightarrow> cctx" where
  "comp_context_reset x = x\<lparr>v_handles := [], v_holds := [], v_pars := [], v_table := par_idx_table_reset (v_table x)\<rparr>"

definition comp_context_free :: "cctx \<Rightarrow> cctx" where
  "comp_context_free x = x\<lparr>x_globals := [], v_globals_cap := 0, x_funcs := [], x_code := vm_func_s_free (x_code x), x_code_cap := 0,
     v_handles := [], v_holds := [], v_table := par_idx_table_free (v_table x), v_pars := []\<rparr>"

text \<open>
  The number of a place: its position among the handles.  The assertion that the number fits
  \<^verbatim>\<open>par_idx\<close> is \<^term>\<open>None\<close>.
\<close>

definition fresh_handle :: "par \<Rightarrow> handle" where
  "fresh_handle p = \<lparr>h_par = p, h_life = LIFE_FREE, h_start = 0, h_num = 0\<rparr>"

definition comp_context_intern_par :: "cctx \<Rightarrow> par \<Rightarrow> (nat \<times> cctx) option" where
  "comp_context_intern_par x p = do {
     r \<leftarrow> par_idx_table_get (v_table x) p;
     case r of
       Some i \<Rightarrow> Some (i, x)
     | None \<Rightarrow>
         if W32 \<le> length (v_handles x) then None
         else do {
           t \<leftarrow> par_idx_table_put (v_table x) p (length (v_handles x));
           Some (length (v_handles x), x\<lparr>v_handles := v_handles x @ [fresh_handle p], v_table := t\<rparr>)
         }
   }"

end
