(* ===== verification/Compiler.thy ===== *)
theory Compiler
  imports Bytecode Layout Context
begin

text \<open>
  The bytecode compiler of \<^verbatim>\<open>vm.c\<close>, \<^verbatim>\<open>compile_op\<close> to \<^verbatim>\<open>vm_compile_no_defers\<close>.

  A C function that returns false or \<^verbatim>\<open>COMPILE_FAIL\<close> leaves the compiler as it is at that
  point: \<^verbatim>\<open>CFail\<close>.  \<^verbatim>\<open>CUndef\<close> stands for no return at all: a failed assertion, a read outside a
  table, a write through a dangling pointer, or fuel that ran out.
\<close>

section \<open>State\<close>

datatype reach = COMPILE_REACHABLE | COMPILE_UNREACHABLE

record var_layout =
  vl_tid :: nat
  vl_base :: int
  vl_live :: bool

record scope =
  sc_patches :: "nat list"
  sc_patches_cap :: nat
  sc_target :: nat
  sc_frame_size :: int
  sc_crash_depth :: nat

record compiler =
  c_func :: func
  c_ctx :: "compile_ctx option"
  c_alloc :: "nat \<Rightarrow> bool"
  c_code :: code_builder
  c_params :: "nat list"
  c_params_cap :: nat
  c_vars :: "var_layout list"
  c_scopes :: "scope list"
  c_scopes_cap :: nat
  c_frame_size :: int
  c_crash_depth :: nat

record compiler_state =
  st_params :: "nat list"
  st_vars :: "var_layout list"
  st_frame_size :: int
  st_crash_depth :: nat

datatype 'a cres = COk 'a compiler | CFail compiler | CUndef

fun cbind :: "'a cres \<Rightarrow> ('a \<Rightarrow> compiler \<Rightarrow> 'b cres) \<Rightarrow> 'b cres" where
  "cbind (COk x c) f = f x c"
| "cbind (CFail c) f = CFail c"
| "cbind CUndef f = CUndef"

text \<open>\<^verbatim>\<open>if(!step) return false;\<close> for a sequence of steps.\<close>

fun csteps :: "(compiler \<Rightarrow> unit cres) list \<Rightarrow> compiler \<Rightarrow> unit cres" where
  "csteps [] c = COk () c"
| "csteps (f # fs) c = cbind (f c) (\<lambda>_. csteps fs)"

definition cguard :: "bool \<Rightarrow> compiler \<Rightarrow> unit cres" where
  "cguard b c = (if b then COk () c else CFail c)"

section \<open>Emitting\<close>

definition emitc :: "((nat \<Rightarrow> bool) \<Rightarrow> code_builder \<Rightarrow> code_builder option) \<Rightarrow> compiler \<Rightarrow> unit cres" where
  "emitc f c = (case f (c_alloc c) (c_code c) of
     None \<Rightarrow> CFail c
   | Some cb \<Rightarrow> COk () (c\<lparr>c_code := cb\<rparr>))"

abbreviation eop :: "bytecode \<Rightarrow> compiler \<Rightarrow> unit cres" where "eop x \<equiv> emitc (\<lambda>al. emit_op al x)"
abbreviation eoffset :: "int \<Rightarrow> compiler \<Rightarrow> unit cres" where "eoffset x \<equiv> emitc (\<lambda>al. emit_offset al x)"
abbreviation euoffset :: "nat \<Rightarrow> compiler \<Rightarrow> unit cres" where "euoffset x \<equiv> emitc (\<lambda>al. emit_uoffset al x)"
abbreviation ecount :: "nat \<Rightarrow> compiler \<Rightarrow> unit cres" where "ecount x \<equiv> emitc (\<lambda>al. emit_count al x)"
abbreviation esize :: "nat \<Rightarrow> compiler \<Rightarrow> unit cres" where "esize x \<equiv> emitc (\<lambda>al. emit_size al x)"
abbreviation epointer :: "nat \<Rightarrow> compiler \<Rightarrow> unit cres" where "epointer x \<equiv> emitc (\<lambda>al. emit_pointer al x)"

abbreviation code_len :: "compiler \<Rightarrow> nat" where "code_len c \<equiv> length (cb_data (c_code c))"

definition patchc :: "nat \<Rightarrow> nat \<Rightarrow> compiler \<Rightarrow> unit cres" where
  "patchc at target c = (case patch_uoffset at target (c_code c) of
     None \<Rightarrow> CFail c
   | Some cb \<Rightarrow> COk () (c\<lparr>c_code := cb\<rparr>))"

definition push_type :: "nat \<Rightarrow> compiler \<Rightarrow> unit cres" where
  "push_type tid c = (case push_grow (c_alloc c) 16 4 tid (c_params c, c_params_cap c) of
     None \<Rightarrow> CFail c
   | Some (ps, cap) \<Rightarrow> COk () (c\<lparr>c_params := ps, c_params_cap := cap\<rparr>))"

definition pop_types :: "nat \<Rightarrow> compiler \<Rightarrow> unit cres" where
  "pop_types n c = (if length (c_params c) < n then CFail c
     else COk () (c\<lparr>c_params := take (length (c_params c) - n) (c_params c)\<rparr>))"

abbreviation c_types :: "compiler \<Rightarrow> ctype list" where "c_types c \<equiv> fn_types (c_func c)"

text \<open>An assertion in \<^verbatim>\<open>type_payload_size\<close>, an unchecked table access where the code indexes the table itself.\<close>

definition type_payload_size :: "nat \<Rightarrow> compiler \<Rightarrow> nat cres" where
  "type_payload_size tid c =
     (if type_idx_valid (c_types c) tid then COk (t_payload (c_types c ! tid)) c else CUndef)"

fun type_is_ref_kind :: "type_kind \<Rightarrow> bool" where
  "type_is_ref_kind (TYPE_SLICE e) = True"
| "type_is_ref_kind (TYPE_VIEW e) = True"
| "type_is_ref_kind _ = False"

definition type_is_slice_or_view :: "ctype list \<Rightarrow> nat \<Rightarrow> bool" where
  "type_is_slice_or_view types tid \<longleftrightarrow> type_idx_valid types tid \<and> type_is_ref_kind (t_kind (types ! tid))"

definition emit_slice_layout :: "nat \<Rightarrow> compiler \<Rightarrow> unit cres" where
  "emit_slice_layout elem_size = csteps [esize elem_size, esize type_slice_len_offset]"

definition emit_storage_add :: "int \<Rightarrow> compiler \<Rightarrow> unit cres" where
  "emit_storage_add amount = csteps
     [eop B_STORAGE_ADD, eoffset amount,
      \<lambda>c. let c = c\<lparr>c_frame_size := s16 (c_frame_size c + amount)\<rparr> in cguard (0 \<le> c_frame_size c) c]"

definition var_rel :: "compiler \<Rightarrow> nat \<Rightarrow> int" where
  "var_rel c idx = s16 (vl_base (c_vars c ! idx) - c_frame_size c)"

definition emit_push_var :: "nat \<Rightarrow> compiler \<Rightarrow> unit cres" where
  "emit_push_var idx c =
     (if length (fn_vars (c_func c)) \<le> idx \<or> \<not> vl_live (c_vars c ! idx) then CFail c
      else csteps [eop B_PUSH_VAR, \<lambda>c. eoffset (var_rel c idx) c, \<lambda>c. push_type (vl_tid (c_vars c ! idx)) c] c)"

definition emit_push_arg :: "nat \<Rightarrow> compiler \<Rightarrow> unit cres" where
  "emit_push_arg idx c =
     (if length (fn_vars (c_func c)) \<le> idx then CFail c
      else if \<not> type_idx_valid (c_types c) (v_tid (fn_vars (c_func c) ! idx)) then CFail c
      else csteps [eop B_PUSH_ARG, ecount idx, push_type (v_tid (fn_vars (c_func c) ! idx))] c)"

text \<open>The result is the position of the operand to patch.\<close>

definition emit_jump_placeholder :: "compiler \<Rightarrow> nat cres" where
  "emit_jump_placeholder c =
     cbind (eop B_JUMP c) (\<lambda>_ c. let patch = code_len c in
     cbind (euoffset 0 c) (\<lambda>_. COk patch))"

section \<open>Saving and restoring\<close>

definition state_of :: "compiler \<Rightarrow> compiler_state" where
  "state_of c = \<lparr>st_params = c_params c, st_vars = c_vars c, st_frame_size = c_frame_size c,
     st_crash_depth = c_crash_depth c\<rparr>"

definition state_save :: "compiler \<Rightarrow> compiler_state cres" where
  "state_save c =
     (if c_params c \<noteq> [] \<and> \<not> c_alloc c (length (c_params c) * 4) then CFail c
      else if c_vars c \<noteq> [] \<and> \<not> c_alloc c (length (c_vars c) * 8) then CFail c
      else COk (state_of c) c)"

definition state_restore :: "compiler_state \<Rightarrow> compiler \<Rightarrow> unit cres" where
  "state_restore s c =
     (let n = length (st_params s) in
      if c_params_cap c < n \<and> \<not> c_alloc c (n * 4) then CFail c
      else COk () (c\<lparr>c_params := st_params s, c_params_cap := max (c_params_cap c) n,
        c_vars := st_vars s, c_frame_size := st_frame_size s, c_crash_depth := st_crash_depth s\<rparr>))"

definition state_equal :: "compiler \<Rightarrow> compiler_state \<Rightarrow> bool" where
  "state_equal c s \<longleftrightarrow>
     c_frame_size c = st_frame_size s \<and> c_crash_depth c = st_crash_depth s \<and>
     length (c_params c) = length (st_params s) \<and> c_params c = st_params s \<and>
     list_all2 (\<lambda>v w. vl_tid v = vl_tid w \<and> vl_base v = vl_base w \<and> vl_live v = vl_live w)
       (c_vars c) (st_vars s)"

section \<open>Scopes\<close>

definition scope_push :: "int \<Rightarrow> compiler \<Rightarrow> unit cres" where
  "scope_push frame_size c =
     (let s = \<lparr>sc_patches = [], sc_patches_cap = 0, sc_target = W64 - 1, sc_frame_size = frame_size,
        sc_crash_depth = c_crash_depth c\<rparr> in
      case push_grow (c_alloc c) 16 48 s (c_scopes c, c_scopes_cap c) of
        None \<Rightarrow> CFail c
      | Some (ss, cap) \<Rightarrow> COk () (c\<lparr>c_scopes := ss, c_scopes_cap := cap\<rparr>))"

definition scope_add_patch :: "nat \<Rightarrow> nat \<Rightarrow> compiler \<Rightarrow> unit cres" where
  "scope_add_patch i patch c =
     (let s = c_scopes c ! i in
      case push_grow (c_alloc c) 8 8 patch (sc_patches s, sc_patches_cap s) of
        None \<Rightarrow> CFail c
      | Some (ps, cap) \<Rightarrow>
          COk () (c\<lparr>c_scopes := (c_scopes c)[i := s\<lparr>sc_patches := ps, sc_patches_cap := cap\<rparr>]\<rparr>))"

text \<open>The result says whether some break targeted the scope.\<close>

definition scope_finish :: "nat \<Rightarrow> compiler \<Rightarrow> bool cres" where
  "scope_finish target c =
     (if c_scopes c = [] then CUndef
      else
        let s = last (c_scopes c); c = c\<lparr>c_scopes := butlast (c_scopes c) @ [s\<lparr>sc_target := target\<rparr>]\<rparr> in
        cbind (csteps (map (\<lambda>p. patchc p target) (sc_patches s)) c)
          (\<lambda>_ c. COk (sc_patches s \<noteq> []) (c\<lparr>c_scopes := butlast (c_scopes c)\<rparr>)))"

section \<open>Calls\<close>

definition ensure_code_slot :: "(nat \<Rightarrow> bool) \<Rightarrow> nat \<Rightarrow> compile_ctx \<Rightarrow> compile_ctx option" where
  "ensure_code_slot can_alloc idx x =
     (if idx < length (x_code x) then Some x
      else
        let fill = x_code x @ replicate (idx + 1 - length (x_code x)) no_code in
        if x_code_cap x \<le> idx then
          (let cap = grow_cap (if x_code_cap x = 0 then 8 else x_code_cap x) (idx + 1) in
           if can_alloc (cap * 16) then Some (x\<lparr>x_code := fill, x_code_cap := cap\<rparr>) else None)
        else Some (x\<lparr>x_code := fill\<rparr>))"

text \<open>
  \<open>K\<close> compiles a function of the context.  The code keeps a pointer into the slot table across
  that compilation and writes through it, which is undefined once the table was reallocated.
\<close>

type_synonym compile_fn = "nat \<Rightarrow> compile_ctx \<Rightarrow> (vm_code \<times> compile_ctx) option"

definition compile_context_func_code :: "compile_fn \<Rightarrow> nat \<Rightarrow> compiler \<Rightarrow> nat cres" where
  "compile_context_func_code K idx c = (case c_ctx c of
     None \<Rightarrow> CFail c
   | Some x \<Rightarrow>
       if length (x_funcs x) \<le> idx then CFail c
       else case ensure_code_slot (c_alloc c) idx x of
         None \<Rightarrow> CFail c
       | Some x \<Rightarrow>
           if code_addr (x_code x ! idx) \<noteq> 0 then COk (code_addr (x_code x ! idx)) (c\<lparr>c_ctx := Some x\<rparr>)
           else case K idx x of
             None \<Rightarrow> CUndef
           | Some (code, y) \<Rightarrow>
               if x_code_cap y \<noteq> x_code_cap x then CUndef
               else
                 let c = c\<lparr>c_ctx := Some (y\<lparr>x_code := (x_code y)[idx := code]\<rparr>)\<rparr> in
                 if code_addr code = 0 then CFail c else COk (code_addr code) c)"

definition compile_func_call :: "compile_fn \<Rightarrow> nat \<Rightarrow> compiler \<Rightarrow> unit cres" where
  "compile_func_call K idx c =
     cbind (compile_context_func_code K idx c) (\<lambda>addr c.
       let s = fn_sig (x_funcs (the (c_ctx c)) ! idx); ps = c_params c in
       if length ps < sig_len s then CFail c
       else if drop (length ps - sig_len s) ps \<noteq> sig_tids s then CFail c
       else csteps [eop B_CALL, epointer addr, ecount (sig_len s), pop_types (u32 (length (s_ins s)))] c)"

definition compile_native_call :: "compiler \<Rightarrow> unit cres" where
  "compile_native_call c =
     (let ps = c_params c; types = c_types c in
      if ps = [] then CFail c
      else if \<not> type_idx_valid types (last ps) then CFail c
      else case t_kind (types ! last ps) of
        TYPE_NATIVE_FUNC_POINTER s \<Rightarrow>
          if length ps < sig_len s + 1 then CFail c
          else if drop (length ps - 1 - sig_len s) (butlast ps) \<noteq> sig_tids s then CFail c
          else if 4294967295 < length (s_ins s) then CFail c
          else csteps [eop B_CALL_NATIVE, ecount (length (s_ins s)), pop_types (u32 (length (s_ins s) + 1))] c
      | _ \<Rightarrow> CFail c)"

section \<open>Operations\<close>

text \<open>The type on top of the parameter stack, and the one below it.\<close>

abbreviation top0 :: "compiler \<Rightarrow> nat" where "top0 c \<equiv> c_params c ! (length (c_params c) - 1)"
abbreviation top1 :: "compiler \<Rightarrow> nat" where "top1 c \<equiv> c_params c ! (length (c_params c) - 2)"

fun binop_code :: "op_kind \<Rightarrow> bytecode" where
  "binop_code OP_SUB_ASSIGN = B_SUB"
| "binop_code OP_MUL_ASSIGN = B_MUL"
| "binop_code OP_DIV_ASSIGN = B_DIV"
| "binop_code OP_AND_ASSIGN = B_AND"
| "binop_code OP_OR_ASSIGN = B_OR"
| "binop_code OP_XOR_ASSIGN = B_XOR"
| "binop_code _ = B_ADD"

definition compile_binop :: "op_kind \<Rightarrow> compiler \<Rightarrow> unit cres" where
  "compile_binop k c =
     (if length (c_params c) < 2 then CFail c
      else if top1 c \<noteq> TYPE_INT_ID then CFail c
      else if top0 c \<noteq> TYPE_INT_ID then CFail c
      else csteps [eop (binop_code k), pop_types 1] c)"

definition compile_push_global :: "nat \<Rightarrow> compiler \<Rightarrow> unit cres" where
  "compile_push_global idx c = (case c_ctx c of
     None \<Rightarrow> CFail c
   | Some x \<Rightarrow>
       if length (x_globals x) \<le> idx then CFail c
       else let g = x_globals x ! idx in
         if \<not> type_idx_valid (c_types c) (v_tid (g_var g)) then CFail c
         else csteps [eop B_PUSH_GLOBAL, epointer (g_mem g), push_type (v_tid (g_var g))] c)"

definition compile_arr_at :: "compiler \<Rightarrow> unit cres" where
  "compile_arr_at c =
     (if length (c_params c) < 2 then CFail c
      else if top0 c \<noteq> TYPE_INT_ID then CFail c
      else if \<not> type_idx_valid (c_types c) (top1 c) then CFail c
      else case t_kind (c_types c ! top1 c) of
        TYPE_ARRAY elem capacity data_offset \<Rightarrow>
          cbind (type_payload_size elem c) (\<lambda>elem_size.
            csteps [eop B_PUSH_ARR_AT, esize data_offset, esize elem_size, ecount capacity, pop_types 2, push_type elem])
      | _ \<Rightarrow> CFail c)"

definition compile_arr_push :: "compiler \<Rightarrow> unit cres" where
  "compile_arr_push c =
     (if length (c_params c) < 2 then CFail c
      else if \<not> type_idx_valid (c_types c) (top1 c) then CFail c
      else case t_kind (c_types c ! top1 c) of
        TYPE_ARRAY elem capacity data_offset \<Rightarrow>
          if top0 c \<noteq> elem then CFail c
          else cbind (type_payload_size elem c) (\<lambda>elem_size.
            csteps [eop B_ARR_PUSH, esize data_offset, esize elem_size, ecount capacity, pop_types 1])
      | _ \<Rightarrow> CFail c)"

definition compile_arr_drop :: "compiler \<Rightarrow> unit cres" where
  "compile_arr_drop c =
     (if length (c_params c) < 2 then CFail c
      else if top0 c \<noteq> TYPE_INT_ID then CFail c
      else if \<not> type_idx_valid (c_types c) (top1 c) then CFail c
      else case t_kind (c_types c ! top1 c) of
        TYPE_ARRAY elem capacity data_offset \<Rightarrow> csteps [eop B_ARR_DROP, pop_types 1] c
      | _ \<Rightarrow> CFail c)"

definition compile_slice_from_ar :: "compiler \<Rightarrow> unit cres" where
  "compile_slice_from_ar c =
     (if length (c_params c) < 2 then CFail c
      else if \<not> type_idx_valid (c_types c) (top0 c) then CFail c
      else case t_kind (c_types c ! top0 c) of
        TYPE_ARRAY elem capacity data_offset \<Rightarrow>
          if \<not> type_is_slice_or_view (c_types c) (top1 c) then CFail c
          else if ref_elem (t_kind (c_types c ! top1 c)) \<noteq> elem then CFail c
          else cbind (type_payload_size elem c) (\<lambda>elem_size.
            csteps [eop B_SLICE_FROM_ARR, esize data_offset, emit_slice_layout elem_size, pop_types 1])
      | _ \<Rightarrow> CFail c)"

definition compile_slice_from_one :: "compiler \<Rightarrow> unit cres" where
  "compile_slice_from_one c =
     (if length (c_params c) < 2 then CFail c
      else if \<not> type_idx_valid (c_types c) (top1 c) then CFail c
      else case t_kind (c_types c ! top1 c) of
        TYPE_SLICE elem \<Rightarrow>
          if elem \<noteq> top0 c then CFail c
          else csteps [eop B_SLICE_FROM_ONE, esize type_slice_len_offset, pop_types 1] c
      | _ \<Rightarrow> CFail c)"

definition compile_slice_at :: "compiler \<Rightarrow> unit cres" where
  "compile_slice_at c =
     (if length (c_params c) < 2 then CFail c
      else if top0 c \<noteq> TYPE_INT_ID then CFail c
      else if \<not> type_is_slice_or_view (c_types c) (top1 c) then CFail c
      else let elem = ref_elem (t_kind (c_types c ! top1 c)) in
        cbind (type_payload_size elem c) (\<lambda>elem_size.
          csteps [eop B_PUSH_SLICE_AT, emit_slice_layout elem_size, pop_types 2, push_type elem]))"

definition compile_slice_move :: "bytecode \<Rightarrow> compiler \<Rightarrow> unit cres" where
  "compile_slice_move x c =
     (if length (c_params c) < 2 then CFail c
      else if top0 c \<noteq> TYPE_INT_ID then CFail c
      else if \<not> type_idx_valid (c_types c) (top1 c) then CFail c
      else case t_kind (c_types c ! top1 c) of
        TYPE_SLICE elem \<Rightarrow>
          cbind (type_payload_size elem c) (\<lambda>elem_size. csteps [eop x, emit_slice_layout elem_size, pop_types 1])
      | _ \<Rightarrow> CFail c)"

definition compile_struct_at :: "nat \<Rightarrow> compiler \<Rightarrow> unit cres" where
  "compile_struct_at idx c =
     (if c_params c = [] then CFail c
      else if \<not> type_idx_valid (c_types c) (top0 c) then CFail c
      else case t_kind (c_types c ! top0 c) of
        TYPE_STRUCT fs \<Rightarrow>
          if length fs \<le> idx then CFail c
          else if \<not> type_idx_valid (c_types c) (f_tid (fs ! idx)) then CFail c
          else csteps [eop B_PUSH_STRUCT_AT, esize (f_offset (fs ! idx)),
             \<lambda>c. COk () (c\<lparr>c_params := (c_params c)[length (c_params c) - 1 := f_tid (fs ! idx)]\<rparr>)] c
      | _ \<Rightarrow> CFail c)"

fun compile_op :: "compile_fn \<Rightarrow> op_kind \<Rightarrow> nat \<Rightarrow> compiler \<Rightarrow> unit cres" where
  "compile_op K OP_NULL extra c = COk () c"
| "compile_op K OP_CALL extra c = compile_func_call K extra c"
| "compile_op K OP_CALL_NATIVE_ON_STACK extra c = compile_native_call c"
| "compile_op K OP_ASSIGN extra c =
     (if length (c_params c) < 2 then CFail c
      else if top1 c \<noteq> top0 c then CFail c
      else csteps [eop B_COPY, \<lambda>c. cbind (type_payload_size (top1 c) c) esize, pop_types 1] c)"
| "compile_op K OP_BIT_NOT_ASSIGN extra c =
     (if c_params c = [] \<or> top0 c \<noteq> TYPE_INT_ID then CFail c else eop B_BIT_NOT c)"
| "compile_op K OP_DROP extra c = csteps [pop_types extra, eop B_DROP_N, ecount extra] c"
| "compile_op K OP_PUSH_VAR extra c = emit_push_var extra c"
| "compile_op K OP_PUSH_ARG extra c = emit_push_arg extra c"
| "compile_op K OP_PUSH_GLOBAL extra c = compile_push_global extra c"
| "compile_op K OP_ARR_AT extra c = compile_arr_at c"
| "compile_op K OP_ARR_PUSH extra c = compile_arr_push c"
| "compile_op K OP_ARR_DROP extra c = compile_arr_drop c"
| "compile_op K OP_SLICE_FROM_AR extra c = compile_slice_from_ar c"
| "compile_op K OP_SLICE_FROM_ONE extra c = compile_slice_from_one c"
| "compile_op K OP_SLICE_AT extra c = compile_slice_at c"
| "compile_op K OP_SLICE_INC extra c = compile_slice_move B_SLICE_INC c"
| "compile_op K OP_SLICE_DEC extra c = compile_slice_move B_SLICE_DEC c"
| "compile_op K OP_STRUCT_AT extra c = compile_struct_at extra c"
| "compile_op K OP_ADD_ASSIGN extra c = compile_binop OP_ADD_ASSIGN c"
| "compile_op K OP_SUB_ASSIGN extra c = compile_binop OP_SUB_ASSIGN c"
| "compile_op K OP_MUL_ASSIGN extra c = compile_binop OP_MUL_ASSIGN c"
| "compile_op K OP_DIV_ASSIGN extra c = compile_binop OP_DIV_ASSIGN c"
| "compile_op K OP_AND_ASSIGN extra c = compile_binop OP_AND_ASSIGN c"
| "compile_op K OP_OR_ASSIGN extra c = compile_binop OP_OR_ASSIGN c"
| "compile_op K OP_XOR_ASSIGN extra c = compile_binop OP_XOR_ASSIGN c"

section \<open>Blocks\<close>

text \<open>
  The operations \<open>start\<close> to \<open>start + len\<close> of the function; an index beyond the table is an
  unchecked read.
\<close>

fun compile_ops :: "compile_fn \<Rightarrow> nat list \<Rightarrow> compiler \<Rightarrow> unit cres" where
  "compile_ops K [] c = COk () c"
| "compile_ops K (i # is) c =
     (if length (fn_ops (c_func c)) \<le> i then CUndef
      else let x = fn_ops (c_func c) ! i in
        cbind (compile_op K (o_kind x) (o_extra x) c) (\<lambda>_. compile_ops K is))"

definition op_indices :: "op_range \<Rightarrow> nat list" where
  "op_indices r = map (\<lambda>i. u32 (r_start r + i)) [0..<r_len r]"

definition compile_basic :: "compile_fn \<Rightarrow> op_range \<Rightarrow> compiler \<Rightarrow> reach cres" where
  "compile_basic K r c =
     (let start_params = length (c_params c) in
      cbind (compile_ops K (op_indices r) c) (\<lambda>_ c.
        if length (c_params c) < start_params then CFail c
        else let extra = u32 (length (c_params c) - start_params) in
          cbind (if extra = 0 then COk () c else csteps [eop B_DROP_N, ecount extra, pop_types extra] c)
            (\<lambda>_. COk COMPILE_REACHABLE)))"

definition compile_cond :: "compile_fn \<Rightarrow> op_range \<Rightarrow> compiler \<Rightarrow> unit cres" where
  "compile_cond K r c =
     (let n = length (fn_ops (c_func c)); start_params = length (c_params c) in
      if n < r_start r \<or> n - r_start r < r_len r then CFail c
      else cbind (compile_ops K (op_indices r) c) (\<lambda>_ c.
        if length (c_params c) \<noteq> start_params + 1 then CFail c
        else cguard (top0 c = TYPE_INT_ID) c))"

definition compile_break :: "nat \<Rightarrow> compiler \<Rightarrow> reach cres" where
  "compile_break level c =
     (if level = 0 \<or> length (c_scopes c) < level then CFail c
      else
        let ti = length (c_scopes c) - level; target = c_scopes c ! ti;
            cleanup = s16 (sc_frame_size target - c_frame_size c) in
        cbind (csteps (replicate (c_crash_depth c - sc_crash_depth target) (eop B_POP_CRASH)) c) (\<lambda>_ c.
        cbind (if cleanup = 0 then COk () c else csteps [eop B_STORAGE_ADD, eoffset cleanup] c) (\<lambda>_ c.
        cbind (emit_jump_placeholder c) (\<lambda>patch c.
        cbind (scope_add_patch ti patch c) (\<lambda>_. COk COMPILE_UNREACHABLE)))))"

type_synonym block_fn = "nat \<Rightarrow> compiler \<Rightarrow> reach cres"

text \<open>The loop of \<^verbatim>\<open>compile_many\<close>; unreachable children are skipped, but their links are checked.\<close>

fun many_children :: "block_fn \<Rightarrow> nat \<Rightarrow> reach \<Rightarrow> nat \<Rightarrow> nat \<Rightarrow> compiler \<Rightarrow> reach cres" where
  "many_children B 0 r child chain c = CUndef"
| "many_children B (Suc n) r child chain c =
     (if child = BLOCK_INVALID then COk r c
      else cbind (if r = COMPILE_UNREACHABLE then COk r c else B child c) (\<lambda>r c.
        if chain = BLOCK_INVALID then COk r c
        else if length (fn_blocks (c_func c)) \<le> chain then CFail c
        else case fn_blocks (c_func c) ! chain of
          BLOCK_CHAIN cur nxt \<Rightarrow> many_children B n r cur nxt c
        | _ \<Rightarrow> CFail c))"

definition scope_result :: "reach \<Rightarrow> bool \<Rightarrow> reach" where
  "scope_result r had_breaks =
     (if r = COMPILE_REACHABLE \<or> had_breaks then COMPILE_REACHABLE else COMPILE_UNREACHABLE)"

definition compile_many :: "block_fn \<Rightarrow> nat \<Rightarrow> nat \<Rightarrow> nat \<Rightarrow> compiler \<Rightarrow> reach cres" where
  "compile_many B n cur nxt c =
     cbind (scope_push (c_frame_size c) c) (\<lambda>_ c.
     cbind (many_children B n COMPILE_REACHABLE cur nxt c) (\<lambda>r c.
     cbind (scope_finish (code_len c) c) (\<lambda>had_breaks. COk (scope_result r had_breaks))))"

definition set_var :: "nat \<Rightarrow> var_layout \<Rightarrow> compiler \<Rightarrow> compiler" where
  "set_var v l c = c\<lparr>c_vars := (c_vars c)[v := l]\<rparr>"

definition kill_var :: "nat \<Rightarrow> compiler \<Rightarrow> compiler" where
  "kill_var v c = set_var v ((c_vars c ! v)\<lparr>vl_live := False\<rparr>) c"

definition compile_var :: "block_fn \<Rightarrow> nat \<Rightarrow> nat \<Rightarrow> compiler \<Rightarrow> reach cres" where
  "compile_var B v body c =
     (if length (fn_vars (c_func c)) \<le> v then CFail c
      else let tid = v_tid (fn_vars (c_func c) ! v) in
        if \<not> type_idx_valid (c_types c) tid then CFail c
        else let old_frame = c_frame_size c; size = t_size (c_types c ! tid) in
          if 32767 < size then CFail c
          else
            cbind (scope_push old_frame c) (\<lambda>_ c.
            cbind (emit_storage_add (int size) (set_var v \<lparr>vl_tid = tid, vl_base = c_frame_size c, vl_live = True\<rparr> c)) (\<lambda>_ c.
            cbind (B body c) (\<lambda>r c.
            cbind (if r = COMPILE_REACHABLE then emit_storage_add (- int size) (kill_var v c) else COk () c) (\<lambda>_ c.
            cbind (scope_finish (code_len c) c) (\<lambda>had_breaks c.
              COk (scope_result r had_breaks) ((kill_var v c)\<lparr>c_frame_size := old_frame\<rparr>)))))))"

text \<open>The end of \<^verbatim>\<open>compile_branch\<close>, from the rejoin on.\<close>

definition branch_join :: "(nat \<times> compiler_state) option \<Rightarrow> compiler_state option \<Rightarrow> compiler \<Rightarrow> reach cres" where
  "branch_join yes no c =
     cbind (case yes of None \<Rightarrow> COk () c | Some (end_patch, s) \<Rightarrow> patchc end_patch (code_len c) c) (\<lambda>_ c.
     (case (yes, no) of
        (Some (_, ys), Some ns) \<Rightarrow>
          cbind (state_restore ys c) (\<lambda>_ c. if state_equal c ns then COk COMPILE_REACHABLE c else CFail c)
      | (Some (_, ys), None) \<Rightarrow> cbind (state_restore ys c) (\<lambda>_. COk COMPILE_REACHABLE)
      | (None, Some ns) \<Rightarrow> cbind (state_restore ns c) (\<lambda>_. COk COMPILE_REACHABLE)
      | (None, None) \<Rightarrow> COk COMPILE_UNREACHABLE c))"

definition compile_branch :: "compile_fn \<Rightarrow> block_fn \<Rightarrow> op_range \<Rightarrow> nat \<Rightarrow> nat \<Rightarrow> compiler \<Rightarrow> reach cres" where
  "compile_branch K B cond yes no c =
     cbind (state_save c) (\<lambda>saved c.
     cbind (compile_cond K cond c) (\<lambda>_ c.
     cbind (csteps [eop B_BRANCH_TOP, pop_types 1] c) (\<lambda>_ c.
     let yes_patch = code_len c in
     cbind (euoffset 0 c) (\<lambda>_ c.
     let no_patch = code_len c in
     cbind (euoffset 0 c) (\<lambda>_ c.
     cbind (patchc yes_patch (code_len c) c) (\<lambda>_ c.
     cbind (B yes c) (\<lambda>yes_r c.
     cbind (if yes_r = COMPILE_REACHABLE
            then cbind (state_save c) (\<lambda>ys c. cbind (emit_jump_placeholder c) (\<lambda>p. COk (Some (p, ys))))
            else COk None c) (\<lambda>ys c.
     cbind (state_restore saved c) (\<lambda>_ c.
     cbind (patchc no_patch (code_len c) c) (\<lambda>_ c.
     cbind (B no c) (\<lambda>no_r c.
     cbind (if no_r = COMPILE_REACHABLE then cbind (state_save c) (\<lambda>ns. COk (Some ns)) else COk None c) (\<lambda>ns c.
     branch_join ys ns c))))))))))))"

text \<open>The jump back to the head of a loop is narrowed to its operand without a check.\<close>

definition compile_loop :: "block_fn \<Rightarrow> nat \<Rightarrow> compiler \<Rightarrow> reach cres" where
  "compile_loop B body c =
     (let start = code_len c; frame = c_frame_size c in
      cbind (state_save c) (\<lambda>head c.
      cbind (scope_push frame c) (\<lambda>_ c.
      cbind (B body c) (\<lambda>body_r c.
      cbind (if body_r = COMPILE_REACHABLE
             then (if state_equal c head then csteps [eop B_JUMP, euoffset (u16 start)] c else CFail c)
             else COk () c) (\<lambda>_ c.
      cbind (scope_finish (code_len c) c) (\<lambda>had_breaks c.
      cbind (state_restore head c) (\<lambda>_.
        COk (if had_breaks then COMPILE_REACHABLE else COMPILE_UNREACHABLE))))))))"

definition compile_crash_pad :: "block_fn \<Rightarrow> nat \<Rightarrow> nat \<Rightarrow> compiler \<Rightarrow> reach cres" where
  "compile_crash_pad B body pad c =
     cbind (state_save c) (\<lambda>saved c.
     cbind (eop B_PUSH_CRASH c) (\<lambda>_ c.
     let pad_patch = code_len c in
     cbind (euoffset 0 c) (\<lambda>_ c.
     cbind (B body (c\<lparr>c_crash_depth := c_crash_depth c + 1\<rparr>)) (\<lambda>body_r c.
     cbind (if body_r = COMPILE_REACHABLE
            then cbind (eop B_POP_CRASH c) (\<lambda>_ c.
                 cbind (state_save (c\<lparr>c_crash_depth := c_crash_depth c - 1\<rparr>)) (\<lambda>bs c.
                 cbind (emit_jump_placeholder c) (\<lambda>p. COk (Some (p, bs)))))
            else COk None c) (\<lambda>end_patch c.
     cbind (state_restore saved c) (\<lambda>_ c.
     cbind (patchc pad_patch (code_len c) c) (\<lambda>_ c.
     cbind (B pad c) (\<lambda>pad_r c.
     cbind (if pad_r = COMPILE_REACHABLE then eop B_CRASH c else COk () c) (\<lambda>_ c.
     (case end_patch of
        None \<Rightarrow> COk COMPILE_UNREACHABLE c
      | Some (p, bs) \<Rightarrow>
          cbind (patchc p (code_len c) c) (\<lambda>_ c.
          cbind (state_restore bs c) (\<lambda>_. COk COMPILE_REACHABLE))))))))))))"

primrec compile_block :: "nat \<Rightarrow> compile_fn \<Rightarrow> block_fn" where
  "compile_block 0 K = (\<lambda>idx c. CUndef)"
| "compile_block (Suc n) K = (\<lambda>idx c.
     if length (fn_blocks (c_func c)) \<le> idx then CFail c
     else case fn_blocks (c_func c) ! idx of
       BLOCK_BASIC r \<Rightarrow> compile_basic K r c
     | BLOCK_MANY cur nxt \<Rightarrow> compile_many (compile_block n K) n cur nxt c
     | BLOCK_CHAIN cur nxt \<Rightarrow> CFail c
     | BLOCK_CRASH \<Rightarrow> cbind (eop B_CRASH c) (\<lambda>_. COk COMPILE_UNREACHABLE)
     | BLOCK_HARD_CRASH \<Rightarrow> cbind (eop B_HARD_CRASH c) (\<lambda>_. COk COMPILE_UNREACHABLE)
     | BLOCK_CRASH_PAD body pad \<Rightarrow> compile_crash_pad (compile_block n K) body pad c
     | BLOCK_BRANCH cond yes no \<Rightarrow> compile_branch K (compile_block n K) cond yes no c
     | BLOCK_LOOP body \<Rightarrow> compile_loop (compile_block n K) body c
     | BLOCK_BREAK level \<Rightarrow> compile_break level c
     | BLOCK_VAR v body \<Rightarrow> compile_var (compile_block n K) v body c
     | BLOCK_DEFER nxt defer \<Rightarrow> CFail c)"

section \<open>Functions\<close>

definition compiler_start :: "(nat \<Rightarrow> bool) \<Rightarrow> func \<Rightarrow> compile_ctx option \<Rightarrow> compiler" where
  "compiler_start can_alloc f x = \<lparr>c_func = f, c_ctx = x, c_alloc = can_alloc,
     c_code = \<lparr>cb_data = [], cb_cap = 0\<rparr>, c_params = [], c_params_cap = 0,
     c_vars = map (\<lambda>v. \<lparr>vl_tid = v_tid v, vl_base = 0, vl_live = False\<rparr>) (fn_vars f),
     c_scopes = [], c_scopes_cap = 0, c_frame_size = 0, c_crash_depth = 0\<rparr>"

definition emit_epilogue :: "compiler \<Rightarrow> unit cres" where
  "emit_epilogue c =
     (let n = length (s_ins (fn_sig (c_func c))) in
      if 4294967295 < n then CFail c
      else csteps ((if n = 0 then [] else [eop B_DROP_N, ecount n]) @ [eop B_RET]) c)"

text \<open>
  The address of the finished buffer is the next one the context places; without a context
  the caller is told the first one.
\<close>

definition placed :: "nat \<Rightarrow> compiler \<Rightarrow> vm_code \<times> compile_ctx option" where
  "placed addr0 c = (case c_ctx c of
     None \<Rightarrow> (\<lparr>code_addr = addr0, code_bytes = cb_data (c_code c)\<rparr>, None)
   | Some x \<Rightarrow> (\<lparr>code_addr = x_place x (x_placed x), code_bytes = cb_data (c_code c)\<rparr>,
        Some (x\<lparr>x_placed := x_placed x + 1\<rparr>)))"

definition compile_body :: "nat \<Rightarrow> (nat \<Rightarrow> bool) \<Rightarrow> nat \<Rightarrow> compile_fn \<Rightarrow> func \<Rightarrow> compile_ctx option
    \<Rightarrow> (vm_code \<times> compile_ctx option) option" where
  "compile_body n can_alloc addr0 K f x =
     (if fn_blocks f = [] then Some (no_code, x)
      else case type_layout_all (fn_types f) of
        None \<Rightarrow> None
      | Some (False, types) \<Rightarrow> Some (no_code, x)
      | Some (True, types) \<Rightarrow>
          if fn_vars f \<noteq> [] \<and> \<not> can_alloc (length (fn_vars f) * 8) then Some (no_code, x)
          else case cbind (compile_block n K 0 (compiler_start can_alloc (f\<lparr>fn_types := types\<rparr>) x)) (\<lambda>_. emit_epilogue) of
            COk _ c \<Rightarrow> Some (placed addr0 c)
          | CFail c \<Rightarrow> Some (no_code, c_ctx c)
          | CUndef \<Rightarrow> None)"

text \<open>
  \<open>d\<close> bounds the depth of nested compilations: the code itself does not notice a function that
  calls itself, directly or not, and recurses forever.
\<close>

primrec vm_compile_no_defers :: "nat \<Rightarrow> nat \<Rightarrow> (nat \<Rightarrow> bool) \<Rightarrow> nat \<Rightarrow> func \<Rightarrow> compile_ctx option
    \<Rightarrow> (vm_code \<times> compile_ctx option) option" where
  "vm_compile_no_defers 0 n can_alloc addr0 f x = None"
| "vm_compile_no_defers (Suc d) n can_alloc addr0 f x =
     compile_body n can_alloc addr0
       (\<lambda>idx y. map_option (\<lambda>(code, y'). (code, the y'))
          (vm_compile_no_defers d n can_alloc addr0 (x_funcs y ! idx) (Some y))) f x"

end
