(* ===== verification/Compiler_Inv.thy ===== *)
theory Compiler_Inv
  imports Compiler "HOL-Library.Sublist"
begin

text \<open>
  The invariant of the bytecode compiler: live variables lie in the frame and apart from each other,
  scopes are nested, and every construct leaves frame, scopes, crash depth and operands as they were.
\<close>

section \<open>Postconditions\<close>

definition cpost :: "'a cres \<Rightarrow> ('a \<Rightarrow> compiler \<Rightarrow> bool) \<Rightarrow> bool" where
  "cpost m Q = (case m of COk x c \<Rightarrow> Q x c | _ \<Rightarrow> True)"

lemma cpost_simps [simp]:
  "cpost (COk x c) Q = Q x c"
  "cpost (CFail c) Q"
  "cpost CUndef Q"
  "cpost (if b then m else m') Q = (if b then cpost m Q else cpost m' Q)"
  by (simp_all add: cpost_def)

lemma cpost_cbind [simp]: "cpost (cbind m f) Q = cpost m (\<lambda>x c. cpost (f x c) Q)"
  by (cases m) simp_all

lemma cpost_mono: "cpost m P \<Longrightarrow> (\<And>x c. P x c \<Longrightarrow> Q x c) \<Longrightarrow> cpost m Q"
  by (cases m) auto

lemma cpostD: "cpost m Q \<Longrightarrow> m = COk x c \<Longrightarrow> Q x c"
  by simp

lemma cpost_csteps:
  assumes "P c" "\<And>f c. f \<in> set fs \<Longrightarrow> P c \<Longrightarrow> cpost (f c) (\<lambda>_. P)"
  shows "cpost (csteps fs c) (\<lambda>_. P)"
  using assms
proof (induction fs arbitrary: c)
  case (Cons f fs)
  have "cpost (f c) (\<lambda>_. P)" using Cons.prems by simp
  then show ?case using Cons.IH Cons.prems(2) by (auto elim!: cpost_mono)
qed simp

lemma cpost_csteps_Cons [simp]:
  "cpost (csteps (f # fs) c) Q = cpost (f c) (\<lambda>_ c. cpost (csteps fs c) Q)"
  "cpost (csteps [] c) Q = Q () c"
  by simp_all

section \<open>What an operation leaves alone\<close>

definition ops_frame :: "compiler \<Rightarrow> compiler \<Rightarrow> bool" where
  "ops_frame c c' \<longleftrightarrow> c_func c' = c_func c \<and> c_alloc c' = c_alloc c \<and> c_vars c' = c_vars c
     \<and> c_scopes c' = c_scopes c \<and> c_frame_size c' = c_frame_size c \<and> c_crash_depth c' = c_crash_depth c
     \<and> prefix (cb_data (c_code c)) (cb_data (c_code c'))"

lemma ops_frame_refl [simp]: "ops_frame c c"
  by (simp add: ops_frame_def)

lemma ops_frame_trans: "ops_frame c c' \<Longrightarrow> ops_frame c' c'' \<Longrightarrow> ops_frame c c''"
  by (auto simp: ops_frame_def)

text \<open>\<open>m\<close> is a computation that started in \<open>c0\<close> and has kept to the frame.\<close>

definition framed :: "compiler \<Rightarrow> 'a cres \<Rightarrow> bool" where
  "framed c0 m \<longleftrightarrow> cpost m (\<lambda>_. ops_frame c0)"

named_theorems framed_intros \<open>computations that only touch code, context and parameter types\<close>

lemma framed_simps [simp]:
  "framed c0 (COk x c) \<longleftrightarrow> ops_frame c0 c" "framed c0 (CFail c)" "framed c0 CUndef"
  by (simp_all add: framed_def)

lemma framed_cbind [framed_intros]:
  "framed c0 m \<Longrightarrow> (\<And>x c. ops_frame c0 c \<Longrightarrow> framed c0 (g x c)) \<Longrightarrow> framed c0 (cbind m g)"
  by (cases m) auto

lemma framed_csteps [framed_intros]:
  "framed c0 (f c) \<Longrightarrow> (\<And>c. ops_frame c0 c \<Longrightarrow> framed c0 (csteps fs c)) \<Longrightarrow> framed c0 (csteps (f # fs) c)"
  by (auto intro: framed_cbind)

lemma framed_csteps_Nil [framed_intros]: "ops_frame c0 c \<Longrightarrow> framed c0 (csteps [] c)"
  by simp

lemma framed_if [framed_intros]: "(b \<Longrightarrow> framed c0 m) \<Longrightarrow> (\<not> b \<Longrightarrow> framed c0 m') \<Longrightarrow> framed c0 (if b then m else m')"
  by simp

lemma grow_bytes_data: "grow_bytes al n cb = Some cb' \<Longrightarrow> cb_data cb' = cb_data cb"
  by (auto simp: grow_bytes_def Let_def split: if_splits)

lemma emit_bytes_data: "emit_bytes al bs cb = Some cb' \<Longrightarrow> cb_data cb' = cb_data cb @ bs"
  by (auto simp: emit_bytes_def grow_bytes_data split: bind_splits)

lemma framed_emit:
  assumes "ops_frame c0 c" "\<And>al cb cb'. f al cb = Some cb' \<Longrightarrow> prefix (cb_data cb) (cb_data cb')"
  shows "framed c0 (emitc f c)"
  using assms(1) assms(2) [of "c_alloc c" "c_code c"]
  by (auto simp: emitc_def ops_frame_def split: option.splits intro: prefix_order.trans)

lemma framed_emits [framed_intros]:
  "ops_frame c0 c \<Longrightarrow> framed c0 (eop x c)" "ops_frame c0 c \<Longrightarrow> framed c0 (eoffset i c)"
  "ops_frame c0 c \<Longrightarrow> framed c0 (euoffset n c)" "ops_frame c0 c \<Longrightarrow> framed c0 (ecount n c)"
  "ops_frame c0 c \<Longrightarrow> framed c0 (esize n c)" "ops_frame c0 c \<Longrightarrow> framed c0 (epointer n c)"
  by (auto intro!: framed_emit simp: emit_op_def emit_offset_def emit_uoffset_def emit_count_def emit_size_def
      emit_pointer_def dest: emit_bytes_data)

lemma framed_push_type [framed_intros]: "ops_frame c0 c \<Longrightarrow> framed c0 (push_type tid c)"
  by (auto simp: push_type_def ops_frame_def split: option.splits)

lemma framed_pop_types [framed_intros]: "ops_frame c0 c \<Longrightarrow> framed c0 (pop_types n c)"
  by (auto simp: pop_types_def ops_frame_def)

lemma framed_type_payload_size [framed_intros]: "ops_frame c0 c \<Longrightarrow> framed c0 (type_payload_size tid c)"
  by (auto simp: type_payload_size_def)

lemma framed_emit_slice_layout [framed_intros]: "ops_frame c0 c \<Longrightarrow> framed c0 (emit_slice_layout n c)"
  unfolding emit_slice_layout_def by (intro framed_intros)

lemma framed_set_params: "ops_frame c0 c \<Longrightarrow> ops_frame c0 (c\<lparr>c_params := ps\<rparr>)"
  by (simp add: ops_frame_def)

lemma framed_set_ctx: "ops_frame c0 c \<Longrightarrow> ops_frame c0 (c\<lparr>c_ctx := x\<rparr>)"
  by (simp add: ops_frame_def)

lemma framed_context_code [framed_intros]:
  "ops_frame c0 c \<Longrightarrow> framed c0 (compile_context_func_code K idx c)"
  by (auto simp: compile_context_func_code_def Let_def framed_set_ctx split: option.splits)

lemma framed_func_call [framed_intros]: "ops_frame c0 c \<Longrightarrow> framed c0 (compile_func_call K idx c)"
  unfolding compile_func_call_def Let_def by (intro framed_intros) simp_all

lemma framed_native_call [framed_intros]: "ops_frame c0 c \<Longrightarrow> framed c0 (compile_native_call c)"
  unfolding compile_native_call_def Let_def
  by (cases "t_kind (c_types c ! last (c_params c))") (auto intro!: framed_intros simp del: csteps.simps)

lemmas compile_op_defs = compile_binop_def compile_push_global_def compile_arr_at_def compile_arr_push_def
  compile_arr_drop_def compile_slice_from_ar_def compile_slice_from_one_def compile_slice_at_def
  compile_slice_move_def compile_struct_at_def emit_push_var_def emit_push_arg_def

lemma framed_compile_op [framed_intros]: "ops_frame c0 c \<Longrightarrow> framed c0 (compile_op K k extra c)"
  by (cases k)
    (auto simp: compile_op_defs Let_def framed_set_params simp del: csteps.simps
      intro!: framed_intros split: type_kind.split option.split)

lemma framed_compile_ops [framed_intros]: "ops_frame c0 c \<Longrightarrow> framed c0 (compile_ops K is c)"
  by (induction "is" arbitrary: c) (auto simp: Let_def intro!: framed_intros)

section \<open>The invariant of the compiler\<close>

definition scope_sig :: "scope \<Rightarrow> int \<times> nat" where
  "scope_sig s = (sc_frame_size s, sc_crash_depth s)"

text \<open>
  Between blocks the parameter stack is empty, the frame fits the operand of \<^verbatim>\<open>B_STORAGE_ADD\<close>,
  every live variable lies inside the frame, no two live variables overlap, and every open
  scope remembers a smaller frame and a smaller crash depth.
\<close>

abbreviation var_end :: "compiler \<Rightarrow> nat \<Rightarrow> int" where
  "var_end c v \<equiv> vl_base (c_vars c ! v) + int (t_size (c_types c ! vl_tid (c_vars c ! v)))"

definition var_ok :: "compiler \<Rightarrow> nat \<Rightarrow> bool" where
  "var_ok c v \<longleftrightarrow> (let l = c_vars c ! v in
     vl_live l \<longrightarrow> type_idx_valid (c_types c) (vl_tid l) \<and> 0 \<le> vl_base l
       \<and> vl_base l + int (t_size (c_types c ! vl_tid l)) \<le> c_frame_size c)"

definition vars_disjoint :: "compiler \<Rightarrow> bool" where
  "vars_disjoint c \<longleftrightarrow> (\<forall>v<length (c_vars c). \<forall>w<length (c_vars c).
     v \<noteq> w \<longrightarrow> vl_live (c_vars c ! v) \<longrightarrow> vl_live (c_vars c ! w) \<longrightarrow>
     var_end c v \<le> vl_base (c_vars c ! w) \<or> var_end c w \<le> vl_base (c_vars c ! v))"

definition compile_inv :: "compiler \<Rightarrow> bool" where
  "compile_inv c \<longleftrightarrow> c_params c = [] \<and> 0 \<le> c_frame_size c \<and> c_frame_size c \<le> 32767
     \<and> length (c_vars c) = length (fn_vars (c_func c)) \<and> (\<forall>v<length (c_vars c). var_ok c v) \<and> vars_disjoint c
     \<and> (\<forall>s\<in>set (c_scopes c). 0 \<le> sc_frame_size s \<and> sc_frame_size s \<le> c_frame_size c \<and> sc_crash_depth s \<le> c_crash_depth c)"

text \<open>What compiling a block leaves: everything but the code, the patch lists and dead variables.\<close>

definition block_frame :: "compiler \<Rightarrow> compiler \<Rightarrow> bool" where
  "block_frame c c' \<longleftrightarrow> c_func c' = c_func c \<and> c_alloc c' = c_alloc c \<and> c_params c' = c_params c
     \<and> c_frame_size c' = c_frame_size c \<and> c_crash_depth c' = c_crash_depth c
     \<and> map scope_sig (c_scopes c') = map scope_sig (c_scopes c)
     \<and> length (c_vars c') = length (c_vars c)
     \<and> (\<forall>v<length (c_vars c). vl_live (c_vars c' ! v) \<longrightarrow> c_vars c' ! v = c_vars c ! v)
     \<and> code_len c \<le> code_len c'"

lemma block_frame_refl [simp]: "block_frame c c"
  by (simp add: block_frame_def)

lemma block_frame_trans: "block_frame c c' \<Longrightarrow> block_frame c' c'' \<Longrightarrow> block_frame c c''"
  by (auto simp: block_frame_def)

lemma scopes_sig_eq:
  assumes "map scope_sig ss = map scope_sig ss'"
  shows "(\<forall>s\<in>set ss. P (sc_frame_size s) (sc_crash_depth s)) \<longleftrightarrow> (\<forall>s\<in>set ss'. P (sc_frame_size s) (sc_crash_depth s))"
proof -
  have *: "(\<forall>s\<in>set ss. P (sc_frame_size s) (sc_crash_depth s)) \<longleftrightarrow> (\<forall>x\<in>set (map scope_sig ss). P (fst x) (snd x))" for ss
    by (simp add: scope_sig_def)
  show ?thesis by (simp only: * assms)
qed

lemma vars_disjoint_updates [simp]:
  "vars_disjoint (c\<lparr>c_scopes := ss, c_scopes_cap := cap\<rparr>) = vars_disjoint c"
  "vars_disjoint (c\<lparr>c_crash_depth := d\<rparr>) = vars_disjoint c"
  "vars_disjoint (c\<lparr>c_code := cb, c_frame_size := f\<rparr>) = vars_disjoint c"
  by (simp_all add: vars_disjoint_def)

text \<open>A variable placed at the end of the frame overlaps no live one.\<close>

lemma vars_disjoint_set_var:
  assumes "vars_disjoint c" "\<forall>v<length (c_vars c). var_ok c v" "vl_base l = c_frame_size c"
  shows "vars_disjoint (set_var v l c)"
  unfolding vars_disjoint_def
proof (intro allI impI)
  fix x y assume h: "x < length (c_vars (set_var v l c))" "y < length (c_vars (set_var v l c))" "x \<noteq> y"
    "vl_live (c_vars (set_var v l c) ! x)" "vl_live (c_vars (set_var v l c) ! y)"
  have end_le: "var_end c z \<le> c_frame_size c" if "z < length (c_vars c)" "vl_live (c_vars c ! z)" for z
    using assms(2) that by (auto simp: var_ok_def Let_def)
  consider "x = v" "y \<noteq> v" | "y = v" "x \<noteq> v" | "x \<noteq> v" "y \<noteq> v" using h(3) by auto
  then show "var_end (set_var v l c) x \<le> vl_base (c_vars (set_var v l c) ! y)
      \<or> var_end (set_var v l c) y \<le> vl_base (c_vars (set_var v l c) ! x)"
    using h end_le [of x] end_le [of y] assms(1,3) by cases (simp_all add: set_var_def vars_disjoint_def)
qed

lemma compile_inv_block:
  assumes "compile_inv c" "block_frame c c'"
  shows "compile_inv c'"
proof -
  have b: "c_func c' = c_func c" "c_params c' = c_params c" "c_frame_size c' = c_frame_size c"
    "c_crash_depth c' = c_crash_depth c" "map scope_sig (c_scopes c') = map scope_sig (c_scopes c)"
    "length (c_vars c') = length (c_vars c)"
    "\<And>v. v < length (c_vars c) \<Longrightarrow> vl_live (c_vars c' ! v) \<Longrightarrow> c_vars c' ! v = c_vars c ! v"
    using assms(2) by (auto simp: block_frame_def)
  have "var_ok c' v" if "v < length (c_vars c)" for v
    using assms(1) b that by (auto simp: compile_inv_def var_ok_def Let_def)
  moreover have "vars_disjoint c'"
    unfolding vars_disjoint_def
  proof (intro allI impI)
    fix x y assume h: "x < length (c_vars c')" "y < length (c_vars c')" "x \<noteq> y" "vl_live (c_vars c' ! x)" "vl_live (c_vars c' ! y)"
    have "c_vars c' ! x = c_vars c ! x" "c_vars c' ! y = c_vars c ! y" using h b(6,7) by simp_all
    then show "var_end c' x \<le> vl_base (c_vars c' ! y) \<or> var_end c' y \<le> vl_base (c_vars c' ! x)"
      using assms(1) h b(1,6) by (simp add: compile_inv_def vars_disjoint_def)
  qed
  ultimately show ?thesis using assms(1) b(1-4,6) scopes_sig_eq [OF b(5), of "\<lambda>f d. 0 \<le> f \<and> f \<le> c_frame_size c \<and> d \<le> c_crash_depth c"]
    by (auto simp: compile_inv_def)
qed

lemma ops_frame_len: "ops_frame c c' \<Longrightarrow> code_len c \<le> code_len c'"
  by (auto simp: ops_frame_def dest: prefix_length_le)

lemma ops_frame_block: "ops_frame c c' \<Longrightarrow> c_params c' = c_params c \<Longrightarrow> block_frame c c'"
  by (auto simp: block_frame_def ops_frame_len) (auto simp: ops_frame_def)

lemma length_splice_le: "length xs \<le> length (splice xs at ys)"
  by (simp add: splice_def)

text \<open>Emitters and patches keep everything but the code.\<close>

lemma emitc_keeps: "emitc f c = COk x c' \<Longrightarrow> c' = c\<lparr>c_code := c_code c'\<rparr>"
  by (auto simp: emitc_def split: option.splits)

definition code_only :: "compiler \<Rightarrow> compiler \<Rightarrow> bool" where
  "code_only c c' \<longleftrightarrow> (\<exists>cb. c' = c\<lparr>c_code := cb\<rparr> \<and> code_len c \<le> length (cb_data cb))"

lemma code_only_refl [simp]: "code_only c c"
  unfolding code_only_def by (rule exI [of _ "c_code c"]) simp

lemma code_only_trans: "code_only c c' \<Longrightarrow> code_only c' c'' \<Longrightarrow> code_only c c''"
  by (auto simp: code_only_def)

lemma code_only_block: "code_only c c' \<Longrightarrow> block_frame c c'"
  by (auto simp: code_only_def block_frame_def)

lemma cpost_emit:
  assumes "\<And>al cb cb'. f al cb = Some cb' \<Longrightarrow> length (cb_data cb) \<le> length (cb_data cb')" "\<And>c'. code_only c c' \<Longrightarrow> Q () c'"
  shows "cpost (emitc f c) Q"
proof (cases "f (c_alloc c) (c_code c)")
  case (Some cb)
  then have "code_only c (c\<lparr>c_code := cb\<rparr>)" using assms(1) by (auto simp: code_only_def)
  then show ?thesis using Some assms(2) by (simp add: emitc_def)
qed (simp add: emitc_def)

lemma cpost_emits:
  assumes "\<And>c'. code_only c c' \<Longrightarrow> Q () c'"
  shows "cpost (eop x c) Q" "cpost (eoffset i c) Q" "cpost (euoffset n c) Q" "cpost (ecount n c) Q"
    "cpost (esize n c) Q" "cpost (epointer n c) Q" "cpost (patchc at n c) Q"
proof -
  have "code_only c (c\<lparr>c_code := (c_code c)\<lparr>cb_data := splice (cb_data (c_code c)) at (bytes_of_nat 2 n)\<rparr>\<rparr>)"
    unfolding code_only_def by (intro exI conjI, rule refl) (simp add: length_splice_le)
  then show "cpost (patchc at n c) Q" using assms by (auto simp: patchc_def patch_uoffset_def)
qed (auto intro!: cpost_emit assms simp: emit_op_def emit_offset_def emit_uoffset_def emit_count_def emit_size_def
      emit_pointer_def dest: emit_bytes_data)

lemma cpost_jump_placeholder: "(\<And>p c'. code_only c c' \<Longrightarrow> Q p c') \<Longrightarrow> cpost (emit_jump_placeholder c) Q"
  by (auto simp: emit_jump_placeholder_def Let_def intro!: cpost_emits intro: code_only_trans)

lemma cpost_csteps_code_only:
  assumes "\<And>f c Q. f \<in> set fs \<Longrightarrow> (\<And>c'. code_only c c' \<Longrightarrow> Q () c') \<Longrightarrow> cpost (f c) Q"
    and "\<And>c'. code_only c c' \<Longrightarrow> Q () c'"
  shows "cpost (csteps fs c) Q"
  using assms
proof (induction fs arbitrary: c)
  case (Cons f fs)
  have "cpost (csteps fs c') Q" if "code_only c c'" for c'
    by (rule Cons.IH) (use Cons.prems code_only_trans [OF that] in auto)
  then show ?case using Cons.prems(1) [of f c "\<lambda>_ c. cpost (csteps fs c) Q"] by auto
qed auto

section \<open>An operation pushes at most one parameter\<close>

named_theorems params_wp \<open>effect of the steps on the parameter types\<close>

lemma params_emit:
  assumes "\<And>c'. c_params c' = c_params c \<Longrightarrow> Q () c'"
  shows "cpost (emitc f c) Q"
  using assms by (auto simp: emitc_def split: option.splits)

lemma params_emits [params_wp]:
  assumes "\<And>c'. c_params c' = c_params c \<Longrightarrow> Q () c'"
  shows "cpost (eop x c) Q" "cpost (eoffset i c) Q" "cpost (euoffset n c) Q" "cpost (ecount n c) Q"
    "cpost (esize n c) Q" "cpost (epointer n c) Q" "cpost (emit_slice_layout n c) Q"
  by (auto intro!: params_emit assms simp: emit_slice_layout_def)

lemma params_push [params_wp]:
  "(\<And>c'. length (c_params c') = Suc (length (c_params c)) \<Longrightarrow> Q () c') \<Longrightarrow> cpost (push_type tid c) Q"
  by (auto simp: push_type_def split: option.splits dest!: push_grow_list)

lemma params_pop [params_wp]:
  "(\<And>c'. n \<le> length (c_params c) \<Longrightarrow> length (c_params c') = length (c_params c) - n \<Longrightarrow> Q () c') \<Longrightarrow> cpost (pop_types n c) Q"
  by (auto simp: pop_types_def)

lemma params_payload [params_wp]: "(\<And>x. Q x c) \<Longrightarrow> cpost (type_payload_size tid c) Q"
  by (auto simp: type_payload_size_def)

lemma params_context_code [params_wp]:
  "(\<And>x c'. c_params c' = c_params c \<Longrightarrow> Q x c') \<Longrightarrow> cpost (compile_context_func_code K idx c) Q"
  by (auto simp: compile_context_func_code_def Let_def split: option.splits)

lemma compile_op_params: "cpost (compile_op K k extra c) (\<lambda>_ c'. length (c_params c') \<le> Suc (length (c_params c)))"
  by (cases k)
    (auto simp: compile_op_defs compile_func_call_def compile_native_call_def Let_def simp del: csteps.simps
      intro!: params_wp split: type_kind.split option.split)

lemma compile_ops_params: "cpost (compile_ops K is c) (\<lambda>_ c'. length (c_params c') \<le> length (c_params c) + length is)"
proof (induction "is" arbitrary: c)
  case (Cons i "is")
  show ?case
    by (auto simp: Let_def intro!: cpost_mono [OF compile_op_params] intro: cpost_mono [OF Cons.IH])
qed simp

lemma compile_ops_post:
  "cpost (compile_ops K (op_indices r) c)
     (\<lambda>_ c'. ops_frame c c' \<and> length (c_params c') \<le> length (c_params c) + r_len r)"
  using compile_ops_params [of K "op_indices r" c] framed_compile_ops [of c c K "op_indices r"]
  by (cases "compile_ops K (op_indices r) c") (auto simp: op_indices_def)

section \<open>Blocks keep the invariant\<close>

text \<open>The counts of a block fit their C type.\<close>

fun block_counts_ok :: "block \<Rightarrow> bool" where
  "block_counts_ok (BLOCK_BASIC r) \<longleftrightarrow> r_len r < W32"
| "block_counts_ok _ \<longleftrightarrow> True"

definition func_ok :: "func \<Rightarrow> bool" where
  "func_ok f \<longleftrightarrow> (\<forall>b\<in>set (fn_blocks f). block_counts_ok b)"

abbreviation keeps :: "compiler \<Rightarrow> 'a cres \<Rightarrow> bool" where
  "keeps c m \<equiv> cpost m (\<lambda>_. block_frame c)"

lemma block_frame_params: "ops_frame c c1 \<Longrightarrow> block_frame c (c1\<lparr>c_params := c_params c\<rparr>)"
  by (rule ops_frame_block) (auto simp: ops_frame_def)

lemma compile_basic_keeps:
  assumes "c_params c = []" "r_len r < W32"
  shows "keeps c (compile_basic K r c)"
proof -
  have "cpost (compile_ops K (op_indices r) c) (\<lambda>_ c1. ops_frame c c1 \<and> length (c_params c1) < W32)"
    using compile_ops_post [of K r c] assms by (auto elim!: cpost_mono)
  moreover have "cpost (if u32 (length (c_params c1)) = 0 then COk () c1
        else csteps [eop B_DROP_N, ecount (u32 (length (c_params c1))), pop_types (u32 (length (c_params c1)))] c1) (\<lambda>_. block_frame c)"
    if c1: "ops_frame c c1" "length (c_params c1) < W32" for c1
  proof (cases "c_params c1 = []")
    case True
    then show ?thesis using ops_frame_block [OF c1(1)] assms by simp
  next
    case False
    let ?n = "length (c_params c1)"
    have n: "u32 ?n = ?n" using c1(2) by simp
    have "framed c (csteps [eop B_DROP_N, ecount ?n, pop_types ?n] c1)"
      by (intro framed_intros c1(1))
    then have fr: "cpost (csteps [eop B_DROP_N, ecount ?n, pop_types ?n] c1) (\<lambda>_. ops_frame c)"
      by (simp add: framed_def del: csteps.simps)
    have "cpost (csteps [eop B_DROP_N, ecount ?n, pop_types ?n] c1) (\<lambda>_ c'. c_params c' = [])"
      by (auto simp del: csteps.simps intro!: params_wp)
    with fr have "cpost (csteps [eop B_DROP_N, ecount ?n, pop_types ?n] c1) (\<lambda>_. block_frame c)"
      using ops_frame_block [of c] assms(1)
      by (cases "csteps [eop B_DROP_N, ecount ?n, pop_types ?n] c1") (auto simp del: csteps.simps)
    then show ?thesis using n False by simp
  qed
  ultimately have "cpost (compile_ops K (op_indices r) c) (\<lambda>_ c1. keeps c (if u32 (length (c_params c1)) = 0 then COk () c1
        else csteps [eop B_DROP_N, ecount (u32 (length (c_params c1))), pop_types (u32 (length (c_params c1)))] c1))"
    by (rule cpost_mono) blast+
  then show ?thesis unfolding compile_basic_def Let_def
    by (simp only: cpost_cbind assms(1) list.size cpost_simps(1) not_less_zero if_False diff_zero)
qed

lemma compile_cond_post:
  assumes "c_params c = []"
  shows "cpost (compile_cond K r c) (\<lambda>_ c'. ops_frame c c' \<and> length (c_params c') = 1)"
  using compile_ops_post [of K r c] assms
  by (auto simp: compile_cond_def Let_def cguard_def elim!: cpost_mono)

lemma scope_push_post:
  "cpost (scope_push f c) (\<lambda>_ c'. \<exists>s cap. scope_sig s = (f, c_crash_depth c) \<and> sc_patches s = []
     \<and> c' = c\<lparr>c_scopes := c_scopes c @ [s], c_scopes_cap := cap\<rparr>)"
proof -
  let ?s = "\<lparr>sc_patches = [], sc_patches_cap = 0, sc_target = W64 - 1, sc_frame_size = f, sc_crash_depth = c_crash_depth c\<rparr>"
  show ?thesis
  proof (cases "push_grow (c_alloc c) 16 48 ?s (c_scopes c, c_scopes_cap c)")
    case (Some x)
    then obtain cap where "x = (c_scopes c @ [?s], cap)" by (cases x) (auto dest: push_grow_list)
    moreover have "scope_sig ?s = (f, c_crash_depth c)" "sc_patches ?s = []" by (simp_all add: scope_sig_def)
    ultimately show ?thesis unfolding scope_push_def Let_def Some by (simp only: option.case prod.case cpost_simps(1)) blast
  qed (simp add: scope_push_def)
qed

lemma scope_add_patch_post:
  "cpost (scope_add_patch i p c) (\<lambda>_ c'. block_frame c c' \<and> c_code c' = c_code c)"
proof -
  have "map scope_sig (xs[i := s]) = map scope_sig xs" if "scope_sig s = scope_sig (xs ! i)" for xs s
    using that by (cases "i < length xs") (auto simp: map_update list_update_beyond, metis list_update_id map_update nth_map length_map)
  then show ?thesis
    by (auto simp: scope_add_patch_def Let_def block_frame_def scope_sig_def split: option.splits)
qed

lemma compile_break_keeps: "keeps c (compile_break level c)"
proof -
  have r: "cpost (csteps (replicate n (eop B_POP_CRASH)) c) Q" if "\<And>c'. code_only c c' \<Longrightarrow> Q () c'" for n Q
    by (rule cpost_csteps_code_only) (use that in \<open>auto intro!: cpost_emits\<close>)
  have s: "cpost (if cl = 0 then COk () c1 else csteps [eop B_STORAGE_ADD, eoffset cl] c1) Q"
    if "\<And>c'. code_only c1 c' \<Longrightarrow> Q () c'" for cl c1 Q
    by (auto simp del: csteps.simps intro!: cpost_emits that intro: code_only_trans)
  have p: "cpost (emit_jump_placeholder c1) (\<lambda>patch c. cpost (scope_add_patch i patch c) (\<lambda>x c'. block_frame c0 c'))"
    if "block_frame c0 c1" for i c0 c1
  proof (rule cpost_jump_placeholder)
    fix pp c' assume "code_only c1 c'"
    then have "block_frame c0 c'" using that code_only_block block_frame_trans by blast
    then show "cpost (scope_add_patch i pp c') (\<lambda>x. block_frame c0)"
      using scope_add_patch_post [of i pp c'] by (auto elim!: cpost_mono intro: block_frame_trans)
  qed
  show ?thesis
  proof (cases "level = 0 \<or> length (c_scopes c) < level")
    case False
    show ?thesis unfolding compile_break_def Let_def if_not_P [OF False] cpost_cbind cpost_simps(1)
      by (intro r s p) (blast intro: code_only_block code_only_trans)
  qed (simp add: compile_break_def)
qed

definition block_ok :: "block_fn \<Rightarrow> bool" where
  "block_ok B \<longleftrightarrow> (\<forall>idx c. compile_inv c \<longrightarrow> func_ok (c_func c) \<longrightarrow> keeps c (B idx c))"

lemma block_okD: "block_ok B \<Longrightarrow> compile_inv c \<Longrightarrow> func_ok (c_func c) \<Longrightarrow> keeps c (B idx c)"
  by (auto simp: block_ok_def)

text \<open>The same, for a computation that began earlier.\<close>

lemma block_ok_from:
  assumes "block_ok B" "compile_inv c" "func_ok (c_func c)" "\<And>r c'. block_frame c c' \<Longrightarrow> Q r c'"
  shows "cpost (B idx c) Q"
  using block_okD [OF assms(1-3), of idx] assms(4) by (auto elim!: cpost_mono)

lemma block_frame_func: "block_frame c c' \<Longrightarrow> c_func c' = c_func c"
  by (simp add: block_frame_def)

lemma scope_finish_post:
  "cpost (scope_finish target c) (\<lambda>_ c'. c_scopes c \<noteq> [] \<and>
     (\<exists>cb. c' = c\<lparr>c_code := cb, c_scopes := butlast (c_scopes c)\<rparr> \<and> code_len c \<le> length (cb_data cb)))"
proof (cases "c_scopes c = []")
  case False
  let ?s = "last (c_scopes c)"
  let ?c1 = "c\<lparr>c_scopes := butlast (c_scopes c) @ [?s\<lparr>sc_target := target\<rparr>]\<rparr>"
  have "cpost (csteps (map (\<lambda>p. patchc p target) (sc_patches ?s)) ?c1) (\<lambda>_ c'. code_only ?c1 c')"
    by (rule cpost_csteps_code_only) (auto intro!: cpost_emits)
  then show ?thesis using False
    by (auto simp: scope_finish_def Let_def code_only_def elim!: cpost_mono)
qed (simp add: scope_finish_def)

lemma scope_finish_wp:
  assumes "\<And>b cb. c_scopes c \<noteq> [] \<Longrightarrow> code_len c \<le> length (cb_data cb) \<Longrightarrow> Q b (c\<lparr>c_code := cb, c_scopes := butlast (c_scopes c)\<rparr>)"
  shows "cpost (scope_finish target c) Q"
  using scope_finish_post [of target c] assms by (auto elim!: cpost_mono)

lemma scope_push_wp:
  assumes "\<And>s cap. scope_sig s = (f, c_crash_depth c) \<Longrightarrow> Q () (c\<lparr>c_scopes := c_scopes c @ [s], c_scopes_cap := cap\<rparr>)"
  shows "cpost (scope_push f c) Q"
  using scope_push_post [of f c] assms by (auto elim!: cpost_mono)

lemma compile_inv_push:
  "compile_inv c \<Longrightarrow> scope_sig s = (c_frame_size c, c_crash_depth c) \<Longrightarrow>
     compile_inv (c\<lparr>c_scopes := c_scopes c @ [s], c_scopes_cap := cap\<rparr>)"
  by (auto simp: compile_inv_def var_ok_def Let_def scope_sig_def)

text \<open>Closing the scope that was pushed gives the frame of the state before.\<close>

lemma block_frame_pop:
  assumes "block_frame (c\<lparr>c_scopes := c_scopes c @ [s], c_scopes_cap := cap\<rparr>) c'" "code_len c' \<le> length (cb_data cb)"
  shows "block_frame c (c'\<lparr>c_code := cb, c_scopes := butlast (c_scopes c')\<rparr>)"
  using assms by (auto simp: block_frame_def map_butlast)

lemma many_children_keeps:
  assumes B: "block_ok B"
  shows "compile_inv c \<Longrightarrow> func_ok (c_func c) \<Longrightarrow> keeps c (many_children B n r child chain c)"
proof (induction n arbitrary: r child chain c)
  case (Suc n)
  have rest: "keeps c (if chain = BLOCK_INVALID then COk r c'
        else if length (fn_blocks (c_func c')) \<le> chain then CFail c'
        else case fn_blocks (c_func c') ! chain of
          BLOCK_CHAIN cur nxt \<Rightarrow> many_children B n r cur nxt c' | _ \<Rightarrow> CFail c')" if b: "block_frame c c'" for r c'
  proof -
    have k: "keeps c' (many_children B n r cur nxt c')" for cur nxt
      by (rule Suc.IH) (use compile_inv_block [OF Suc.prems(1) b] Suc.prems(2) b in \<open>auto simp: block_frame_func\<close>)
    have "keeps c (many_children B n r cur nxt c')" for cur nxt
      by (rule cpost_mono [OF k block_frame_trans [OF b]])
    then show ?thesis using b by (auto split: block.split)
  qed
  show ?case
  proof (cases "r = COMPILE_UNREACHABLE")
    case True
    then show ?thesis using rest [OF block_frame_refl, of COMPILE_UNREACHABLE]
      by (cases "child = BLOCK_INVALID") (simp_all del: cpost_simps(4) split del: if_split cong del: if_weak_cong)
  next
    case False
    have "cpost (B child c) (\<lambda>r c'. keeps c (if chain = BLOCK_INVALID then COk r c'
        else if length (fn_blocks (c_func c')) \<le> chain then CFail c'
        else case fn_blocks (c_func c') ! chain of
          BLOCK_CHAIN cur nxt \<Rightarrow> many_children B n r cur nxt c' | _ \<Rightarrow> CFail c'))"
      by (rule block_ok_from [OF B Suc.prems]) (rule rest)
    then show ?thesis using False by (simp del: cpost_simps(4))
  qed
qed simp

lemma compile_many_keeps:
  assumes B: "block_ok B" and c: "compile_inv c" "func_ok (c_func c)"
  shows "keeps c (compile_many B n cur nxt c)"
proof -
  have "cpost (many_children B n COMPILE_REACHABLE cur nxt c1) (\<lambda>r c. cpost (scope_finish (code_len c) c) (\<lambda>hb. block_frame c0))"
    if c1: "c1 = c0\<lparr>c_scopes := c_scopes c0 @ [s], c_scopes_cap := cap\<rparr>" and s: "scope_sig s = (c_frame_size c0, c_crash_depth c0)"
      and c0: "compile_inv c0" "func_ok (c_func c0)" for c0 c1 s cap
  proof -
    have "compile_inv c1" "func_ok (c_func c1)" using compile_inv_push [OF c0(1) s] c0(2) c1 by auto
    from many_children_keeps [OF B this] show ?thesis
      by (rule cpost_mono) (use c1 in \<open>auto intro!: scope_finish_wp block_frame_pop\<close>)
  qed
  then show ?thesis unfolding compile_many_def using c
    by (auto intro!: scope_push_wp)
qed

lemma storage_add_wp:
  assumes "\<And>cb. code_len c \<le> length (cb_data cb) \<Longrightarrow> 0 \<le> s16 (c_frame_size c + amount) \<Longrightarrow>
    Q () (c\<lparr>c_code := cb, c_frame_size := s16 (c_frame_size c + amount)\<rparr>)"
  shows "cpost (emit_storage_add amount c) Q"
proof -
  have *: "Q () (c'\<lparr>c_frame_size := s16 (c_frame_size c' + amount)\<rparr>)"
    if "code_only c c'" "0 \<le> s16 (c_frame_size c' + amount)" for c'
  proof -
    from that(1) obtain cb where cb: "c' = c\<lparr>c_code := cb\<rparr>" "code_len c \<le> length (cb_data cb)"
      by (auto simp: code_only_def)
    then show ?thesis using assms [of cb] that(2) by simp
  qed
  show ?thesis unfolding emit_storage_add_def
    by (auto simp: cguard_def Let_def simp del: csteps.simps intro!: cpost_emits * dest: code_only_trans)
qed

lemma compile_var_keeps:
  assumes B: "block_ok B" and c: "compile_inv c" "func_ok (c_func c)"
  shows "keeps c (compile_var B v body c)"
proof -
  let ?tid = "v_tid (fn_vars (c_func c) ! v)"
  let ?size = "t_size (c_types c ! ?tid)"
  have main: "cpost (B body c2) (\<lambda>r c. cpost (if r = COMPILE_REACHABLE then emit_storage_add (- int ?size) (kill_var v c) else COk () c)
       (\<lambda>_ c. cpost (scope_finish (code_len c) c) (\<lambda>hb c. block_frame c0 ((kill_var v c)\<lparr>c_frame_size := c_frame_size c0\<rparr>))))"
    if v: "v < length (fn_vars (c_func c))" "type_idx_valid (c_types c) ?tid" "?size \<le> 32767"
      and s: "scope_sig s = (c_frame_size c, c_crash_depth c)"
      and c1: "c1 = set_var v \<lparr>vl_tid = ?tid, vl_base = c_frame_size c, vl_live = True\<rparr> (c\<lparr>c_scopes := c_scopes c @ [s], c_scopes_cap := cap\<rparr>)"
      and c2: "c2 = c1\<lparr>c_code := cb, c_frame_size := s16 (c_frame_size c + int ?size)\<rparr>" "code_len c \<le> length (cb_data cb)"
        "0 \<le> s16 (c_frame_size c + int ?size)" and c0: "c0 = c" for c0 c1 c2 s cap cb
  proof -
    have fr: "0 \<le> c_frame_size c" "c_frame_size c \<le> 32767" using c by (auto simp: compile_inv_def)
    have s16: "s16 (c_frame_size c + int ?size) = c_frame_size c + int ?size" "c_frame_size c + int ?size \<le> 32767"
    proof -
      have "c_frame_size c + int ?size < 32768"
      proof (rule ccontr)
        assume "\<not> c_frame_size c + int ?size < 32768"
        then have "s16 (c_frame_size c + int ?size) < 0" using fr v(3) by (simp add: s16_def mod_pos_geq)
        then show False using c2(3) by simp
      qed
      then show "s16 (c_frame_size c + int ?size) = c_frame_size c + int ?size" "c_frame_size c + int ?size \<le> 32767"
        using fr by simp_all
    qed
    have "vars_disjoint c1" unfolding c1
      by (rule vars_disjoint_set_var) (use c in \<open>auto simp: compile_inv_def var_ok_def\<close>)
    then have "vars_disjoint c2" by (simp add: c2(1))
    then have i2: "compile_inv c2" using c v s s16 fr unfolding compile_inv_def
      by (auto simp: c2(1) c1 var_ok_def Let_def set_var_def nth_list_update scope_sig_def)
    have f2: "func_ok (c_func c2)" using c by (simp add: c2(1) c1 set_var_def)
    have done1: "cpost (scope_finish (code_len c4) c4) (\<lambda>hb c. block_frame c0 ((kill_var v c)\<lparr>c_frame_size := c_frame_size c0\<rparr>))"
      if b: "block_frame c2 c3" and c4: "c4 = c3 \<or> (\<exists>cb f. c4 = (kill_var v c3)\<lparr>c_code := cb, c_frame_size := f\<rparr> \<and> code_len c3 \<le> length (cb_data cb))" for c3 c4
    proof (rule scope_finish_wp)
      fix b and cb' :: code_builder assume cb': "code_len c4 \<le> length (cb_data cb')"
      have bb: "c_func c3 = c_func c2" "c_alloc c3 = c_alloc c2" "c_params c3 = c_params c2"
         "c_crash_depth c3 = c_crash_depth c2" "map scope_sig (c_scopes c3) = map scope_sig (c_scopes c2)"
         "length (c_vars c3) = length (c_vars c2)"
         "\<And>v. v < length (c_vars c2) \<Longrightarrow> vl_live (c_vars c3 ! v) \<Longrightarrow> c_vars c3 ! v = c_vars c2 ! v" "code_len c2 \<le> code_len c3"
        using b by (auto simp: block_frame_def)
      show "block_frame c0 ((kill_var v (c4\<lparr>c_code := cb', c_scopes := butlast (c_scopes c4)\<rparr>))\<lparr>c_frame_size := c_frame_size c0\<rparr>)"
      proof -
        have lv: "v < length (c_vars c)" using c(1) v(1) by (simp add: compile_inv_def)
        have others: "c_vars c3 ! w = c_vars c ! w" if "w < length (c_vars c)" "w \<noteq> v" "vl_live (c_vars c3 ! w)" for w
          using bb(7) [of w] that by (simp add: c2(1) c1 set_var_def)
        show ?thesis
          using c4 bb(1-6,8) c2(2) cb' lv others
          by (auto simp: block_frame_def kill_var_def set_var_def c2(1) c1 c0 nth_list_update map_butlast)
      qed
    qed
    show ?thesis
    proof (rule block_ok_from [OF B i2 f2])
      fix r c3 assume b: "block_frame c2 c3"
      show "cpost (if r = COMPILE_REACHABLE then emit_storage_add (- int ?size) (kill_var v c3) else COk () c3)
       (\<lambda>_ c. cpost (scope_finish (code_len c) c) (\<lambda>hb c. block_frame c0 ((kill_var v c)\<lparr>c_frame_size := c_frame_size c0\<rparr>)))"
      proof (cases "r = COMPILE_REACHABLE")
        case True
        have "cpost (emit_storage_add (- int ?size) (kill_var v c3))
           (\<lambda>_ c. cpost (scope_finish (code_len c) c) (\<lambda>hb c. block_frame c0 ((kill_var v c)\<lparr>c_frame_size := c_frame_size c0\<rparr>)))"
          by (rule storage_add_wp, rule done1 [OF b]) (auto simp: kill_var_def set_var_def)
        then show ?thesis using True by simp
      next
        case False
        then show ?thesis using done1 [OF b, of c3] by simp
      qed
    qed
  qed
  show ?thesis
  proof (cases "length (fn_vars (c_func c)) \<le> v \<or> \<not> type_idx_valid (c_types c) ?tid \<or> 32767 < ?size")
    case True
    then show ?thesis by (auto simp: compile_var_def Let_def)
  next
    case False
    have "cpost (scope_push (c_frame_size c) c) (\<lambda>_ c1.
       cpost (emit_storage_add (int ?size) (set_var v \<lparr>vl_tid = ?tid, vl_base = c_frame_size c1, vl_live = True\<rparr> c1)) (\<lambda>_ c2.
       cpost (B body c2) (\<lambda>r d. cpost (if r = COMPILE_REACHABLE then emit_storage_add (- int ?size) (kill_var v d) else COk () d)
       (\<lambda>_ c'. cpost (scope_finish (code_len c') c') (\<lambda>hb c'. block_frame c ((kill_var v c')\<lparr>c_frame_size := c_frame_size c\<rparr>))))))"
    proof (rule scope_push_wp, rule storage_add_wp)
      fix s cap and cb :: code_builder
      let ?c0 = "c\<lparr>c_scopes := c_scopes c @ [s], c_scopes_cap := cap\<rparr>"
      let ?c1 = "set_var v \<lparr>vl_tid = ?tid, vl_base = c_frame_size ?c0, vl_live = True\<rparr> ?c0"
      assume a: "scope_sig s = (c_frame_size c, c_crash_depth c)" "code_len ?c1 \<le> length (cb_data cb)"
        "0 \<le> s16 (c_frame_size ?c1 + int ?size)"
      show "cpost (B body (?c1\<lparr>c_code := cb, c_frame_size := s16 (c_frame_size ?c1 + int ?size)\<rparr>))
         (\<lambda>r d. cpost (if r = COMPILE_REACHABLE then emit_storage_add (- int ?size) (kill_var v d) else COk () d)
         (\<lambda>_ c'. cpost (scope_finish (code_len c') c') (\<lambda>hb c'. block_frame c ((kill_var v c')\<lparr>c_frame_size := c_frame_size c\<rparr>))))"
        by (rule main [OF _ _ _ a(1) _ _ _ _ refl, where cap = cap and cb = cb])
          (use False a in \<open>auto simp: set_var_def\<close>)
    qed
    then show ?thesis using False
      by (simp add: compile_var_def Let_def del: cpost_simps(4))
  qed
qed

lemma state_save_wp: "Q (state_of c) c \<Longrightarrow> cpost (state_save c) Q"
  by (auto simp: state_save_def)

text \<open>Restoring the state of \<open>d\<close> in \<open>e\<close>, both descendants of \<open>c\<close>.\<close>

lemma restore_frame:
  assumes "block_frame c d" "block_frame c e"
  shows "cpost (state_restore (state_of d) e) (\<lambda>_. block_frame c)"
  using assms by (auto simp: state_restore_def state_of_def Let_def block_frame_def)

lemma block_frame_code: "block_frame c d \<Longrightarrow> code_only d e \<Longrightarrow> block_frame c e"
  using code_only_block block_frame_trans by blast

text \<open>A saved state, if there is one, comes from a descendant of \<open>c\<close>.\<close>

definition saved_from :: "compiler \<Rightarrow> ('a \<times> compiler_state) option \<Rightarrow> bool" where
  "saved_from c s \<longleftrightarrow> (\<forall>p st. s = Some (p, st) \<longrightarrow> (\<exists>d. block_frame c d \<and> st = state_of d))"

lemma saved_fromI: "block_frame c d \<Longrightarrow> saved_from c (Some (p, state_of d))" "saved_from c None"
  by (auto simp: saved_from_def)

lemma branch_join_keeps:
  assumes "saved_from c ys" "saved_from c (map_option (\<lambda>s. ((), s)) ns)" "block_frame c e"
  shows "keeps c (branch_join ys ns e)"
proof -
  have p: "cpost (case ys of None \<Rightarrow> COk () e | Some (q, s) \<Rightarrow> patchc q (code_len e) e) (\<lambda>_. block_frame c)"
  proof (cases ys)
    case (Some y)
    have "cpost (patchc (fst y) (code_len e) e) (\<lambda>_. block_frame c)"
      by (rule cpost_emits, rule block_frame_code [OF assms(3)])
    then show ?thesis using Some by (cases y) simp
  qed (use assms(3) in simp)
  have r: "keeps c (cbind (state_restore s e') f)"
    if b: "block_frame c e'" and s: "\<exists>d. block_frame c d \<and> s = state_of d"
      and f: "\<And>x. block_frame c x \<Longrightarrow> keeps c (f () x)" for e' s f
  proof -
    from s obtain d where "block_frame c d" "s = state_of d" by blast
    from restore_frame [OF this(1) b] this(2) show ?thesis
      unfolding cpost_cbind by (simp only:) (erule cpost_mono, simp add: f)
  qed
  have e: "keeps c (if state_equal x ns then COk COMPILE_REACHABLE x else CFail x)" if "block_frame c x" for x ns
    using that by (cases "state_equal x ns") simp_all
  have o: "keeps c (COk COMPILE_REACHABLE x)" if "block_frame c x" for x
    using that by simp
  show ?thesis unfolding branch_join_def cpost_cbind
  proof (rule cpost_mono [OF p])
    fix u e' assume b: "block_frame c e'"
    show "keeps c (case (ys, ns) of
        (Some (_, ys), Some ns) \<Rightarrow> cbind (state_restore ys e') (\<lambda>_ c. if state_equal c ns then COk COMPILE_REACHABLE c else CFail c)
      | (Some (_, ys), None) \<Rightarrow> cbind (state_restore ys e') (\<lambda>_. COk COMPILE_REACHABLE)
      | (None, Some ns) \<Rightarrow> cbind (state_restore ns e') (\<lambda>_. COk COMPILE_REACHABLE)
      | (None, None) \<Rightarrow> COk COMPILE_UNREACHABLE e')"
    proof (cases ys)
      case None
      show ?thesis
      proof (cases ns)
        case (Some s)
        with assms(2) have "\<exists>d. block_frame c d \<and> s = state_of d" by (simp add: saved_from_def)
        from r [OF b this, of "\<lambda>_. COk COMPILE_REACHABLE", OF o] None Some show ?thesis by simp
      qed (use None b in simp)
    next
      case (Some q)
      then obtain p s where q: "ys = Some (p, s)" by (cases q) simp
      with assms(1) have d: "\<exists>d. block_frame c d \<and> s = state_of d" by (simp add: saved_from_def)
      show ?thesis
      proof (cases ns)
        case None
        from r [OF b d, of "\<lambda>_. COk COMPILE_REACHABLE", OF o] q None show ?thesis by simp
      next
        case (Some n)
        from r [OF b d, of "\<lambda>_ c. if state_equal c n then COk COMPILE_REACHABLE c else CFail c", OF e] q Some
        show ?thesis by (simp only: option.case prod.case)
      qed
    qed
  qed
qed

lemma cpost_conj: "cpost m P \<Longrightarrow> cpost m Q \<Longrightarrow> cpost m (\<lambda>x c. P x c \<and> Q x c)"
  by (cases m) simp_all

lemma compile_branch_keeps:
  assumes B: "block_ok B" and c: "compile_inv c" "func_ok (c_func c)"
  shows "keeps c (compile_branch K B cond yes no c)"
proof -
  have head: "cpost (csteps [eop B_BRANCH_TOP, pop_types 1] c1) (\<lambda>_. block_frame c)"
    if "ops_frame c c1 \<and> length (c_params c1) = 1" for c1
  proof -
    have "framed c (csteps [eop B_BRANCH_TOP, pop_types 1] c1)"
      using that by (intro framed_intros) auto
    moreover have "cpost (csteps [eop B_BRANCH_TOP, pop_types 1] c1) (\<lambda>_ c'. c_params c' = [])"
      using that by (auto simp del: csteps.simps intro!: params_wp)
    ultimately have "cpost (csteps [eop B_BRANCH_TOP, pop_types 1] c1) (\<lambda>_ c'. ops_frame c c' \<and> c_params c' = [])"
      unfolding framed_def by (rule cpost_conj)
    then show ?thesis
    proof (rule cpost_mono)
      fix x c' assume "ops_frame c c' \<and> c_params c' = []"
      then show "block_frame c c'" using c(1) ops_frame_block [of c c']
        by (simp add: compile_inv_def)
    qed
  qed
  have inv: "compile_inv d" "func_ok (c_func d)" if "block_frame c d" for d
    using compile_inv_block [OF c(1) that] c(2) that by (simp_all add: block_frame_func)
  have arm: "cpost (B idx d) Q" if "block_frame c d" "\<And>r e. block_frame c e \<Longrightarrow> Q r e" for idx d Q
    by (rule block_ok_from [OF B inv [OF that(1)]]) (use that block_frame_trans in blast)
  have restore: "cpost (state_restore (state_of c) d) Q" if "block_frame c d" "\<And>e. block_frame c e \<Longrightarrow> Q () e" for d Q
    using restore_frame [OF block_frame_refl that(1)] that(2) by (auto elim!: cpost_mono)
  have save: "cpost (if r = COMPILE_REACHABLE
            then cbind (state_save d) (\<lambda>ys c. cbind (emit_jump_placeholder c) (\<lambda>p. COk (Some (p, ys)))) else COk None d) Q"
    if "block_frame c d" "\<And>ys e. saved_from c ys \<Longrightarrow> block_frame c e \<Longrightarrow> Q ys e" for r d Q
    using that by (auto intro!: state_save_wp cpost_jump_placeholder intro: saved_fromI block_frame_code)
  have save': "cpost (if r = COMPILE_REACHABLE then cbind (state_save d) (\<lambda>ns. COk (Some ns)) else COk None d) Q"
    if "block_frame c d" "\<And>ns e. saved_from c (map_option (\<lambda>s. ((), s)) ns) \<Longrightarrow> block_frame c e \<Longrightarrow> Q ns e" for r d Q
    using that(2) [OF _ that(1), of None] that(2) [OF _ that(1), of "Some (state_of d)"]
      saved_fromI(1) [OF that(1), of "()"] saved_fromI(2) [of c]
    by (cases "r = COMPILE_REACHABLE") (simp_all add: state_save_def)
  have emit: "cpost (euoffset n d) Q" "cpost (patchc at n d) Q"
    if "block_frame c d" "\<And>e. block_frame c e \<Longrightarrow> Q () e" for n at d Q
    using that by (auto intro!: cpost_emits intro: block_frame_code)
  show ?thesis unfolding compile_branch_def cpost_cbind Let_def
    by (rule state_save_wp, rule cpost_mono [OF compile_cond_post], use c in \<open>simp add: compile_inv_def\<close>,
        rule cpost_mono [OF head], assumption,
        rule emit(1), assumption, rule emit(1), assumption, rule emit(2), assumption,
        rule arm, assumption, rule save, assumption, rule restore, assumption, rule emit(2), assumption,
        rule arm, assumption, rule save', assumption, rule branch_join_keeps)
qed

lemma compile_loop_keeps:
  assumes B: "block_ok B" and c: "compile_inv c" "func_ok (c_func c)"
  shows "keeps c (compile_loop B body c)"
proof -
  have body: "cpost (B body c1) (\<lambda>r d. cpost (if r = COMPILE_REACHABLE
             then (if state_equal d (state_of c) then csteps [eop B_JUMP, euoffset (u16 start)] d else CFail d)
             else COk () d) (\<lambda>_ d. cpost (scope_finish (code_len d) d) (\<lambda>hb d. cpost (state_restore (state_of c) d) (\<lambda>_. block_frame c))))"
    if c1: "c1 = c\<lparr>c_scopes := c_scopes c @ [s], c_scopes_cap := cap\<rparr>" and s: "scope_sig s = (c_frame_size c, c_crash_depth c)" for c1 s cap start
  proof (rule block_ok_from [OF B])
    show "compile_inv c1" "func_ok (c_func c1)" using compile_inv_push [OF c(1) s] c(2) c1 by auto
    fix r d assume b: "block_frame c1 d"
    have fin: "cpost (scope_finish (code_len e) e) (\<lambda>hb d. cpost (state_restore (state_of c) d) (\<lambda>_. block_frame c))"
      if e: "block_frame c1 e" for e
      by (rule scope_finish_wp, rule restore_frame [OF block_frame_refl], rule block_frame_pop) (use e c1 in auto)
    show "cpost (if r = COMPILE_REACHABLE
             then (if state_equal d (state_of c) then csteps [eop B_JUMP, euoffset (u16 start)] d else CFail d)
             else COk () d) (\<lambda>_ d. cpost (scope_finish (code_len d) d) (\<lambda>hb d. cpost (state_restore (state_of c) d) (\<lambda>_. block_frame c)))"
      using b by (auto simp del: csteps.simps intro!: fin cpost_emits intro: block_frame_code)
  qed
  show ?thesis unfolding compile_loop_def cpost_cbind Let_def cpost_simps(1)
    by (rule state_save_wp, rule scope_push_wp, rule body [OF refl], assumption)
qed

lemma compile_crash_pad_keeps:
  assumes B: "block_ok B" and c: "compile_inv c" "func_ok (c_func c)"
  shows "keeps c (compile_crash_pad B body pad c)"
proof -
  have inv: "compile_inv d" "func_ok (c_func d)" if "block_frame c d" for d
    using compile_inv_block [OF c(1) that] c(2) that by (simp_all add: block_frame_func)
  have deeper: "compile_inv (d\<lparr>c_crash_depth := Suc (c_crash_depth d)\<rparr>)" if "compile_inv d" for d
    using that by (auto simp: compile_inv_def var_ok_def Let_def)
  have up: "block_frame c (e\<lparr>c_crash_depth := c_crash_depth e - 1\<rparr>)"
    if "block_frame c d" "block_frame (d\<lparr>c_crash_depth := Suc (c_crash_depth d)\<rparr>) e" for d e
    using that by (auto simp: block_frame_def)
  have emit: "cpost (euoffset n d) Q" "cpost (patchc at n d) Q" "cpost (eop x d) Q"
    if "block_frame c d" "\<And>e. block_frame c e \<Longrightarrow> Q () e" for n at x d Q
    using that by (auto intro!: cpost_emits intro: block_frame_code)
  have arm: "cpost (B idx d) Q" if "block_frame c d" "\<And>r e. block_frame c e \<Longrightarrow> Q r e" for idx d Q
    by (rule block_ok_from [OF B inv [OF that(1)]]) (use that block_frame_trans in blast)
  have restore: "cpost (state_restore (state_of c) e) Q"
    if "block_frame c (e\<lparr>c_crash_depth := n\<rparr>)" "\<And>d. block_frame c d \<Longrightarrow> Q () d" for e Q n
  proof -
    have "cpost (state_restore (state_of c) e) (\<lambda>_. block_frame c)"
      using that(1) by (auto simp: state_restore_def state_of_def Let_def block_frame_def)
    then show ?thesis using that(2) by (auto elim!: cpost_mono)
  qed
  have save: "cpost (if r = COMPILE_REACHABLE
            then cbind (eop B_POP_CRASH d) (\<lambda>_ c. cbind (state_save (c\<lparr>c_crash_depth := c_crash_depth c - 1\<rparr>)) (\<lambda>bs c.
                 cbind (emit_jump_placeholder c) (\<lambda>p. COk (Some (p, bs))))) else COk None d) Q"
    if b: "block_frame c (d\<lparr>c_crash_depth := c_crash_depth d - 1\<rparr>)"
      and Q: "\<And>ys e n. saved_from c ys \<Longrightarrow> block_frame c (e\<lparr>c_crash_depth := n\<rparr>) \<Longrightarrow> Q ys e" for r d Q
  proof (cases "r = COMPILE_REACHABLE")
    case True
    have "cpost (eop B_POP_CRASH d) (\<lambda>_ c. cpost (state_save (c\<lparr>c_crash_depth := c_crash_depth c - 1\<rparr>)) (\<lambda>bs c.
                 cpost (emit_jump_placeholder c) (\<lambda>p. Q (Some (p, bs)))))"
    proof (rule cpost_emits(1), rule state_save_wp, rule cpost_jump_placeholder)
      fix d' p e assume d': "code_only d d'" and e: "code_only (d'\<lparr>c_crash_depth := c_crash_depth d' - 1\<rparr>) e"
      have f: "block_frame c (d'\<lparr>c_crash_depth := c_crash_depth d' - 1\<rparr>)"
        using b d' by (auto simp: code_only_def block_frame_def)
      then have g: "block_frame c (e\<lparr>c_crash_depth := c_crash_depth e\<rparr>)" using e by (simp add: block_frame_code)
      show "Q (Some (p, state_of (d'\<lparr>c_crash_depth := c_crash_depth d' - 1\<rparr>))) e"
        by (rule Q [OF saved_fromI(1) [OF f] g])
    qed
    then show ?thesis using True by (simp del: cpost_simps(4))
  next
    case False
    then show ?thesis using Q [OF saved_fromI(2) b] by simp
  qed
  have fin: "keeps c (case ys of None \<Rightarrow> COk COMPILE_UNREACHABLE e
      | Some (p, bs) \<Rightarrow> cbind (patchc p (code_len e) e) (\<lambda>_ c. cbind (state_restore bs c) (\<lambda>_. COk COMPILE_REACHABLE)))"
    if ys: "saved_from c ys" and e: "block_frame c e" for ys e
  proof (cases ys)
    case (Some q)
    then obtain p d where q: "q = (p, state_of d)" "block_frame c d" using ys by (cases q) (auto simp: saved_from_def)
    show ?thesis unfolding Some q(1) option.case prod.case cpost_cbind cpost_simps(1)
      by (rule emit(2) [OF e], rule restore_frame [OF q(2)])
  qed (use e in simp)
  show ?thesis unfolding compile_crash_pad_def cpost_cbind Let_def
  proof (rule state_save_wp, rule emit(3) [OF block_frame_refl], rule emit(1), assumption)
    fix d0 d assume d: "block_frame c d"
    show "cpost (B body (d\<lparr>c_crash_depth := c_crash_depth d + 1\<rparr>)) (\<lambda>r d'. cpost (if r = COMPILE_REACHABLE
            then cbind (eop B_POP_CRASH d') (\<lambda>_ c. cbind (state_save (c\<lparr>c_crash_depth := c_crash_depth c - 1\<rparr>)) (\<lambda>bs c.
                 cbind (emit_jump_placeholder c) (\<lambda>p. COk (Some (p, bs))))) else COk None d')
         (\<lambda>ys e. cpost (state_restore (state_of c) e) (\<lambda>_ e. cpost (patchc (code_len d0) (code_len e) e) (\<lambda>_ e.
            cpost (B pad e) (\<lambda>r e. cpost (if r = COMPILE_REACHABLE then eop B_CRASH e else COk () e) (\<lambda>_ e.
            keeps c (case ys of None \<Rightarrow> COk COMPILE_UNREACHABLE e
      | Some (p, bs) \<Rightarrow> cbind (patchc p (code_len e) e) (\<lambda>_ c. cbind (state_restore bs c) (\<lambda>_. COk COMPILE_REACHABLE)))))))))"
    proof (rule block_ok_from [OF B])
      show "compile_inv (d\<lparr>c_crash_depth := c_crash_depth d + 1\<rparr>)" "func_ok (c_func (d\<lparr>c_crash_depth := c_crash_depth d + 1\<rparr>))"
        using deeper [OF inv(1) [OF d]] inv(2) [OF d] by simp_all
      fix r e assume e: "block_frame (d\<lparr>c_crash_depth := c_crash_depth d + 1\<rparr>) e"
      have crash: "cpost (if r = COMPILE_REACHABLE then eop B_CRASH e else COk () e) (\<lambda>_ e.
            keeps c (case ys of None \<Rightarrow> COk COMPILE_UNREACHABLE e
      | Some (p, bs) \<Rightarrow> cbind (patchc p (code_len e) e) (\<lambda>_ c. cbind (state_restore bs c) (\<lambda>_. COk COMPILE_REACHABLE))))"
        if "saved_from c ys" "block_frame c e" for r e ys
        using that by (auto intro!: emit(3) fin)
      show "cpost (if r = COMPILE_REACHABLE
            then cbind (eop B_POP_CRASH e) (\<lambda>_ c. cbind (state_save (c\<lparr>c_crash_depth := c_crash_depth c - 1\<rparr>)) (\<lambda>bs c.
                 cbind (emit_jump_placeholder c) (\<lambda>p. COk (Some (p, bs))))) else COk None e)
         (\<lambda>ys e. cpost (state_restore (state_of c) e) (\<lambda>_ e. cpost (patchc (code_len d0) (code_len e) e) (\<lambda>_ e.
            cpost (B pad e) (\<lambda>r e. cpost (if r = COMPILE_REACHABLE then eop B_CRASH e else COk () e) (\<lambda>_ e.
            keeps c (case ys of None \<Rightarrow> COk COMPILE_UNREACHABLE e
      | Some (p, bs) \<Rightarrow> cbind (patchc p (code_len e) e) (\<lambda>_ c. cbind (state_restore bs c) (\<lambda>_. COk COMPILE_REACHABLE))))))))"
        by (rule save, rule up [OF d], use e in simp, rule restore, assumption, rule emit(2), assumption,
            rule arm, assumption, rule crash)
    qed
  qed
qed

lemma compile_block_ok: "block_ok (compile_block n K)"
proof (induction n)
  case (Suc n)
  note B = Suc.IH
  show ?case unfolding block_ok_def
  proof (intro allI impI)
    fix idx c assume c: "compile_inv c" "func_ok (c_func c)"
    have jump: "keeps c (cbind (eop x c) (\<lambda>_. COk COMPILE_UNREACHABLE))" for x
      unfolding cpost_cbind by (rule cpost_emits) (simp add: code_only_block)
    show "keeps c (compile_block (Suc n) K idx c)"
    proof (cases "length (fn_blocks (c_func c)) \<le> idx")
      case False
      then have m: "fn_blocks (c_func c) ! idx \<in> set (fn_blocks (c_func c))" by simp
      show ?thesis
      proof (cases "fn_blocks (c_func c) ! idx")
        case (BLOCK_BASIC r)
        then show ?thesis using False c m compile_basic_keeps [of c r K] by (auto simp: func_ok_def compile_inv_def dest: bspec)
      next
        case (BLOCK_VAR v body)
        then show ?thesis using False compile_var_keeps [OF B c] by simp
      next
        case (BLOCK_MANY cur nxt)
        then show ?thesis using False compile_many_keeps [OF B c] by simp
      next
        case (BLOCK_LOOP body)
        then show ?thesis using False compile_loop_keeps [OF B c] by simp
      next
        case (BLOCK_BRANCH cond yes no)
        then show ?thesis using False compile_branch_keeps [OF B c] by simp
      next
        case (BLOCK_CRASH_PAD body pad)
        then show ?thesis using False compile_crash_pad_keeps [OF B c] by simp
      qed (use False compile_break_keeps jump in simp_all)
    qed simp
  qed
qed (simp add: block_ok_def)

end
