(* ===== verification/Machine.thy ===== *)
theory Machine
  imports Bytecode
begin

text \<open>
  The virtual machine of \<^verbatim>\<open>vm.c\<close>: the state of \<^verbatim>\<open>vm.h\<close>, the helpers \<^verbatim>\<open>push_param\<close> to
  \<^verbatim>\<open>vm_set_crash_frame\<close>, and \<^verbatim>\<open>vm_run\<close> as a function that executes one instruction.

  Memory is one flat map from addresses to bytes that holds code, storage, globals and whatever
  natives own.  Pointers are numbers below 2 to the power 64.  An instruction ends in one of
  four ways (\<^verbatim>\<open>ctl\<close>): the loop continues, the code jumps to its crash label, the function
  returns, or the C program has undefined behaviour (an access outside mapped memory, a signed
  overflow).  Allocation (which sizes succeed, where a moved storage ends up) and the native
  functions are the parameters of the model.
\<close>

section \<open>State\<close>

datatype vm_result =
    VM_OK
  | VM_CRASH
  | VM_HARD_CRASH
  | VM_OOM_PARAM
  | VM_OOM_STORAGE
  | VM_OOM_CRASH
  | VM_PARAM_UNDERFLOW
  | VM_STORAGE_UNDERFLOW
  | VM_CRASH_UNDERFLOW
  | VM_BAD_CRASH_FRAME
  | VM_INVALID_STORAGE_OFFSET
  | VM_INVALID_ARG
  | VM_NULL_GLOBAL
  | VM_ARRAY_BOUNDS
  | VM_DIV_BY_ZERO
  | VM_ARRAY_CAPACITY
  | VM_ARRAY_UNDERFLOW
  | VM_NULL_CALL_TARGET
  | VM_NULL_NATIVE_FUNC
  | VM_INVALID_BYTECODE

record crash_frame =
  cf_pc :: nat
  cf_base :: nat
  cf_storage_len :: nat
  cf_param_len :: nat
  cf_param_base :: nat

text \<open>The parameter stack has its bottom first, the crash stack its top.\<close>

record 'u vm =
  vm_mem :: mem
  vm_storage :: nat
  vm_storage_len :: nat
  vm_storage_cap :: nat
  vm_params :: "nat list"
  vm_params_cap :: nat
  vm_crashes :: "crash_frame list"
  vm_crashes_cap :: nat
  vm_user :: 'u

text \<open>The local variables of \<^verbatim>\<open>vm_run\<close>.\<close>

record 'u mach = "'u vm" +
  pc :: nat
  base :: nat
  param_base :: nat
  ans :: vm_result

datatype 'u ctl = Continue "'u mach" | Crashing "'u mach" | Return vm_result "'u mach" | Undefined

record 'u vm_env =
  e_alloc :: "nat \<Rightarrow> bool"
  e_place :: "mem \<Rightarrow> nat \<Rightarrow> nat"
  e_native :: "nat \<Rightarrow> 'u vm \<Rightarrow> (vm_result \<times> 'u vm) option"

section \<open>Helpers\<close>

definition push_param :: "'u vm_env \<Rightarrow> nat \<Rightarrow> ('u, 'a) vm_scheme \<Rightarrow> ('u, 'a) vm_scheme option" where
  "push_param E p v = (case push_grow (e_alloc E) 32 8 p (vm_params v, vm_params_cap v) of
     None \<Rightarrow> None
   | Some (ps, cap) \<Rightarrow> Some (v\<lparr>vm_params := ps, vm_params_cap := cap\<rparr>))"

text \<open>The interface natives use: it does not grow the stack.\<close>

definition vm_push_param :: "nat \<Rightarrow> 'u vm \<Rightarrow> vm_result \<times> 'u vm" where
  "vm_push_param p v = (if vm_params_cap v \<le> length (vm_params v) then (VM_OOM_PARAM, v)
     else (VM_OK, v\<lparr>vm_params := vm_params v @ [p]\<rparr>))"

definition push_crash :: "'u vm_env \<Rightarrow> nat \<Rightarrow> nat \<Rightarrow> nat \<Rightarrow> ('u, 'a) vm_scheme \<Rightarrow> ('u, 'a) vm_scheme option" where
  "push_crash E p b pb v =
     (let n = length (vm_crashes v);
          cap = (if n = vm_crashes_cap v then (if n = 0 then 16 else n * 2) else vm_crashes_cap v) in
      if n = vm_crashes_cap v \<and> \<not> e_alloc E (cap * 40) then None
      else Some (v\<lparr>vm_crashes := \<lparr>cf_pc = p, cf_base = b, cf_storage_len = vm_storage_len v,
             cf_param_len = length (vm_params v), cf_param_base = pb\<rparr> # vm_crashes v,
             vm_crashes_cap := cap\<rparr>))"

text \<open>
  Reallocating the storage: the old block is gone, the new one starts with its contents.  Bytes
  beyond the old block are indeterminate until \<^verbatim>\<open>memset\<close> writes them; zero stands for them.
\<close>

definition realloc_mem :: "mem \<Rightarrow> nat \<Rightarrow> nat \<Rightarrow> nat \<Rightarrow> nat \<Rightarrow> mem" where
  "realloc_mem m old oldcap new newcap = (\<lambda>a.
     if new \<le> a \<and> a < new + newcap then (if a - new < oldcap then m (old + (a - new)) else Some 0)
     else if old \<le> a \<and> a < old + oldcap then None
     else m a)"

text \<open>The flag is the C result; \<^term>\<open>None\<close> is a write to unmapped memory.\<close>

definition storage_resize :: "'u vm_env \<Rightarrow> int \<Rightarrow> ('u, 'a) vm_scheme \<Rightarrow> (bool \<times> ('u, 'a) vm_scheme) option" where
  "storage_resize E amount v =
     (if amount < 0 then
        (let n = nat (- amount) in
         if vm_storage_len v < n then Some (False, v)
         else Some (True, v\<lparr>vm_storage_len := vm_storage_len v - n\<rparr>))
      else
        let need = vm_storage_len v + nat amount;
            cap = grow_cap (if vm_storage_cap v = 0 then 64 else vm_storage_cap v) need in
        if vm_storage_cap v < need \<and> \<not> e_alloc E cap then Some (False, v)
        else
          let v = (if vm_storage_cap v < need then
                (let new = e_place E (vm_mem v) cap in
                 v\<lparr>vm_mem := realloc_mem (vm_mem v) (vm_storage v) (vm_storage_cap v) new cap,
                   vm_storage := new, vm_storage_cap := cap\<rparr>) else v) in
          do {
            m \<leftarrow> store (vm_mem v) (vm_storage v + vm_storage_len v) (replicate (nat amount) 0);
            Some (True, v\<lparr>vm_mem := m, vm_storage_len := need\<rparr>)
          })"

text \<open>A return frame is three machine words: pc, base and parameter base.\<close>

definition return_bytes :: "nat \<Rightarrow> nat \<Rightarrow> nat \<Rightarrow> byte list" where
  "return_bytes p b pb = bytes_of_nat 8 p @ bytes_of_nat 8 b @ bytes_of_nat 8 pb"

definition storage_push_return :: "'u vm_env \<Rightarrow> nat \<Rightarrow> nat \<Rightarrow> nat \<Rightarrow> ('u, 'a) vm_scheme \<Rightarrow> (bool \<times> ('u, 'a) vm_scheme) option" where
  "storage_push_return E p b pb v =
     do {
       (ok, v) \<leftarrow> storage_resize E 24 v;
       if \<not> ok then Some (False, v)
       else do {
         m \<leftarrow> store (vm_mem v) (vm_storage v + vm_storage_len v - 24) (return_bytes p b pb);
         Some (True, v\<lparr>vm_mem := m\<rparr>)
       }
     }"

text \<open>The first component is \<^term>\<open>None\<close> on underflow.\<close>

definition storage_pop_return :: "('u, 'a) vm_scheme \<Rightarrow> ((nat \<times> nat \<times> nat) option \<times> ('u, 'a) vm_scheme) option" where
  "storage_pop_return v =
     (if vm_storage_len v < 24 then Some (None, v)
      else
        let v = v\<lparr>vm_storage_len := vm_storage_len v - 24\<rparr> in
        do {
          bs \<leftarrow> load (vm_mem v) (vm_storage v + vm_storage_len v) 24;
          Some (Some (nat_of_bytes (take 8 bs), nat_of_bytes (take 8 (drop 8 bs)), nat_of_bytes (drop 16 bs)), v)
        })"

definition vm_free :: "'u vm \<Rightarrow> 'u vm" where
  "vm_free v = v\<lparr>vm_mem := (\<lambda>a. if vm_storage v \<le> a \<and> a < vm_storage v + vm_storage_cap v then None else vm_mem v a),
     vm_storage := 0, vm_storage_len := 0, vm_storage_cap := 0, vm_params := [], vm_params_cap := 0,
     vm_crashes := [], vm_crashes_cap := 0\<rparr>"

definition vm_set_crash_frame :: "'u mach \<Rightarrow> vm_result \<times> 'u mach" where
  "vm_set_crash_frame m = (case vm_crashes m of
     [] \<Rightarrow> (VM_CRASH_UNDERFLOW, m)
   | f # fs \<Rightarrow>
       let m = m\<lparr>vm_crashes := fs\<rparr> in
       if vm_storage_len m < cf_storage_len f then (VM_BAD_CRASH_FRAME, m)
       else if length (vm_params m) < cf_param_len f then (VM_BAD_CRASH_FRAME, m)
       else (VM_OK, m\<lparr>vm_storage_len := cf_storage_len f, vm_params := take (cf_param_len f) (vm_params m),
              pc := cf_pc f, base := cf_base f, param_base := cf_param_base f\<rparr>))"

section \<open>Reading operands and memory\<close>

definition with_offset :: "'u mach \<Rightarrow> (int \<Rightarrow> 'u mach \<Rightarrow> 'u ctl) \<Rightarrow> 'u ctl" where
  "with_offset m f = (case read_offset (vm_mem m) (pc m) of None \<Rightarrow> Undefined | Some (x, p) \<Rightarrow> f x (m\<lparr>pc := p\<rparr>))"

definition with_uoffset :: "'u mach \<Rightarrow> (nat \<Rightarrow> 'u mach \<Rightarrow> 'u ctl) \<Rightarrow> 'u ctl" where
  "with_uoffset m f = (case read_uoffset (vm_mem m) (pc m) of None \<Rightarrow> Undefined | Some (x, p) \<Rightarrow> f x (m\<lparr>pc := p\<rparr>))"

definition with_count :: "'u mach \<Rightarrow> (nat \<Rightarrow> 'u mach \<Rightarrow> 'u ctl) \<Rightarrow> 'u ctl" where
  "with_count m f = (case read_count (vm_mem m) (pc m) of None \<Rightarrow> Undefined | Some (x, p) \<Rightarrow> f x (m\<lparr>pc := p\<rparr>))"

definition with_size :: "'u mach \<Rightarrow> (nat \<Rightarrow> 'u mach \<Rightarrow> 'u ctl) \<Rightarrow> 'u ctl" where
  "with_size m f = (case read_size (vm_mem m) (pc m) of None \<Rightarrow> Undefined | Some (x, p) \<Rightarrow> f x (m\<lparr>pc := p\<rparr>))"

definition with_pointer :: "'u mach \<Rightarrow> (nat \<Rightarrow> 'u mach \<Rightarrow> 'u ctl) \<Rightarrow> 'u ctl" where
  "with_pointer m f = (case read_pointer (vm_mem m) (pc m) of None \<Rightarrow> Undefined | Some (x, p) \<Rightarrow> f x (m\<lparr>pc := p\<rparr>))"

definition with_load :: "'u mach \<Rightarrow> nat \<Rightarrow> nat \<Rightarrow> (byte list \<Rightarrow> 'u ctl) \<Rightarrow> 'u ctl" where
  "with_load m a k f = (case load (vm_mem m) a k of None \<Rightarrow> Undefined | Some bs \<Rightarrow> f bs)"

definition with_num :: "'u mach \<Rightarrow> nat \<Rightarrow> (int \<Rightarrow> 'u ctl) \<Rightarrow> 'u ctl" where
  "with_num m a f = with_load m a 8 (\<lambda>bs. f (signed 8 bs))"

definition with_len :: "'u mach \<Rightarrow> nat \<Rightarrow> (nat \<Rightarrow> 'u ctl) \<Rightarrow> 'u ctl" where
  "with_len m a f = with_load m a 4 (\<lambda>bs. f (nat_of_bytes bs))"

definition with_store :: "'u mach \<Rightarrow> nat \<Rightarrow> byte list \<Rightarrow> ('u mach \<Rightarrow> 'u ctl) \<Rightarrow> 'u ctl" where
  "with_store m a bs f = (case store (vm_mem m) a bs of None \<Rightarrow> Undefined | Some m' \<Rightarrow> f (m\<lparr>vm_mem := m'\<rparr>))"

text \<open>The first failure is the one that is reported.\<close>

definition crash :: "vm_result \<Rightarrow> 'u mach \<Rightarrow> 'u ctl" where
  "crash r m = Crashing (m\<lparr>ans := (if ans m = VM_OK then r else ans m)\<rparr>)"

abbreviation top_param :: "'u mach \<Rightarrow> nat" where "top_param m \<equiv> last (vm_params m)"
abbreviation pop_param :: "'u mach \<Rightarrow> 'u mach" where "pop_param m \<equiv> m\<lparr>vm_params := butlast (vm_params m)\<rparr>"
abbreviation set_top :: "nat \<Rightarrow> 'u mach \<Rightarrow> 'u mach" where
  "set_top p m \<equiv> m\<lparr>vm_params := butlast (vm_params m) @ [p]\<rparr>"

definition push_or_crash :: "'u vm_env \<Rightarrow> nat \<Rightarrow> 'u mach \<Rightarrow> 'u ctl" where
  "push_or_crash E p m = (case push_param E p m of None \<Rightarrow> crash VM_OOM_PARAM m | Some m \<Rightarrow> Continue m)"

section \<open>Instructions\<close>

definition do_ret :: "'u mach \<Rightarrow> 'u ctl" where
  "do_ret m = (case storage_pop_return m of
     None \<Rightarrow> Undefined
   | Some (None, m) \<Rightarrow> Return VM_STORAGE_UNDERFLOW m
   | Some (Some (p, b, pb), m) \<Rightarrow>
       if p = 0 then Return VM_OK m else Continue (m\<lparr>pc := p, base := b, param_base := pb\<rparr>))"

definition do_storage_add :: "'u vm_env \<Rightarrow> 'u mach \<Rightarrow> 'u ctl" where
  "do_storage_add E m = with_offset m (\<lambda>amount m. case storage_resize E amount m of
     None \<Rightarrow> Undefined
   | Some (True, m) \<Rightarrow> Continue m
   | Some (False, m) \<Rightarrow> crash (if amount < 0 then VM_STORAGE_UNDERFLOW else VM_OOM_STORAGE) m)"

definition do_push_var :: "'u vm_env \<Rightarrow> 'u mach \<Rightarrow> 'u ctl" where
  "do_push_var E m = with_offset m (\<lambda>offset m.
     if 0 < offset then Return VM_INVALID_STORAGE_OFFSET m
     else if vm_storage_len m < nat (- offset) then Return VM_INVALID_STORAGE_OFFSET m
     else push_or_crash E (vm_storage m + vm_storage_len m - nat (- offset)) m)"

definition do_push_arg :: "'u vm_env \<Rightarrow> 'u mach \<Rightarrow> 'u ctl" where
  "do_push_arg E m = with_count m (\<lambda>idx m.
     if length (vm_params m) \<le> u64 (param_base m + idx) then Return VM_INVALID_ARG m
     else push_or_crash E (vm_params m ! u64 (param_base m + idx)) m)"

definition do_push_global :: "'u vm_env \<Rightarrow> 'u mach \<Rightarrow> 'u ctl" where
  "do_push_global E m = with_pointer m (\<lambda>ptr m.
     if ptr = 0 then Return VM_NULL_GLOBAL m else push_or_crash E ptr m)"

definition do_drop_n :: "'u mach \<Rightarrow> 'u ctl" where
  "do_drop_n m = with_count m (\<lambda>n m.
     if length (vm_params m) < n then Return VM_PARAM_UNDERFLOW m
     else Continue (m\<lparr>vm_params := take (length (vm_params m) - n) (vm_params m)\<rparr>))"

definition do_push_arr_at :: "'u mach \<Rightarrow> 'u ctl" where
  "do_push_arr_at m = with_size m (\<lambda>data_offset m. with_size m (\<lambda>elem_size m. with_count m (\<lambda>capacity m.
     if length (vm_params m) < 2 then Return VM_PARAM_UNDERFLOW m
     else with_num m (top_param m) (\<lambda>idx.
       let m = pop_param m; arr = top_param m in
       with_len m arr (\<lambda>len.
         if idx < 0 \<or> len \<le> u32_of_int idx \<or> capacity \<le> u32_of_int idx then crash VM_ARRAY_BOUNDS m
         else Continue (set_top (u64 (arr + data_offset + elem_size * nat idx)) m))))))"

definition do_copy :: "'u mach \<Rightarrow> 'u ctl" where
  "do_copy m = with_size m (\<lambda>sz m.
     if length (vm_params m) < 2 then Return VM_PARAM_UNDERFLOW m
     else let src = top_param m; m = pop_param m in
       with_load m src sz (\<lambda>bs. with_store m (top_param m) bs Continue))"

text \<open>Signed arithmetic of \<^verbatim>\<open>num_t\<close>: an overflow is undefined, division truncates towards zero.\<close>

definition num_range :: "int \<Rightarrow> bool" where
  "num_range x \<longleftrightarrow> -9223372036854775808 \<le> x \<and> x < 9223372036854775808"

definition c_div :: "int \<Rightarrow> int \<Rightarrow> int" where
  "c_div a b = (if (a < 0) = (b < 0) then \<bar>a\<bar> div \<bar>b\<bar> else - (\<bar>a\<bar> div \<bar>b\<bar>))"

fun num_op :: "bytecode \<Rightarrow> int \<Rightarrow> int \<Rightarrow> int" where
  "num_op B_ADD a b = a + b"
| "num_op B_SUB a b = a - b"
| "num_op B_MUL a b = a * b"
| "num_op B_DIV a b = c_div a b"
| "num_op B_AND a b = and a b"
| "num_op B_OR a b = or a b"
| "num_op _ a b = xor a b"

definition do_binop :: "bytecode \<Rightarrow> 'u mach \<Rightarrow> 'u ctl" where
  "do_binop bop m =
     (if length (vm_params m) < 2 then Return VM_PARAM_UNDERFLOW m
      else with_num m (top_param m) (\<lambda>rhs.
        let m = pop_param m in
        with_num m (top_param m) (\<lambda>lhs.
          if bop = B_DIV \<and> rhs = 0 then crash VM_DIV_BY_ZERO m
          else let r = num_op bop lhs rhs in
            if \<not> num_range r then Undefined
            else with_store m (top_param m) (bytes_of_nat 8 (u64_of_int r)) Continue)))"

definition do_bit_not :: "'u mach \<Rightarrow> 'u ctl" where
  "do_bit_not m =
     (if vm_params m = [] then Return VM_PARAM_UNDERFLOW m
      else with_num m (top_param m) (\<lambda>x.
        with_store m (top_param m) (bytes_of_nat 8 (u64_of_int (- x - 1))) Continue))"

definition do_arr_push :: "'u mach \<Rightarrow> 'u ctl" where
  "do_arr_push m = with_size m (\<lambda>data_offset m. with_size m (\<lambda>elem_size m. with_count m (\<lambda>capacity m.
     if length (vm_params m) < 2 then Return VM_PARAM_UNDERFLOW m
     else let elem = top_param m; m = pop_param m; arr = top_param m in
       with_len m arr (\<lambda>len.
         if capacity \<le> len then crash VM_ARRAY_CAPACITY m
         else with_load m elem elem_size (\<lambda>bs.
           with_store m (u64 (arr + data_offset + elem_size * len)) bs (\<lambda>m.
           with_store m arr (bytes_of_nat 4 (u32 (len + 1))) Continue))))))"

definition do_arr_drop :: "'u mach \<Rightarrow> 'u ctl" where
  "do_arr_drop m =
     (if length (vm_params m) < 2 then Return VM_PARAM_UNDERFLOW m
      else with_num m (top_param m) (\<lambda>amount.
        let m = pop_param m; arr = top_param m in
        with_len m arr (\<lambda>len.
          if amount < 0 \<or> len < u32_of_int amount then crash VM_ARRAY_UNDERFLOW m
          else with_store m arr (bytes_of_nat 4 (len - u32_of_int amount)) Continue)))"

definition do_slice_from_arr :: "'u mach \<Rightarrow> 'u ctl" where
  "do_slice_from_arr m = with_size m (\<lambda>data_offset m. with_size m (\<lambda>elem_size m. with_size m (\<lambda>len_offset m.
     if length (vm_params m) < 2 then Return VM_PARAM_UNDERFLOW m
     else let arr = top_param m; m = pop_param m; slice = top_param m in
       with_len m arr (\<lambda>len.
         with_store m slice (bytes_of_nat 8 (u64 (arr + data_offset))) (\<lambda>m.
         with_store m (u64 (slice + len_offset)) (bytes_of_nat 4 len) Continue)))))"

definition do_slice_from_one :: "'u mach \<Rightarrow> 'u ctl" where
  "do_slice_from_one m = with_size m (\<lambda>len_offset m.
     if length (vm_params m) < 2 then Return VM_PARAM_UNDERFLOW m
     else let data = top_param m; m = pop_param m; slice = top_param m in
       with_store m slice (bytes_of_nat 8 data) (\<lambda>m.
       with_store m (u64 (slice + len_offset)) (bytes_of_nat 4 1) Continue))"

definition do_push_slice_at :: "'u mach \<Rightarrow> 'u ctl" where
  "do_push_slice_at m = with_size m (\<lambda>elem_size m. with_size m (\<lambda>len_offset m.
     if length (vm_params m) < 2 then Return VM_PARAM_UNDERFLOW m
     else with_num m (top_param m) (\<lambda>idx.
       let m = pop_param m; slice = top_param m in
       with_load m slice 8 (\<lambda>data. with_len m (u64 (slice + len_offset)) (\<lambda>len.
         if idx < 0 \<or> len \<le> u32_of_int idx then crash VM_ARRAY_BOUNDS m
         else Continue (set_top (u64 (nat_of_bytes data + elem_size * nat idx)) m))))))"

definition do_slice_move :: "bytecode \<Rightarrow> 'u mach \<Rightarrow> 'u ctl" where
  "do_slice_move bop m = with_size m (\<lambda>elem_size m. with_size m (\<lambda>len_offset m.
     if length (vm_params m) < 2 then Return VM_PARAM_UNDERFLOW m
     else with_num m (top_param m) (\<lambda>amount.
       let m = pop_param m in
       if amount < 0 then crash VM_ARRAY_BOUNDS m
       else let slice = top_param m in
         with_load m slice 8 (\<lambda>data. with_len m (u64 (slice + len_offset)) (\<lambda>len.
           if len < u32_of_int amount then crash VM_ARRAY_BOUNDS m
           else if bop = B_SLICE_INC
           then with_store m slice (bytes_of_nat 8 (u64 (nat_of_bytes data + elem_size * nat amount))) Continue
           else with_store m (u64 (slice + len_offset)) (bytes_of_nat 4 (len - u32_of_int amount)) Continue)))))"

definition do_push_struct_at :: "'u mach \<Rightarrow> 'u ctl" where
  "do_push_struct_at m = with_size m (\<lambda>field_offset m.
     if vm_params m = [] then Return VM_PARAM_UNDERFLOW m
     else Continue (set_top (u64 (top_param m + field_offset)) m))"

definition do_jump :: "'u mach \<Rightarrow> 'u ctl" where
  "do_jump m = with_uoffset m (\<lambda>target m. Continue (m\<lparr>pc := base m + target\<rparr>))"

definition do_branch :: "'u mach \<Rightarrow> 'u ctl" where
  "do_branch m = with_offset m (\<lambda>cond_offset m. with_uoffset m (\<lambda>yes m. with_uoffset m (\<lambda>no m.
     if 0 < cond_offset then Return VM_INVALID_STORAGE_OFFSET m
     else if vm_storage_len m < nat (- cond_offset) then Return VM_INVALID_STORAGE_OFFSET m
     else with_num m (vm_storage m + vm_storage_len m - nat (- cond_offset)) (\<lambda>cond.
       Continue (m\<lparr>pc := base m + (if cond \<noteq> 0 then yes else no)\<rparr>)))))"

definition do_branch_top :: "'u mach \<Rightarrow> 'u ctl" where
  "do_branch_top m = with_uoffset m (\<lambda>yes m. with_uoffset m (\<lambda>no m.
     if vm_params m = [] then Return VM_PARAM_UNDERFLOW m
     else with_num m (top_param m) (\<lambda>cond.
       Continue ((pop_param m)\<lparr>pc := base m + (if cond \<noteq> 0 then yes else no)\<rparr>))))"

definition do_push_crash :: "'u vm_env \<Rightarrow> 'u mach \<Rightarrow> 'u ctl" where
  "do_push_crash E m = with_uoffset m (\<lambda>target m.
     case push_crash E (base m + target) (base m) (param_base m) m of
       None \<Rightarrow> crash VM_OOM_CRASH m
     | Some m \<Rightarrow> Continue m)"

definition do_pop_crash :: "'u mach \<Rightarrow> 'u ctl" where
  "do_pop_crash m = (if vm_crashes m = [] then Return VM_CRASH_UNDERFLOW m
     else Continue (m\<lparr>vm_crashes := tl (vm_crashes m)\<rparr>))"

definition do_call :: "'u vm_env \<Rightarrow> 'u mach \<Rightarrow> 'u ctl" where
  "do_call E m = with_pointer m (\<lambda>target m. with_count m (\<lambda>argc m.
     if target = 0 then Return VM_NULL_CALL_TARGET m
     else if length (vm_params m) < argc then Return VM_PARAM_UNDERFLOW m
     else case storage_push_return E (pc m) (base m) (param_base m) m of
       None \<Rightarrow> Undefined
     | Some (False, m) \<Rightarrow> crash VM_OOM_STORAGE m
     | Some (True, m) \<Rightarrow>
         Continue (m\<lparr>base := target, pc := target, param_base := length (vm_params m) - argc\<rparr>)))"

definition do_call_native :: "'u vm_env \<Rightarrow> 'u mach \<Rightarrow> 'u ctl" where
  "do_call_native E m = with_count m (\<lambda>argc m.
     if vm_params m = [] then Return VM_PARAM_UNDERFLOW m
     else with_load m (top_param m) 8 (\<lambda>fnb.
       let fn = nat_of_bytes fnb; m = pop_param m in
       if length (vm_params m) < argc then Return VM_PARAM_UNDERFLOW m
       else if fn = 0 then Return VM_NULL_NATIVE_FUNC m
       else case e_native E fn (vm.truncate m) of
         None \<Rightarrow> Undefined
       | Some (r, v) \<Rightarrow>
           let m = vm.extend v (mach.fields (pc m) (base m) (param_base m) (ans m)) in
           if r = VM_HARD_CRASH then Return r m
           else if r \<noteq> VM_OK then crash r m
           else if length (vm_params m) < argc then Return VM_PARAM_UNDERFLOW m
           else Continue (m\<lparr>vm_params := take (length (vm_params m) - argc) (vm_params m)\<rparr>)))"

fun exec_instr :: "'u vm_env \<Rightarrow> bytecode \<Rightarrow> 'u mach \<Rightarrow> 'u ctl" where
  "exec_instr E B_DONE m = Return VM_OK m"
| "exec_instr E B_RET m = do_ret m"
| "exec_instr E B_STORAGE_ADD m = do_storage_add E m"
| "exec_instr E B_PUSH_VAR m = do_push_var E m"
| "exec_instr E B_PUSH_ARG m = do_push_arg E m"
| "exec_instr E B_DROP_N m = do_drop_n m"
| "exec_instr E B_PUSH_ARR_AT m = do_push_arr_at m"
| "exec_instr E B_COPY m = do_copy m"
| "exec_instr E B_ADD m = do_binop B_ADD m"
| "exec_instr E B_SUB m = do_binop B_SUB m"
| "exec_instr E B_MUL m = do_binop B_MUL m"
| "exec_instr E B_DIV m = do_binop B_DIV m"
| "exec_instr E B_AND m = do_binop B_AND m"
| "exec_instr E B_OR m = do_binop B_OR m"
| "exec_instr E B_XOR m = do_binop B_XOR m"
| "exec_instr E B_BIT_NOT m = do_bit_not m"
| "exec_instr E B_ARR_PUSH m = do_arr_push m"
| "exec_instr E B_ARR_DROP m = do_arr_drop m"
| "exec_instr E B_JUMP m = do_jump m"
| "exec_instr E B_BRANCH m = do_branch m"
| "exec_instr E B_BRANCH_TOP m = do_branch_top m"
| "exec_instr E B_PUSH_CRASH m = do_push_crash E m"
| "exec_instr E B_POP_CRASH m = do_pop_crash m"
| "exec_instr E B_CRASH m = crash VM_CRASH m"
| "exec_instr E B_HARD_CRASH m = Return VM_HARD_CRASH m"
| "exec_instr E B_PUSH_GLOBAL m = do_push_global E m"
| "exec_instr E B_CALL m = do_call E m"
| "exec_instr E B_CALL_NATIVE m = do_call_native E m"
| "exec_instr E B_SLICE_FROM_ARR m = do_slice_from_arr m"
| "exec_instr E B_PUSH_SLICE_AT m = do_push_slice_at m"
| "exec_instr E B_SLICE_INC m = do_slice_move B_SLICE_INC m"
| "exec_instr E B_SLICE_DEC m = do_slice_move B_SLICE_DEC m"
| "exec_instr E B_PUSH_STRUCT_AT m = do_push_struct_at m"
| "exec_instr E B_SLICE_FROM_ONE m = do_slice_from_one m"

section \<open>The run loop\<close>

text \<open>The loop after the crash label: frames that do not fit the stacks are skipped.\<close>

function unwind :: "'u mach \<Rightarrow> 'u ctl" where
  "unwind m = (case vm_set_crash_frame m of (r, m') \<Rightarrow>
     if r = VM_OK then Continue m'
     else let m' = m'\<lparr>ans := (if ans m' = VM_OK then r else ans m')\<rparr> in
       if vm_crashes m' = [] then Return (ans m') m' else unwind m')"
  by pat_completeness auto
termination
  by (relation "measure (\<lambda>m. length (vm_crashes m))")
    (auto simp: vm_set_crash_frame_def Let_def split: list.splits if_splits)

declare unwind.simps [simp del]

definition step :: "'u vm_env \<Rightarrow> 'u mach \<Rightarrow> 'u ctl" where
  "step E m = (case vm_mem m (pc m) of
     None \<Rightarrow> Undefined
   | Some b \<Rightarrow> (case opcode_of_byte b of
       None \<Rightarrow> Return VM_INVALID_BYTECODE (m\<lparr>pc := pc m + 1\<rparr>)
     | Some x \<Rightarrow> (case exec_instr E x (m\<lparr>pc := pc m + 1\<rparr>) of
         Crashing m \<Rightarrow> unwind m
       | c \<Rightarrow> c)))"

text \<open>The machine may run forever, so the number of instructions is bounded by fuel.\<close>

primrec run :: "'u vm_env \<Rightarrow> nat \<Rightarrow> 'u mach \<Rightarrow> 'u ctl" where
  "run E 0 m = Continue m"
| "run E (Suc n) m = (case step E m of Continue m' \<Rightarrow> run E n m' | c \<Rightarrow> c)"

text \<open>\<^verbatim>\<open>vm_run\<close> pushes a null return frame, whose \<^verbatim>\<open>pc\<close> ends the run, and starts at \<open>code\<close>.\<close>

definition vm_run :: "'u vm_env \<Rightarrow> nat \<Rightarrow> nat \<Rightarrow> 'u vm \<Rightarrow> 'u ctl" where
  "vm_run E n code v =
     (let start = (\<lambda>v. vm.extend v (mach.fields code code 0 VM_OK)) in
      case storage_push_return E 0 0 0 v of
        None \<Rightarrow> Undefined
      | Some (False, v) \<Rightarrow> Return VM_OOM_STORAGE (start v)
      | Some (True, v) \<Rightarrow> run E n (start v))"

end
