(* ===== verification/Machine_Inv.thy ===== *)
theory Machine_Inv
  imports Machine
begin

text \<open>
  The laws of the flat memory and the invariant of the machine: the live part of the storage
  lies inside its block, the block is mapped, and no stack is longer than its capacity.  Every
  instruction keeps it.
\<close>

section \<open>Loads and stores\<close>

lemma load_length: "load m a k = Some bs \<Longrightarrow> length bs = k"
  by (induction k arbitrary: a bs) (auto split: option.splits)

lemma load_mapped: "load m a k \<noteq> None \<longleftrightarrow> (\<forall>i<k. m (a + i) \<noteq> None)"
proof (induction k arbitrary: a)
  case (Suc k)
  have "(\<forall>i<Suc k. m (a + i) \<noteq> None) \<longleftrightarrow> m a \<noteq> None \<and> (\<forall>i<k. m (Suc a + i) \<noteq> None)"
    by (auto simp: All_less_Suc2)
  then show ?case using Suc.IH [of "Suc a"] by (auto split: option.splits)
qed simp

lemma load_cong: "(\<And>i. i < k \<Longrightarrow> m (a + i) = m' (b + i)) \<Longrightarrow> load m a k = load m' b k"
proof (induction k arbitrary: a b)
  case (Suc k)
  have "m a = m' b" using Suc.prems [of 0] by simp
  moreover have "load m (Suc a) k = load m' (Suc b) k"
    by (rule Suc.IH) (use Suc.prems [of "Suc i" for i] in simp)
  ultimately show ?case by (cases "m' b") simp_all
qed simp

lemma load_append:
  "load m a (j + k) = (case load m a j of None \<Rightarrow> None | Some xs \<Rightarrow> map_option ((@) xs) (load m (a + j) k))"
proof (induction j arbitrary: a)
  case 0
  have "map_option ((@) []) z = z" for z :: "byte list option" by (cases z) simp_all
  then show ?case by simp
next
  case (Suc j)
  have cons: "(\<lambda>x. b # xs @ x) = (@) (b # xs)" for b :: byte and xs by (rule ext) simp
  show ?case by (auto split: option.splits simp: Suc option.map_comp comp_def cons)
qed

lemma store_eq:
  "store m a bs = (if \<forall>i<length bs. m (a + i) \<noteq> None
     then Some (\<lambda>x. if a \<le> x \<and> x < a + length bs then Some (bs ! (x - a)) else m x) else None)"
proof (induction m a bs rule: store.induct)
  case (2 m a b bs)
  have all: "(\<forall>i<length (b # bs). m (a + i) \<noteq> None) \<longleftrightarrow> m a \<noteq> None \<and> (\<forall>i<length bs. m (Suc a + i) \<noteq> None)"
    by (auto simp: All_less_Suc2)
  show ?case
  proof (cases "m a = None")
    case False
    have f: "(\<lambda>x. if Suc a \<le> x \<and> x < Suc a + length bs then Some (bs ! (x - Suc a)) else (m(a \<mapsto> b)) x)
      = (\<lambda>x. if a \<le> x \<and> x < a + length (b # bs) then Some ((b # bs) ! (x - a)) else m x)"
    proof (rule ext)
      fix x
      have "(b # bs) ! (x - a) = bs ! (x - Suc a)" if "a < x"
      proof -
        from that have "x - a = Suc (x - Suc a)" by simp
        then show ?thesis by simp
      qed
      then show "(if Suc a \<le> x \<and> x < Suc a + length bs then Some (bs ! (x - Suc a)) else (m(a \<mapsto> b)) x)
        = (if a \<le> x \<and> x < a + length (b # bs) then Some ((b # bs) ! (x - a)) else m x)"
        by (cases "x < a"; cases "x = a") simp_all
    qed
    have g: "(\<forall>i<length bs. (m(a \<mapsto> b)) (Suc a + i) \<noteq> None) \<longleftrightarrow> (\<forall>i<length bs. m (Suc a + i) \<noteq> None)"
      by simp
    have eq: "store m a (b # bs) = store (m(a \<mapsto> b)) (Suc a) bs" by (simp only: store.simps False if_False)
    have h: "(\<forall>i<length (b # bs). m (a + i) \<noteq> None) \<longleftrightarrow> (\<forall>i<length bs. m (Suc a + i) \<noteq> None)"
      using all False by blast
    show ?thesis by (simp only: eq 2 [OF False] f g h)
  qed (use all in simp)
next
  case (1 m a)
  have "(\<lambda>x. if a \<le> x \<and> x < a + length [] then Some ([] ! (x - a)) else m x) = m" by (rule ext) auto
  then show ?case by simp
qed

lemma store_other: "store m a bs = Some m' \<Longrightarrow> x < a \<or> a + length bs \<le> x \<Longrightarrow> m' x = m x"
  by (auto simp: store_eq split: if_splits)

lemma store_mapped: "store m a bs = Some m' \<Longrightarrow> m' x \<noteq> None \<longleftrightarrow> m x \<noteq> None"
proof -
  assume s: "store m a bs = Some m'"
  then have all: "\<forall>i<length bs. m (a + i) \<noteq> None"
    and m': "m' = (\<lambda>x. if a \<le> x \<and> x < a + length bs then Some (bs ! (x - a)) else m x)"
    by (auto simp: store_eq split: if_splits)
  have "m x \<noteq> None" if "a \<le> x" "x < a + length bs" using spec [OF all, of "x - a"] that by auto
  then show ?thesis unfolding m' by (cases "a \<le> x \<and> x < a + length bs") auto
qed

lemma load_store_same: "store m a bs = Some m' \<Longrightarrow> load m' a (length bs) = Some bs"
proof -
  assume s: "store m a bs = Some m'"
  have "load (\<lambda>x. if a \<le> x \<and> x < a + length bs then Some (bs ! (x - a)) else m x) a (length bs) = Some bs"
  proof -
    have "load (\<lambda>x. if a \<le> x \<and> x < a + length bs then Some (bs ! (x - a)) else m x) a (length bs)
        = load (\<lambda>x. if x < length bs then Some (bs ! x) else None) 0 (length bs)"
      by (rule load_cong) simp
    also have "\<dots> = Some bs"
    proof -
      have "load (\<lambda>x. if x < length (xs @ ys) then Some ((xs @ ys) ! x) else None) (length xs) (length ys) = Some ys" for xs ys :: "byte list"
      proof (induction ys arbitrary: xs)
        case (Cons y ys)
        from Cons.IH [of "xs @ [y]"] show ?case by (simp cong: if_cong)
      qed simp
      from this [of "[]" bs] show ?thesis by (simp cong: if_cong)
    qed
    finally show ?thesis .
  qed
  then show ?thesis using s by (auto simp: store_eq split: if_splits)
qed

lemma load_store_other:
  "store m a bs = Some m' \<Longrightarrow> b + k \<le> a \<or> a + length bs \<le> b \<Longrightarrow> load m' b k = load m b k"
  by (rule load_cong) (auto simp: store_other)

section \<open>The invariant of the machine state\<close>

definition vm_ok :: "('u, 'a) vm_scheme \<Rightarrow> bool" where
  "vm_ok v \<longleftrightarrow> vm_storage_len v \<le> vm_storage_cap v
     \<and> (\<forall>a. vm_storage v \<le> a \<and> a < vm_storage v + vm_storage_cap v \<longrightarrow> vm_mem v a \<noteq> None)
     \<and> length (vm_params v) \<le> vm_params_cap v \<and> length (vm_crashes v) \<le> vm_crashes_cap v"

text \<open>What an instruction ends with satisfies \<open>P\<close>, unless the behaviour is undefined.\<close>

definition ctl_all :: "('u mach \<Rightarrow> bool) \<Rightarrow> 'u ctl \<Rightarrow> bool" where
  "ctl_all P c = (case c of Continue m \<Rightarrow> P m | Crashing m \<Rightarrow> P m | Return r m \<Rightarrow> P m | Undefined \<Rightarrow> True)"

lemma ctl_all_simps [simp]:
  "ctl_all P (Continue m) = P m" "ctl_all P (Crashing m) = P m" "ctl_all P (Return r m) = P m" "ctl_all P Undefined"
  by (simp_all add: ctl_all_def)

text \<open>Updates that keep the invariant whatever the state is.\<close>

lemma vm_ok_updates [simp]:
  "vm_ok (m\<lparr>pc := x\<rparr>) = vm_ok m" "vm_ok (m\<lparr>base := x\<rparr>) = vm_ok m" "vm_ok (m\<lparr>param_base := x\<rparr>) = vm_ok m"
  "vm_ok (m\<lparr>ans := r\<rparr>) = vm_ok m"
  by (simp_all add: vm_ok_def)

lemma vm_ok_shrink:
  "vm_ok v \<Longrightarrow> length ps \<le> length (vm_params v) \<Longrightarrow> vm_ok (v\<lparr>vm_params := ps\<rparr>)"
  "vm_ok v \<Longrightarrow> length cs \<le> length (vm_crashes v) \<Longrightarrow> vm_ok (v\<lparr>vm_crashes := cs\<rparr>)"
  "vm_ok v \<Longrightarrow> n \<le> vm_storage_len v \<Longrightarrow> vm_ok (v\<lparr>vm_storage_len := n\<rparr>)"
  by (auto simp: vm_ok_def)

lemma vm_ok_store: "vm_ok v \<Longrightarrow> store (vm_mem v) a bs = Some m' \<Longrightarrow> vm_ok (v\<lparr>vm_mem := m'\<rparr>)"
  using store_mapped [of "vm_mem v" a bs m'] by (simp add: vm_ok_def)

lemma vm_ok_push_param: "vm_ok v \<Longrightarrow> push_param E p v = Some v' \<Longrightarrow> vm_ok v'"
  by (auto simp: push_param_def vm_ok_def split: option.splits dest: push_grow_cap)

lemma vm_ok_push_crash: "vm_ok v \<Longrightarrow> push_crash E p b pb v = Some v' \<Longrightarrow> vm_ok v'"
  by (auto simp: push_crash_def vm_ok_def Let_def split: if_splits)

lemma realloc_mapped:
  assumes "\<forall>a. old \<le> a \<and> a < old + oldcap \<longrightarrow> m a \<noteq> None" "new \<le> a" "a < new + newcap"
  shows "realloc_mem m old oldcap new newcap a \<noteq> None"
  using spec [OF assms(1), of "old + (a - new)"] assms(2,3) by (auto simp: realloc_mem_def simp del: diff_add_assoc2 add_diff_assoc)

lemma vm_ok_storage_grow:
  assumes "vm_ok v" "storage_resize E amount v = Some (ok, v')" "0 \<le> amount \<and> vm_storage_cap v < vm_storage_len v + nat amount"
  shows "vm_ok v'"
proof -
  define cap where "cap = grow_cap (if vm_storage_cap v = 0 then 64 else vm_storage_cap v) (vm_storage_len v + nat amount)"
  define w where "w = v\<lparr>vm_mem := realloc_mem (vm_mem v) (vm_storage v) (vm_storage_cap v) (e_place E (vm_mem v) cap) cap,
                   vm_storage := e_place E (vm_mem v) cap, vm_storage_cap := cap\<rparr>"
  have cap: "vm_storage_len v + nat amount \<le> cap"
    unfolding cap_def by (rule grow_cap_enough) simp
  have w: "vm_ok (w\<lparr>vm_storage_len := vm_storage_len v + nat amount\<rparr>)"
  proof -
    have "\<forall>a. vm_storage v \<le> a \<and> a < vm_storage v + vm_storage_cap v \<longrightarrow> vm_mem v a \<noteq> None"
      using assms(1) by (simp add: vm_ok_def)
    note dom = realloc_mapped [OF this, of "e_place E (vm_mem v) cap" _ cap]
    have "vm_mem w a \<noteq> None" if "vm_storage w \<le> a" "a < vm_storage w + vm_storage_cap w" for a
    proof -
      have sel: "vm_mem w = realloc_mem (vm_mem v) (vm_storage v) (vm_storage_cap v) (e_place E (vm_mem v) cap) cap"
        "vm_storage w = e_place E (vm_mem v) cap" "vm_storage_cap w = cap" by (simp_all add: w_def)
      show ?thesis using that dom [of a] unfolding sel by blast
    qed
    then show ?thesis using assms(1) cap unfolding vm_ok_def by (auto simp: w_def)
  qed
  have eq: "storage_resize E amount v = (if \<not> e_alloc E cap then Some (False, v)
      else do { m \<leftarrow> store (vm_mem w) (vm_storage w + vm_storage_len v) (replicate (nat amount) 0);
        Some (True, w\<lparr>vm_mem := m, vm_storage_len := vm_storage_len v + nat amount\<rparr>) })"
    using assms(3) unfolding storage_resize_def Let_def cap_def [symmetric] by (simp add: w_def)
  show ?thesis
  proof (cases "e_alloc E cap")
    case True
    show ?thesis
    proof (cases "store (vm_mem w) (vm_storage w + vm_storage_len v) (replicate (nat amount) 0)")
      case None
      then show ?thesis using True assms(2) unfolding eq by simp
    next
      case (Some m')
      then have "v' = w\<lparr>vm_mem := m', vm_storage_len := vm_storage_len v + nat amount\<rparr>"
        using True assms(2) unfolding eq by simp
      then show ?thesis using vm_ok_store [OF w, of "vm_storage w + vm_storage_len v" "replicate (nat amount) 0" m'] Some
        by (simp add: vm_ok_def)
    qed
  qed (use assms(1,2) eq in simp)
qed

lemma vm_ok_storage_resize:
  assumes "vm_ok v" "storage_resize E amount v = Some (ok, v')"
  shows "vm_ok v'"
proof -
  consider "amount < 0" | "0 \<le> amount" "vm_storage_len v + nat amount \<le> vm_storage_cap v"
    | "0 \<le> amount" "vm_storage_cap v < vm_storage_len v + nat amount" by linarith
  then show ?thesis
  proof cases
    case 1
    then show ?thesis using assms by (auto simp: storage_resize_def Let_def vm_ok_def split: if_splits)
  next
    case 2
    then obtain m' where m': "store (vm_mem v) (vm_storage v + vm_storage_len v) (replicate (nat amount) 0) = Some m'"
        "v' = v\<lparr>vm_mem := m', vm_storage_len := vm_storage_len v + nat amount\<rparr>"
      using assms(2) by (auto simp: storage_resize_def Let_def bind_eq_Some_conv)
    then show ?thesis using vm_ok_store [OF assms(1) m'(1)] 2 by (simp add: vm_ok_def)
  next
    case 3
    then show ?thesis using vm_ok_storage_grow [OF assms] by blast
  qed
qed
text \<open>The machine never leaves its storage when it resizes it.\<close>

lemma storage_resize_defined:
  assumes v: "vm_ok v"
  shows "\<exists>ok v'. storage_resize E amount v = Some (ok, v')"
proof (cases "amount < 0")
  case False
  define cap where "cap = grow_cap (if vm_storage_cap v = 0 then 64 else vm_storage_cap v) (vm_storage_len v + nat amount)"
  have cap: "vm_storage_len v + nat amount \<le> cap"
    unfolding cap_def by (rule grow_cap_enough) simp
  have moved: "\<exists>m'. store (realloc_mem (vm_mem v) (vm_storage v) (vm_storage_cap v) new cap) (new + vm_storage_len v) (replicate (nat amount) 0) = Some m'" for new
    using cap v by (auto simp: store_eq realloc_mem_def vm_ok_def)
  obtain m1 where m1: "store (realloc_mem (vm_mem v) (vm_storage v) (vm_storage_cap v) (e_place E (vm_mem v) cap) cap)
      (e_place E (vm_mem v) cap + vm_storage_len v) (replicate (nat amount) 0) = Some m1" using moved by blast
  show ?thesis
  proof (cases "vm_storage_cap v < vm_storage_len v + nat amount")
    case True
    then show ?thesis using False m1 by (auto simp: storage_resize_def Let_def cap_def [symmetric])
  next
    case stay: False
    have "\<exists>m'. store (vm_mem v) (vm_storage v + vm_storage_len v) (replicate (nat amount) 0) = Some m'"
      using stay v by (auto simp: store_eq vm_ok_def)
    then show ?thesis using False stay by (auto simp: storage_resize_def Let_def)
  qed
qed (auto simp: storage_resize_def Let_def)

section \<open>Every instruction keeps the invariant\<close>

named_theorems ctl_intros \<open>what the building blocks of an instruction establish\<close>

lemma store_dom: "store m a bs = Some m' \<Longrightarrow> dom m' = dom m"
  using store_mapped [of m a bs m'] by (auto simp: dom_def)

lemma ctl_all_operands [ctl_intros]:
  "(\<And>x p. ctl_all P (f x (m\<lparr>pc := p\<rparr>))) \<Longrightarrow> ctl_all P (with_offset m f)"
  "(\<And>x p. ctl_all P (g x (m\<lparr>pc := p\<rparr>))) \<Longrightarrow> ctl_all P (with_uoffset m g)"
  "(\<And>x p. ctl_all P (g x (m\<lparr>pc := p\<rparr>))) \<Longrightarrow> ctl_all P (with_count m g)"
  "(\<And>x p. ctl_all P (g x (m\<lparr>pc := p\<rparr>))) \<Longrightarrow> ctl_all P (with_size m g)"
  "(\<And>x p. ctl_all P (g x (m\<lparr>pc := p\<rparr>))) \<Longrightarrow> ctl_all P (with_pointer m g)"
  by (simp_all add: with_offset_def with_uoffset_def with_count_def with_size_def with_pointer_def split: option.split)

lemma ctl_all_memory [ctl_intros]:
  "(\<And>bs. ctl_all P (f bs)) \<Longrightarrow> ctl_all P (with_load m a k f)"
  "(\<And>x. ctl_all P (g x)) \<Longrightarrow> ctl_all P (with_num m a g)"
  "(\<And>n. ctl_all P (h n)) \<Longrightarrow> ctl_all P (with_len m a h)"
  "(\<And>m'. dom m' = dom (vm_mem m) \<Longrightarrow> ctl_all P (kk (m\<lparr>vm_mem := m'\<rparr>))) \<Longrightarrow> ctl_all P (with_store m a bs kk)"
  by (simp_all add: with_load_def with_num_def with_len_def with_store_def store_dom split: option.split)

lemma ctl_all_if [ctl_intros]:
  "(b \<Longrightarrow> ctl_all P x) \<Longrightarrow> (\<not> b \<Longrightarrow> ctl_all P y) \<Longrightarrow> ctl_all P (if b then x else y)"
  by simp

lemma ctl_all_crash [ctl_intros]: "vm_ok m \<Longrightarrow> ctl_all vm_ok (crash r m)"
  by (simp add: crash_def)

lemma ctl_all_push_or_crash [ctl_intros]: "vm_ok m \<Longrightarrow> ctl_all vm_ok (push_or_crash E p m)"
  by (auto simp: push_or_crash_def crash_def dest: vm_ok_push_param split: option.split)

lemma vm_ok_set_top: "vm_ok m \<Longrightarrow> vm_params m \<noteq> [] \<Longrightarrow> vm_ok (set_top p m)"
  by (rule vm_ok_shrink) simp_all

lemma vm_ok_alt: "vm_ok v \<longleftrightarrow> vm_storage_len v \<le> vm_storage_cap v
     \<and> {vm_storage v..<vm_storage v + vm_storage_cap v} \<subseteq> dom (vm_mem v)
     \<and> length (vm_params v) \<le> vm_params_cap v \<and> length (vm_crashes v) \<le> vm_crashes_cap v"
  by (auto simp: vm_ok_def subset_iff dom_def)

lemmas vm_ok_keep = vm_ok_store vm_ok_shrink vm_ok_set_top

text \<open>The stack operations of an environment keep the invariant when its natives do.\<close>

definition natives_ok :: "'u vm_env \<Rightarrow> bool" where
  "natives_ok E \<longleftrightarrow> (\<forall>fn v r v'. e_native E fn v = Some (r, v') \<longrightarrow> vm_ok v \<longrightarrow> vm_ok v')"

lemma vm_ok_push_return: "vm_ok v \<Longrightarrow> storage_push_return E p b pb v = Some (ok, v') \<Longrightarrow> vm_ok v'"
  by (auto simp: storage_push_return_def bind_eq_Some_conv split: if_splits dest: vm_ok_storage_resize intro: vm_ok_store)

lemma ctl_all_ret: "vm_ok m \<Longrightarrow> ctl_all vm_ok (do_ret m)"
  by (auto simp: do_ret_def storage_pop_return_def Let_def vm_ok_shrink bind_eq_Some_conv split: option.split if_splits)

lemma ctl_all_call: "vm_ok m \<Longrightarrow> ctl_all vm_ok (do_call E m)"
  unfolding do_call_def
  by (intro ctl_intros) (auto split: option.split bool.split intro!: ctl_intros dest: vm_ok_push_return [rotated])

lemma ctl_all_storage_add: "vm_ok m \<Longrightarrow> ctl_all vm_ok (do_storage_add E m)"
  unfolding do_storage_add_def
  by (intro ctl_intros) (auto split: option.split bool.split intro!: ctl_intros dest: vm_ok_storage_resize [rotated])

lemma vm_ok_native:
  "vm_ok (vm.truncate m) = vm_ok m" "vm_ok (vm.extend v (mach.fields p b pb r)) = vm_ok v"
  by (simp_all add: vm_ok_def vm.defs mach.defs)

lemma native_ok: "e_native E fn v = Some (r, v') \<Longrightarrow> natives_ok E \<Longrightarrow> vm_ok v \<Longrightarrow> vm_ok v'"
  by (simp add: natives_ok_def)

lemma ctl_all_call_native: "natives_ok E \<Longrightarrow> vm_ok m \<Longrightarrow> ctl_all vm_ok (do_call_native E m)"
  unfolding do_call_native_def Let_def
  by (intro ctl_intros) (auto simp: vm_ok_native split: option.split intro!: ctl_intros vm_ok_keep dest!: native_ok)

lemma ctl_all_push_crash: "vm_ok m \<Longrightarrow> ctl_all vm_ok (do_push_crash E m)"
  unfolding do_push_crash_def
  by (intro ctl_intros) (auto split: option.split intro!: ctl_intros dest: vm_ok_push_crash [rotated])

lemmas plain_instrs = do_push_var_def do_push_arg_def do_push_global_def do_drop_n_def do_push_arr_at_def
  do_copy_def do_binop_def do_bit_not_def do_arr_push_def do_arr_drop_def do_slice_from_arr_def
  do_slice_from_one_def do_push_slice_at_def do_slice_move_def do_push_struct_at_def do_jump_def
  do_branch_def do_branch_top_def do_pop_crash_def

lemma ctl_all_readers:
  assumes "vm_ok m"
  shows "ctl_all vm_ok (do_push_var E m)" "ctl_all vm_ok (do_push_arg E m)" "ctl_all vm_ok (do_push_global E m)"
    "ctl_all vm_ok (do_drop_n m)" "ctl_all vm_ok (do_push_arr_at m)" "ctl_all vm_ok (do_push_slice_at m)"
    "ctl_all vm_ok (do_push_struct_at m)" "ctl_all vm_ok (do_jump m)" "ctl_all vm_ok (do_branch m)"
    "ctl_all vm_ok (do_branch_top m)" "ctl_all vm_ok (do_pop_crash m)"
  using assms unfolding plain_instrs Let_def
  by (intro ctl_intros; auto intro!: ctl_intros vm_ok_keep)+

lemma ctl_all_writers:
  assumes "vm_ok m"
  shows "ctl_all vm_ok (do_copy m)" "ctl_all vm_ok (do_binop x m)" "ctl_all vm_ok (do_bit_not m)" "ctl_all vm_ok (do_arr_push m)"
    "ctl_all vm_ok (do_arr_drop m)" "ctl_all vm_ok (do_slice_from_arr m)" "ctl_all vm_ok (do_slice_from_one m)"
    "ctl_all vm_ok (do_slice_move x m)"
  using assms unfolding plain_instrs Let_def vm_ok_alt
  by (intro ctl_intros; auto simp: crash_def)+

lemma ctl_all_exec:
  assumes "natives_ok E" "vm_ok m"
  shows "ctl_all vm_ok (exec_instr E x m)"
  using assms by (cases x) (simp_all add: ctl_all_readers ctl_all_writers ctl_all_ret ctl_all_call ctl_all_storage_add
      ctl_all_call_native ctl_all_push_crash ctl_all_crash)

lemma vm_ok_set_crash_frame: "vm_ok m \<Longrightarrow> vm_set_crash_frame m = (r, m') \<Longrightarrow> vm_ok m'"
  by (auto simp: vm_set_crash_frame_def Let_def vm_ok_def split: list.splits if_splits)

lemma ctl_all_unwind: "vm_ok m \<Longrightarrow> ctl_all vm_ok (unwind m)"
proof (induction m rule: unwind.induct)
  case (1 m)
  obtain r m' where s: "vm_set_crash_frame m = (r, m')" by fastforce
  with 1 have "vm_ok m'" by (blast intro: vm_ok_set_crash_frame)
  with 1 s show ?case by (subst unwind.simps) (simp add: Let_def)
qed

lemma ctl_all_step:
  assumes "natives_ok E" "vm_ok m"
  shows "ctl_all vm_ok (step E m)"
proof -
  have x: "ctl_all vm_ok (exec_instr E x (m\<lparr>pc := pc m + 1\<rparr>))" for x
    using assms by (intro ctl_all_exec) simp_all
  have "ctl_all vm_ok (case exec_instr E x (m\<lparr>pc := pc m + 1\<rparr>) of Crashing m \<Rightarrow> unwind m | c \<Rightarrow> c)" for x
    using x [of x] by (cases "exec_instr E x (m\<lparr>pc := pc m + 1\<rparr>)") (simp_all add: ctl_all_unwind)
  then show ?thesis using assms(2) by (simp add: step_def split: option.split)
qed

lemma ctl_all_run: "natives_ok E \<Longrightarrow> vm_ok m \<Longrightarrow> ctl_all vm_ok (run E n m)"
proof (induction n arbitrary: m)
  case (Suc n)
  from ctl_all_step [OF Suc.prems] Suc show ?case by (cases "step E m") auto
qed simp

end
