(* ===== verification/Machine_Props.thy ===== *)
theory Machine_Props
  imports Machine_Inv
begin

text \<open>
  Properties of the virtual machine: the invariant of its state, what the unwinding of crashes
  finds, calls and returns, the bounds checks of arrays and slices, and the operands.
\<close>

section \<open>Operands\<close>

text \<open>Memory holds a byte string at an address.\<close>

definition holds :: "mem \<Rightarrow> nat \<Rightarrow> byte list \<Rightarrow> bool" where
  "holds m a bs \<longleftrightarrow> load m a (length bs) = Some bs"

lemma holds_append: "holds m a (xs @ ys) \<longleftrightarrow> holds m a xs \<and> holds m (a + length xs) ys"
proof -
  have "holds m a (xs @ ys) \<longleftrightarrow> (\<exists>us vs. load m a (length xs) = Some us \<and> load m (a + length xs) (length ys) = Some vs \<and> us @ vs = xs @ ys)"
    by (auto simp: holds_def load_append split: option.split)
  moreover have "us @ vs = xs @ ys \<longleftrightarrow> us = xs \<and> vs = ys" if "load m a (length xs) = Some us" for us vs
    using load_length [OF that] by simp
  ultimately show ?thesis by (auto simp: holds_def)
qed

lemma holds_load: "holds m a bs \<Longrightarrow> length bs = k \<Longrightarrow> load m a k = Some bs"
  by (auto simp: holds_def)

lemma grow_bytes_data': "grow_bytes al n cb = Some cb' \<Longrightarrow> cb_data cb' = cb_data cb"
  by (auto simp: grow_bytes_def Let_def split: if_splits)

lemma emitted: "emit_bytes al bs cb = Some cb' \<Longrightarrow> cb_data cb' = cb_data cb @ bs"
  by (auto simp: emit_bytes_def bind_eq_Some_conv dest: grow_bytes_data')

lemma signed_offset: "signed 2 (bytes_of_nat 2 (nat (x mod 65536))) = s16 x"
proof -
  define y where "y = x mod 65536"
  have y: "0 \<le> y" "y < 65536" by (simp_all add: y_def)
  have "(x + 32768) mod 65536 = (y + 32768) mod 65536" by (simp add: y_def mod_add_left_eq)
  also have "\<dots> = (if y < 32768 then y + 32768 else y - 32768)"
  proof (cases "y < 32768")
    case False
    have "(y + 32768) mod 65536 = (y - 32768 + 1 * 65536) mod 65536" by (simp add: add.commute)
    also have "\<dots> = (y - 32768) mod 65536" by (rule mod_mult_self1)
    finally show ?thesis using y False by simp
  qed (use y in simp)
  finally have s: "s16 x = (if y < 32768 then y else y - 65536)" by (simp add: s16_def)
  have n: "nat_of_bytes (bytes_of_nat 2 (nat y)) = nat y"
    using nat_of_bytes_of_nat [of 2 "nat y"] y by (simp add: nat_less_iff)
  have "signed 2 (bytes_of_nat 2 (nat y)) = (if y < 32768 then y else y - 65536)"
    using y by (auto simp: signed_def Let_def n)
  then show ?thesis unfolding s y_def .
qed

lemma signed_num: "num_range x \<Longrightarrow> signed 8 (bytes_of_nat 8 (u64_of_int x)) = x"
proof -
  assume r: "num_range x"
  have n: "nat_of_bytes (bytes_of_nat 8 (u64_of_int x)) = u64_of_int x"
    using nat_of_bytes_of_nat [of 8 "u64_of_int x"] by simp
  have "signed 8 (bytes_of_nat 8 (u64_of_int x)) = s64_of_nat (u64_of_int x)"
    by (auto simp: signed_def Let_def n s64_of_nat_def)
  then show ?thesis using r by (simp add: num_range_def)
qed

text \<open>
  C18.  The readers of the machine invert the emitters of the compiler: an operand that was
  appended to a buffer is read back, narrowed to its width, from wherever the buffer is placed,
  and the reader ends right behind it.
\<close>

theorem operands_round_trip:
  assumes "holds m a (cb_data cb')"
  shows "(emit_offset al i cb = Some cb' \<longrightarrow> read_offset m (a + length (cb_data cb)) = Some (s16 i, a + length (cb_data cb')))
    \<and> (emit_uoffset al n cb = Some cb' \<longrightarrow> read_uoffset m (a + length (cb_data cb)) = Some (u16 n, a + length (cb_data cb')))
    \<and> (emit_count al n cb = Some cb' \<longrightarrow> read_count m (a + length (cb_data cb)) = Some (u32 n, a + length (cb_data cb')))
    \<and> (emit_size al n cb = Some cb' \<longrightarrow> read_size m (a + length (cb_data cb)) = Some (u64 n, a + length (cb_data cb')))
    \<and> (emit_pointer al n cb = Some cb' \<longrightarrow> read_pointer m (a + length (cb_data cb)) = Some (u64 n, a + length (cb_data cb')))"
proof -
  have operand: "load m (a + length (cb_data cb)) (length bs) = Some bs \<and> length (cb_data cb') = length (cb_data cb) + length bs"
    if "emit_bytes al bs cb = Some cb'" for bs
    using emitted [OF that] assms by (simp add: holds_append) (simp add: holds_def)
  have value_of: "nat_of_bytes (bytes_of_nat 2 (u16 n)) = u16 n" "nat_of_bytes (bytes_of_nat 4 (u32 n)) = u32 n"
    "nat_of_bytes (bytes_of_nat 8 (u64 n)) = u64 n"
    using nat_of_bytes_of_nat [of 2 "u16 n"] nat_of_bytes_of_nat [of 4 "u32 n"] nat_of_bytes_of_nat [of 8 "u64 n"]
    by simp_all
  show ?thesis
    using operand [of "bytes_of_nat 2 (nat (i mod 65536))"] operand [of "bytes_of_nat 2 (u16 n)"]
      operand [of "bytes_of_nat 4 (u32 n)"] operand [of "bytes_of_nat 8 (u64 n)"]
    by (auto simp: emit_offset_def emit_uoffset_def emit_count_def emit_size_def emit_pointer_def
        read_offset_def read_uoffset_def read_count_def read_size_def read_pointer_def signed_offset value_of)
qed

theorem operands_round_trip_witness:
  "read_count (map_of (zip [64..<68] (bytes_of_nat 4 300))) 64 = Some (300, 68)"
proof -
  let ?cb = "\<lparr>cb_data = [], cb_cap = 0\<rparr>"
  let ?cb' = "\<lparr>cb_data = bytes_of_nat 4 300, cb_cap = 64\<rparr>"
  have "holds (map_of (zip [64..<68] (bytes_of_nat 4 300))) 64 (cb_data ?cb')" by code_simp
  moreover have "emit_count (\<lambda>n. True) 300 ?cb = Some ?cb'" by code_simp
  ultimately show ?thesis using operands_round_trip [of _ 64 ?cb' "\<lambda>n. True" 0 ?cb 300] by simp
qed

lemma step_decode:
  "vm_mem m (pc m) = Some (opcode x) \<Longrightarrow>
     step E m = (case exec_instr E x (m\<lparr>pc := pc m + 1\<rparr>) of Crashing m \<Rightarrow> unwind m | c \<Rightarrow> c)"
  by (simp only: step_def option.case opcode_of_opcode)

section \<open>The state of the machine\<close>


text \<open>An empty machine, an allocator that serves every request at one address, no natives.\<close>

definition empty_vm :: "unit vm" where
  "empty_vm = \<lparr>vm_mem = (\<lambda>a. None), vm_storage = 0, vm_storage_len = 0, vm_storage_cap = 0, vm_params = [],
     vm_params_cap = 0, vm_crashes = [], vm_crashes_cap = 0, vm_user = ()\<rparr>"

definition plain_env :: "unit vm_env" where
  "plain_env = \<lparr>e_alloc = (\<lambda>n. True), e_place = (\<lambda>m n. 4096), e_native = (\<lambda>fn v. None)\<rparr>"

lemma empty_ok [simp]: "vm_ok empty_vm" and plain_natives [simp]: "natives_ok plain_env"
  by (simp_all add: vm_ok_def empty_vm_def natives_ok_def plain_env_def)


text \<open>
  Runs compose: the number of instructions granted only matters while the machine is
  running.  Granting more continues an unfinished run and does not change how a finished one ended.
\<close>

lemma run_add: "run E (n + k) m = (case run E n m of Continue m' \<Rightarrow> run E k m' | c \<Rightarrow> c)"
proof (induction n arbitrary: m)
  case (Suc n)
  then show ?case by (cases "step E m") auto
qed simp

section \<open>Crashes\<close>

definition fits :: "'u mach \<Rightarrow> crash_frame \<Rightarrow> bool" where
  "fits m f \<longleftrightarrow> cf_storage_len f \<le> vm_storage_len m \<and> cf_param_len f \<le> length (vm_params m)"

text \<open>The state in which the pad of a frame starts.\<close>

definition resume :: "'u mach \<Rightarrow> crash_frame list \<Rightarrow> crash_frame \<Rightarrow> 'u mach" where
  "resume m fs f = m\<lparr>vm_crashes := fs, vm_storage_len := cf_storage_len f,
     vm_params := take (cf_param_len f) (vm_params m), pc := cf_pc f, base := cf_base f, param_base := cf_param_base f\<rparr>"

text \<open>
  C16.  After a crash the machine resumes at the innermost crash pad whose saved stacks are not
  above the present ones, with the storage, the parameters and the code position of the moment
  the pad was entered; frames that do not fit are dropped.  Without such a pad the run ends with
  the first failure.
\<close>

theorem unwind_finds_pad:
  assumes "ans m \<noteq> VM_OK"
  shows "unwind m = (case dropWhile (\<lambda>f. \<not> fits m f) (vm_crashes m) of
     [] \<Rightarrow> Return (ans m) (m\<lparr>vm_crashes := []\<rparr>)
   | f # fs \<Rightarrow> Continue (resume m fs f))"
  using assms
proof (induction "vm_crashes m" arbitrary: m)
  case Nil
  then show ?case by (subst unwind.simps) (simp add: vm_set_crash_frame_def)
next
  case (Cons f fs)
  show ?case
  proof (cases "fits m f")
    case True
    then show ?thesis using Cons(2) [symmetric]
      by (subst unwind.simps) (simp add: vm_set_crash_frame_def fits_def resume_def Let_def)
  next
    case False
    then have s: "vm_set_crash_frame m = (VM_BAD_CRASH_FRAME, m\<lparr>vm_crashes := fs\<rparr>)"
      using Cons(2) [symmetric] by (auto simp: vm_set_crash_frame_def fits_def Let_def)
    have same: "fits (m\<lparr>vm_crashes := fs\<rparr>) = fits m" "resume (m\<lparr>vm_crashes := fs\<rparr>) = resume m"
      by (auto simp: fits_def resume_def fun_eq_iff)
    have "unwind (m\<lparr>vm_crashes := fs\<rparr>) = (case dropWhile (\<lambda>f. \<not> fits (m\<lparr>vm_crashes := fs\<rparr>) f) (vm_crashes (m\<lparr>vm_crashes := fs\<rparr>)) of
       [] \<Rightarrow> Return (ans (m\<lparr>vm_crashes := fs\<rparr>)) (m\<lparr>vm_crashes := fs, vm_crashes := []\<rparr>)
     | f # gs \<Rightarrow> Continue (resume (m\<lparr>vm_crashes := fs\<rparr>) gs f))"
      by (rule Cons(1)) (use Cons(3) in simp_all)
    then have "unwind (m\<lparr>vm_crashes := fs\<rparr>) = (case dropWhile (\<lambda>f. \<not> fits m f) fs of
       [] \<Rightarrow> Return (ans m) (m\<lparr>vm_crashes := []\<rparr>) | f # fs \<Rightarrow> Continue (resume m fs f))"
      unfolding same by (simp cong: list.case_cong)
    then show ?thesis using False Cons(2) [symmetric] Cons(3) s
      by (subst unwind.simps) (cases fs; simp add: Let_def)
  qed
qed

definition crash_demo :: "unit mach" where
  "crash_demo = vm.extend (empty_vm\<lparr>vm_storage_len := 24, vm_params := [7], vm_crashes :=
     [\<lparr>cf_pc = 1, cf_base = 1, cf_storage_len = 32, cf_param_len = 0, cf_param_base = 0\<rparr>,
      \<lparr>cf_pc = 9, cf_base = 5, cf_storage_len = 24, cf_param_len = 0, cf_param_base = 0\<rparr>]\<rparr>)
     (mach.fields 100 90 0 VM_DIV_BY_ZERO)"

theorem unwind_finds_pad_witness:
  "unwind crash_demo = Continue (resume crash_demo []
     \<lparr>cf_pc = 9, cf_base = 5, cf_storage_len = 24, cf_param_len = 0, cf_param_base = 0\<rparr>)"
  by (subst unwind_finds_pad) (simp_all add: crash_demo_def empty_vm_def vm.defs mach.defs fits_def)

section \<open>The storage stack\<close>

lemma store_zeros:
  assumes "store m a (replicate k 0) = Some m'"
  shows "x < a \<Longrightarrow> m' x = m x" "a \<le> x \<Longrightarrow> x < a + k \<Longrightarrow> m' x = Some 0"
  using assms by (auto simp: store_eq split: if_splits)

text \<open>A storage at \<open>st\<close> in a memory \<open>m\<close> whose new part was cleared.\<close>

lemma storage_grown:
  assumes "store m (st + len) (replicate k 0) = Some m'"
  shows "i < len \<Longrightarrow> m' (st + i) = m (st + i)" "len \<le> i \<Longrightarrow> i < len + k \<Longrightarrow> m' (st + i) = Some 0"
  using store_zeros [OF assms, of "st + i"] by simp_all

lemma storage_growth:
  assumes "vm_ok v" "0 \<le> amount" "storage_resize E amount v = Some (True, v')"
  shows "vm_storage_len v' = vm_storage_len v + nat amount \<and> vm_params v' = vm_params v \<and> vm_crashes v' = vm_crashes v
    \<and> vm.more v' = vm.more v
    \<and> (\<forall>i<vm_storage_len v. vm_mem v' (vm_storage v' + i) = vm_mem v (vm_storage v + i))
    \<and> (\<forall>i<nat amount. vm_mem v' (vm_storage v' + vm_storage_len v + i) = Some 0)"
proof (cases "vm_storage_cap v < vm_storage_len v + nat amount")
  case False
  then obtain m' where m': "store (vm_mem v) (vm_storage v + vm_storage_len v) (replicate (nat amount) 0) = Some m'"
    and v': "v' = v\<lparr>vm_mem := m', vm_storage_len := vm_storage_len v + nat amount\<rparr>"
    using assms by (auto simp: storage_resize_def Let_def bind_eq_Some_conv)
  show ?thesis using storage_grown [OF m'] v' by (simp add: add.assoc)
next
  case True
  define cap where "cap = grow_cap (if vm_storage_cap v = 0 then 64 else vm_storage_cap v) (vm_storage_len v + nat amount)"
  define new where "new = e_place E (vm_mem v) cap"
  have cap: "vm_storage_len v + nat amount \<le> cap"
    unfolding cap_def by (rule grow_cap_enough) simp
  from True assms(2,3) obtain m' where m': "store (realloc_mem (vm_mem v) (vm_storage v) (vm_storage_cap v) new cap)
      (new + vm_storage_len v) (replicate (nat amount) 0) = Some m'"
    and v': "vm_mem v' = m'" "vm_storage v' = new" "vm_storage_len v' = vm_storage_len v + nat amount"
      "vm_params v' = vm_params v" "vm_crashes v' = vm_crashes v" "vm.more v' = vm.more v"
    by (auto simp: storage_resize_def Let_def bind_eq_Some_conv cap_def [symmetric] new_def [symmetric] split: if_splits)
  have "realloc_mem (vm_mem v) (vm_storage v) (vm_storage_cap v) new cap (new + i) = vm_mem v (vm_storage v + i)"
    if "i < vm_storage_len v" for i
    using that assms(1) cap by (simp add: realloc_mem_def vm_ok_def)
  then show ?thesis using storage_grown [OF m'] v' by (simp add: add.assoc)
qed

text \<open>
  C27.  Growing the storage keeps its contents, even when the block moves, clears the new part
  and touches nothing else of the machine.
\<close>

theorem storage_grows:
  assumes "vm_ok v" "0 \<le> amount" "storage_resize E amount v = Some (True, v')"
  shows "vm_storage_len v' = vm_storage_len v + nat amount \<and> vm_params v' = vm_params v \<and> vm_crashes v' = vm_crashes v
    \<and> vm.more v' = vm.more v
    \<and> (\<forall>i<vm_storage_len v. vm_mem v' (vm_storage v' + i) = vm_mem v (vm_storage v + i))
    \<and> (\<forall>i<nat amount. vm_mem v' (vm_storage v' + vm_storage_len v + i) = Some 0)"
  by (rule storage_growth [OF assms])

theorem storage_grows_witness:
  "\<exists>v'. storage_resize plain_env 8 empty_vm = Some (True, v') \<and> vm_storage_len v' = 8
     \<and> vm_mem v' (vm_storage v' + 3) = Some 0"
proof -
  obtain b v' where r: "storage_resize plain_env 8 empty_vm = Some (b, v')"
    using storage_resize_defined [OF empty_ok] by blast
  have b: b using r by (auto simp: storage_resize_def empty_vm_def plain_env_def Let_def bind_eq_Some_conv split: if_splits)
  from storage_grows [OF empty_ok _ r [unfolded b [THEN iffD2 [OF eq_True]]]] r b show ?thesis
    by (auto simp: empty_vm_def)
qed

section \<open>Calls\<close>

lemma push_return_spec:
  assumes "vm_ok v" "storage_push_return E p b pb v = Some (True, v')"
  shows "vm_storage_len v' = vm_storage_len v + 24 \<and> vm_params v' = vm_params v \<and> vm_crashes v' = vm_crashes v
    \<and> vm.more v' = vm.more v
    \<and> (\<forall>i<vm_storage_len v. vm_mem v' (vm_storage v' + i) = vm_mem v (vm_storage v + i))
    \<and> load (vm_mem v') (vm_storage v' + vm_storage_len v) 24 = Some (return_bytes p b pb)"
proof -
  from assms(2) obtain w m' where w: "storage_resize E 24 v = Some (True, w)"
    and m': "store (vm_mem w) (vm_storage w + vm_storage_len w - 24) (return_bytes p b pb) = Some m'"
    and v': "v' = w\<lparr>vm_mem := m'\<rparr>"
    by (auto simp: storage_push_return_def bind_eq_Some_conv split: if_splits)
  have g: "vm_storage_len w = vm_storage_len v + 24" "vm_params w = vm_params v" "vm_crashes w = vm_crashes v"
    "vm.more w = vm.more v" "\<And>i. i < vm_storage_len v \<Longrightarrow> vm_mem w (vm_storage w + i) = vm_mem v (vm_storage v + i)"
    using storage_growth [OF assms(1) _ w] by simp_all
  have m24: "store (vm_mem w) (vm_storage w + vm_storage_len v) (return_bytes p b pb) = Some m'"
    using m' g(1) by simp
  have "m' (vm_storage w + i) = vm_mem v (vm_storage v + i)" if "i < vm_storage_len v" for i
    using store_other [OF m24, of "vm_storage w + i"] that g(5) by simp
  then show ?thesis using g v' load_store_same [OF m24] by (simp add: return_bytes_def)
qed

lemma return_words:
  assumes "p < W64" "b < W64" "pb < W64"
  shows "nat_of_bytes (take 8 (return_bytes p b pb)) = p" "nat_of_bytes (take 8 (drop 8 (return_bytes p b pb))) = b"
    "nat_of_bytes (drop 16 (return_bytes p b pb)) = pb"
  using nat_of_bytes_of_nat [of 8 p] nat_of_bytes_of_nat [of 8 b] nat_of_bytes_of_nat [of 8 pb] assms
  by (simp_all add: return_bytes_def)

text \<open>The operands of an instruction, as the machine finds them.\<close>

lemma with_operands:
  "with_pointer m f = (case read_pointer (vm_mem m) (pc m) of None \<Rightarrow> Undefined | Some (x, p) \<Rightarrow> f x (m\<lparr>pc := p\<rparr>))"
  "with_count m f = (case read_count (vm_mem m) (pc m) of None \<Rightarrow> Undefined | Some (x, p) \<Rightarrow> f x (m\<lparr>pc := p\<rparr>))"
  by (simp_all add: with_pointer_def with_count_def)

lemma read_next:
  "read_pointer mm a = Some (x, p) \<Longrightarrow> p = a + 8" "read_count mm a = Some (n, p) \<Longrightarrow> p = a + 4"
  by (auto simp: read_pointer_def read_count_def)

lemma do_call_cases:
  assumes "do_call E m = Continue m1"
  obtains target argc w where "read_pointer (vm_mem m) (pc m) = Some (target, pc m + 8)"
    "read_count (vm_mem m) (pc m + 8) = Some (argc, pc m + 12)" "target \<noteq> 0" "argc \<le> length (vm_params m)"
    "storage_push_return E (pc m + 12) (base m) (param_base m) (m\<lparr>pc := pc m + 12\<rparr>) = Some (True, w)"
    "m1 = w\<lparr>base := target, pc := target, param_base := length (vm_params w) - argc\<rparr>"
proof -
  from assms obtain target p where t: "read_pointer (vm_mem m) (pc m) = Some (target, p)"
    by (auto simp: do_call_def with_operands split: option.splits)
  then have p: "p = pc m + 8" by (rule read_next)
  from assms t obtain argc q where c: "read_count (vm_mem m) p = Some (argc, q)"
    by (auto simp: do_call_def with_operands split: option.splits)
  then have q: "q = pc m + 12" using p read_next(2) [OF c] by simp
  from assms t c p q obtain w where w: "storage_push_return E (pc m + 12) (base m) (param_base m) (m\<lparr>pc := pc m + 12\<rparr>) = Some (True, w)"
    "m1 = w\<lparr>base := target, pc := target, param_base := length (vm_params w) - argc\<rparr>"
    by (auto simp: do_call_def with_operands crash_def split: option.splits bool.splits if_splits)
  show ?thesis
    by (rule that [OF _ _ _ _ w]) (use assms t c p q in \<open>auto simp: do_call_def with_operands crash_def split: option.splits bool.splits if_splits\<close>)
qed

text \<open>
  C17.  A call followed by the return of the callee resumes the caller right behind the call,
  with the caller's code, parameter base and storage height, as long as the callee leaves the
  storage as high as it found it and the return frame in place.
\<close>

theorem call_returns:
  assumes "vm_ok m" "do_call E m = Continue m1" "pc m + 12 < W64" "base m < W64" "param_base m < W64"
    and "vm_storage_len m2 = vm_storage_len m1"
    and "load (vm_mem m2) (vm_storage m2 + vm_storage_len m) 24 = load (vm_mem m1) (vm_storage m1 + vm_storage_len m) 24"
  shows "do_ret m2 = Continue (m2\<lparr>vm_storage_len := vm_storage_len m, pc := pc m + 12, base := base m, param_base := param_base m\<rparr>)"
proof -
  from assms(2) obtain target argc w where
    w: "storage_push_return E (pc m + 12) (base m) (param_base m) (m\<lparr>pc := pc m + 12\<rparr>) = Some (True, w)"
    and m1: "m1 = w\<lparr>base := target, pc := target, param_base := length (vm_params w) - argc\<rparr>"
    by (rule do_call_cases)
  have ok: "vm_ok (m\<lparr>pc := pc m + 12\<rparr>)" using assms(1) by simp
  have l: "vm_storage_len m1 = vm_storage_len m + 24"
    "load (vm_mem m1) (vm_storage m1 + vm_storage_len m) 24 = Some (return_bytes (pc m + 12) (base m) (param_base m))"
    using push_return_spec [OF ok w] m1 by simp_all
  show ?thesis
    using l assms(3-7) return_words [OF assms(3-5)]
    by (simp add: do_ret_def storage_pop_return_def Let_def)
qed

text \<open>A machine that is about to call the code at address 500 with one of its two parameters.\<close>

definition call_demo :: "unit mach" where
  "call_demo = vm.extend (empty_vm\<lparr>vm_mem := map_of (zip [200..<212] (bytes_of_nat 8 500 @ bytes_of_nat 4 1)),
     vm_params := [3, 4], vm_params_cap := 32\<rparr>) (mach.fields 200 199 0 VM_OK)"

lemma call_demo_ok: "vm_ok call_demo"
  by (simp add: call_demo_def vm_ok_def empty_vm_def vm.defs mach.defs)

lemma call_demo_runs: "(case do_call plain_env call_demo of Continue m \<Rightarrow> pc m = 500 \<and> param_base m = 1 | _ \<Rightarrow> False)"
  by code_simp

theorem call_returns_witness:
  "\<exists>m1. do_call plain_env call_demo = Continue m1
     \<and> do_ret (m1\<lparr>pc := 777\<rparr>) = Continue (m1\<lparr>vm_storage_len := 0, pc := 212, base := 199, param_base := 0\<rparr>)"
proof -
  obtain m1 where m1: "do_call plain_env call_demo = Continue m1"
    using call_demo_runs by (cases "do_call plain_env call_demo") auto
  have "vm_storage_len call_demo = 0" "pc call_demo = 200" "base call_demo = 199" "param_base call_demo = 0"
    by (simp_all add: call_demo_def empty_vm_def vm.defs mach.defs)
  with call_returns [OF call_demo_ok m1, of "m1\<lparr>pc := 777\<rparr>"] m1 show ?thesis by simp
qed

text \<open>Where the storage does not fit, the old block is gone after the resize.\<close>

lemma storage_resize_moves:
  assumes "storage_resize E amount v = Some (True, v')" "0 \<le> amount" "vm_storage_cap v < vm_storage_len v + nat amount"
  shows "dom (vm_mem v') = dom (realloc_mem (vm_mem v) (vm_storage v) (vm_storage_cap v) (vm_storage v') (vm_storage_cap v'))"
proof -
  from assms obtain m' where m': "store (realloc_mem (vm_mem v) (vm_storage v) (vm_storage_cap v) (vm_storage v') (vm_storage_cap v'))
      (vm_storage v' + vm_storage_len v) (replicate (nat amount) 0) = Some m'" and v': "vm_mem v' = m'"
    by (auto simp: storage_resize_def Let_def bind_eq_Some_conv split: if_splits)
  show ?thesis unfolding v' by (rule store_dom [OF m'])
qed

text \<open>
  C29.  Growing the storage invalidates pointers into it, and a call grows it: when the return
  frame does not fit, the arguments of the callee that point to variables of the caller are
  left pointing into the block that was given back.
\<close>

theorem call_leaves_dangling:
  assumes "vm_ok m" "do_call E m = Continue m1" "vm_storage_cap m < vm_storage_len m + 24"
    and "vm_storage m1 + vm_storage_cap m1 \<le> vm_storage m \<or> vm_storage m + vm_storage_cap m \<le> vm_storage m1"
    and "p \<in> set (vm_params m)" "vm_storage m \<le> p" "p < vm_storage m + vm_storage_cap m"
  shows "p \<in> set (vm_params m1) \<and> vm_mem m1 p = None"
proof -
  from assms(2) obtain target argc w where
    w: "storage_push_return E (pc m + 12) (base m) (param_base m) (m\<lparr>pc := pc m + 12\<rparr>) = Some (True, w)"
    and m1: "m1 = w\<lparr>base := target, pc := target, param_base := length (vm_params w) - argc\<rparr>"
    by (rule do_call_cases)
  from w obtain u m' where u: "storage_resize E 24 (m\<lparr>pc := pc m + 12\<rparr>) = Some (True, u)"
    and m': "store (vm_mem u) (vm_storage u + vm_storage_len u - 24) (return_bytes (pc m + 12) (base m) (param_base m)) = Some m'"
    and wu: "w = u\<lparr>vm_mem := m'\<rparr>"
    by (auto simp: storage_push_return_def bind_eq_Some_conv split: if_splits)
  have "p \<notin> dom (realloc_mem (vm_mem m) (vm_storage m) (vm_storage_cap m) (vm_storage m1) (vm_storage_cap m1))"
    using assms(4,6,7) by (auto simp: realloc_mem_def)
  moreover have "dom (vm_mem m1) = dom (realloc_mem (vm_mem m) (vm_storage m) (vm_storage_cap m) (vm_storage m1) (vm_storage_cap m1))"
    using storage_resize_moves [OF u] assms(3) store_dom [OF m'] by (simp add: m1 wu)
  moreover have "vm_params m1 = vm_params m"
    using push_return_spec [OF _ w] assms(1) by (simp add: m1)
  ultimately show ?thesis using assms(5) by auto
qed

text \<open>A caller with a full storage block of 64 bytes at 1000 and a pointer to its last variable.\<close>

definition dangling_demo :: "unit mach" where
  "dangling_demo = vm.extend (empty_vm\<lparr>vm_mem := (\<lambda>a. if 1000 \<le> a \<and> a < 1064 then Some 0 else map_of (zip [200..<212] (bytes_of_nat 8 500 @ bytes_of_nat 4 1)) a),
     vm_storage := 1000, vm_storage_len := 64, vm_storage_cap := 64, vm_params := [1056], vm_params_cap := 32\<rparr>)
     (mach.fields 200 199 0 VM_OK)"

lemma dangling_demo_facts:
  "vm_storage dangling_demo = 1000" "vm_storage_len dangling_demo = 64" "vm_storage_cap dangling_demo = 64"
  "vm_params dangling_demo = [1056]"
  by (simp_all add: dangling_demo_def empty_vm_def vm.defs mach.defs)

lemma dangling_demo_ok: "vm_ok dangling_demo"
  by (simp add: vm_ok_def dangling_demo_facts) (simp add: dangling_demo_def empty_vm_def vm.defs mach.defs)

lemma dangling_demo_runs:
  "(case do_call plain_env dangling_demo of Continue m \<Rightarrow> vm_storage m = 4096 \<and> vm_storage_cap m = 128 | _ \<Rightarrow> False)"
  by code_simp

theorem call_leaves_dangling_witness:
  "\<exists>m1. do_call plain_env dangling_demo = Continue m1 \<and> 1056 \<in> set (vm_params m1) \<and> vm_mem m1 1056 = None"
proof -
  obtain m1 where m1: "do_call plain_env dangling_demo = Continue m1" "vm_storage m1 = 4096" "vm_storage_cap m1 = 128"
    using dangling_demo_runs by (cases "do_call plain_env dangling_demo") auto
  show ?thesis
    using call_leaves_dangling [OF dangling_demo_ok m1(1), of 1056] m1 by (simp add: dangling_demo_facts)
qed

section \<open>Bounds checks\<close>

lemma with_size_read:
  "with_size m f = (case read_size (vm_mem m) (pc m) of None \<Rightarrow> Undefined | Some (x, p) \<Rightarrow> f x (m\<lparr>pc := p\<rparr>))"
  by (simp add: with_size_def)

text \<open>The operands and the values an array access finds.\<close>

definition arr_at_setup :: "'u mach \<Rightarrow> nat \<Rightarrow> nat \<Rightarrow> nat \<Rightarrow> nat list \<Rightarrow> nat \<Rightarrow> int \<Rightarrow> nat \<Rightarrow> bool" where
  "arr_at_setup m off esize cap ps arr idx len \<longleftrightarrow>
     read_size (vm_mem m) (pc m) = Some (off, pc m + 8) \<and> read_size (vm_mem m) (pc m + 8) = Some (esize, pc m + 16)
     \<and> read_count (vm_mem m) (pc m + 16) = Some (cap, pc m + 20)
     \<and> (\<exists>ip. vm_params m = ps @ [arr, ip] \<and> map_option (signed 8) (load (vm_mem m) ip 8) = Some idx)
     \<and> map_option nat_of_bytes (load (vm_mem m) arr 4) = Some len"

lemma arr_at_spec:
  assumes "arr_at_setup m off esize cap ps arr idx len"
  shows "do_push_arr_at m = (if idx < 0 \<or> len \<le> u32_of_int idx \<or> cap \<le> u32_of_int idx
     then crash VM_ARRAY_BOUNDS (m\<lparr>pc := pc m + 20, vm_params := ps @ [arr]\<rparr>)
     else Continue (m\<lparr>pc := pc m + 20, vm_params := ps @ [u64 (arr + off + esize * nat idx)]\<rparr>))"
  using assms
  by (auto simp: arr_at_setup_def do_push_arr_at_def with_size_read with_operands with_num_def with_len_def with_load_def
      Let_def butlast_append)


text \<open>
  C30.  The check compares the index reduced to 32 bits but the address uses all of it: an index
  of a multiple of \<^verbatim>\<open>2^32\<close> above a valid one is let through and addresses memory outside the array.
\<close>

theorem array_access_truncates:
  assumes "arr_at_setup m off esize cap ps arr idx len" "idx = int i + 4294967296 * int k" "i < min len cap" "min len cap < W32"
  shows "do_push_arr_at m = Continue (m\<lparr>pc := pc m + 20, vm_params := ps @ [u64 (arr + off + esize * (i + 4294967296 * k))]\<rparr>)"
proof -
  have "i < W32" using assms(3,4) by linarith
  then have mod: "int i mod 4294967296 = int i" by (intro mod_pos_pos_trivial) simp_all
  have "u32_of_int idx = i" unfolding assms(2) u32_of_int_def mod_mult_self2 mod by (rule nat_int)
  moreover have "nat idx = i + 4294967296 * k" "0 \<le> idx"
    using assms(2) by (simp_all add: nat_add_distrib nat_mult_distrib)
  ultimately show ?thesis using arr_at_spec [OF assms(1)] assms(3) by simp
qed

text \<open>An array of one element of 8 bytes at 600, its index at 700.\<close>

definition array_demo :: "nat \<Rightarrow> unit mach" where
  "array_demo i = vm.extend (empty_vm\<lparr>vm_mem := map_of (
       zip [200..<220] (bytes_of_nat 8 8 @ bytes_of_nat 8 8 @ bytes_of_nat 4 1) @
       zip [600..<604] (bytes_of_nat 4 1) @ zip [700..<708] (bytes_of_nat 8 i)),
     vm_params := [600, 700], vm_params_cap := 32\<rparr>) (mach.fields 200 199 0 VM_OK)"

lemma array_demo_setup: "arr_at_setup (array_demo 0) 8 8 1 [] 600 0 1" "arr_at_setup (array_demo 4294967296) 8 8 1 [] 600 4294967296 1"
  unfolding arr_at_setup_def by (intro conjI exI [of _ 700]; code_simp)+


theorem array_access_truncates_witness:
  "do_push_arr_at (array_demo 4294967296) = Continue ((array_demo 4294967296)\<lparr>pc := 220, vm_params := [34359738976]\<rparr>)"
  using array_access_truncates [OF array_demo_setup(2), of 0 1] by (simp add: array_demo_def mach.defs vm.defs)

section \<open>Arithmetic\<close>

lemma store_ok: "load m a (length bs) = Some cs \<Longrightarrow> \<exists>m'. store m a bs = Some m'"
  using load_mapped [of m a "length bs"] by (auto simp: store_eq)


definition binop_demo :: "nat \<Rightarrow> nat \<Rightarrow> unit mach" where
  "binop_demo a b = vm.extend (empty_vm\<lparr>vm_mem := map_of (zip [600..<608] (bytes_of_nat 8 a) @ zip [700..<708] (bytes_of_nat 8 b)),
     vm_params := [600, 700], vm_params_cap := 32\<rparr>) (mach.fields 200 199 0 VM_OK)"


text \<open>
  The division of the machine truncates towards zero: the remainder is smaller than the
  divisor and has the sign of the dividend.
\<close>

lemma c_div_truncates:
  assumes "b \<noteq> 0"
  shows "\<bar>a - b * c_div a b\<bar> < \<bar>b\<bar> \<and> (a - b * c_div a b = 0 \<or> sgn (a - b * c_div a b) = sgn a)"
proof -
  define q where "q = \<bar>a\<bar> div \<bar>b\<bar>"
  define r where "r = \<bar>a\<bar> mod \<bar>b\<bar>"
  have d: "\<bar>a\<bar> = \<bar>b\<bar> * q + r" by (simp add: q_def r_def)
  have c: "c_div a b = (if (a < 0) = (b < 0) then q else - q)" by (simp add: c_div_def q_def)
  have bound: "0 \<le> r" "r < \<bar>b\<bar>" using assms by (simp_all add: r_def)
  have e: "a - b * c_div a b = (if a < 0 then - r else r)"
    unfolding c using d by (cases "a < 0"; cases "b < 0") (simp_all add: algebra_simps)
  have "r = 0 \<or> sgn (if a < 0 then - r else r) = sgn a"
  proof (cases "r = 0")
    case False
    then have "a \<noteq> 0" "0 < r" using bound by (auto simp: r_def)
    then show ?thesis by (cases "a < 0") simp_all
  qed simp
  then show ?thesis using bound unfolding e by auto
qed

theorem c_div_truncates_witness: "\<bar>- 7 - 2 * c_div (- 7) 2\<bar> < (2::int)"
  using c_div_truncates [of 2 "- 7"] by simp

section \<open>Slices\<close>

text \<open>The slice at an address: its data pointer and its length.\<close>

definition slice_is :: "mem \<Rightarrow> nat \<Rightarrow> nat \<Rightarrow> nat \<Rightarrow> nat \<Rightarrow> bool" where
  "slice_is mm lo s data len \<longleftrightarrow> map_option nat_of_bytes (load mm s 8) = Some data
     \<and> map_option nat_of_bytes (load mm (s + lo) 4) = Some len"

lemma slice_move_spec:
  assumes "read_size (vm_mem m) (pc m) = Some (esize, pc m + 8)" "read_size (vm_mem m) (pc m + 8) = Some (lo, pc m + 16)"
    and "vm_params m = ps @ [s, ip]" "map_option (signed 8) (load (vm_mem m) ip 8) = Some amount"
    and "slice_is (vm_mem m) lo s data len" "0 \<le> amount" "nat amount \<le> len" "len < W32" "s + lo < W64"
  shows "do_slice_move op m = (let m1 = m\<lparr>pc := pc m + 16, vm_params := ps @ [s]\<rparr> in
     if op = B_SLICE_INC then with_store m1 s (bytes_of_nat 8 (u64 (data + esize * nat amount))) Continue
     else with_store m1 (s + lo) (bytes_of_nat 4 (len - nat amount)) Continue)"
proof -
  have "u32_of_int amount = nat amount" using assms(6-8) by simp
  then show ?thesis using assms
    by (auto simp: do_slice_move_def with_size_read with_num_def with_len_def with_load_def slice_is_def Let_def butlast_append)
qed

text \<open>
  Shortening a slice and advancing it: \<^verbatim>\<open>OP_SLICE_DEC\<close> takes elements off the end, but
  \<^verbatim>\<open>OP_SLICE_INC\<close> moves the data pointer and keeps the length, so that the slice ends as many
  elements behind its former end as it was advanced and later accesses pass their bounds check
  outside of it.
\<close>

theorem slice_moves:
  assumes "read_size (vm_mem m) (pc m) = Some (esize, pc m + 8)" "read_size (vm_mem m) (pc m + 8) = Some (lo, pc m + 16)"
    and "vm_params m = ps @ [s, ip]" "map_option (signed 8) (load (vm_mem m) ip 8) = Some amount"
    and "slice_is (vm_mem m) lo s data len" "0 \<le> amount" "nat amount \<le> len" "len < W32" "s + lo < W64" "8 \<le> lo"
    and "data + esize * nat amount < W64"
  shows "\<exists>m1 m2. do_slice_move B_SLICE_INC m = Continue m1 \<and> slice_is (vm_mem m1) lo s (data + esize * nat amount) len
    \<and> do_slice_move B_SLICE_DEC m = Continue m2 \<and> slice_is (vm_mem m2) lo s data (len - nat amount)"
proof -
  obtain bs cs where l: "load (vm_mem m) s 8 = Some bs" "nat_of_bytes bs = data"
      "load (vm_mem m) (s + lo) 4 = Some cs" "nat_of_bytes cs = len"
    using assms(5) by (auto simp: slice_is_def)
  obtain mi where mi: "store (vm_mem m) s (bytes_of_nat 8 (data + esize * nat amount)) = Some mi"
    using store_ok [of "vm_mem m" s "bytes_of_nat 8 (data + esize * nat amount)"] l by auto
  obtain md where md: "store (vm_mem m) (s + lo) (bytes_of_nat 4 (len - nat amount)) = Some md"
    using store_ok [of "vm_mem m" "s + lo" "bytes_of_nat 4 (len - nat amount)"] l by auto
  have "slice_is mi lo s (data + esize * nat amount) len"
    using load_store_same [OF mi] load_store_other [OF mi, of "s + lo" 4] assms(10,11) l
      nat_of_bytes_of_nat [of 8 "data + esize * nat amount"] by (simp add: slice_is_def)
  moreover have "slice_is md lo s data (len - nat amount)"
    using load_store_same [OF md] load_store_other [OF md, of s 8] assms(8,10) l
      nat_of_bytes_of_nat [of 4 "len - nat amount"] by (simp add: slice_is_def)
  moreover note slice_move_spec [OF assms(1-9), of B_SLICE_INC] slice_move_spec [OF assms(1-9), of B_SLICE_DEC]
  ultimately show ?thesis using mi md assms(11) by (simp add: with_store_def Let_def)
qed

text \<open>A slice at 600 of two elements of 8 bytes from 800 on, to be moved by two.\<close>

definition slice_demo :: "unit mach" where
  "slice_demo = vm.extend (empty_vm\<lparr>vm_mem := map_of (
       zip [200..<216] (bytes_of_nat 8 8 @ bytes_of_nat 8 8) @
       zip [600..<612] (bytes_of_nat 8 800 @ bytes_of_nat 4 2) @ zip [700..<708] (bytes_of_nat 8 2)),
     vm_params := [600, 700], vm_params_cap := 32\<rparr>) (mach.fields 200 199 0 VM_OK)"

theorem slice_moves_witness:
  "\<exists>m1 m2. do_slice_move B_SLICE_INC slice_demo = Continue m1 \<and> slice_is (vm_mem m1) 8 600 816 2
    \<and> do_slice_move B_SLICE_DEC slice_demo = Continue m2 \<and> slice_is (vm_mem m2) 8 600 800 0"
proof -
  have "read_size (vm_mem slice_demo) (pc slice_demo) = Some (8, pc slice_demo + 8)"
    "read_size (vm_mem slice_demo) (pc slice_demo + 8) = Some (8, pc slice_demo + 16)"
    "vm_params slice_demo = [] @ [600, 700]" "map_option (signed 8) (load (vm_mem slice_demo) 700 8) = Some 2"
    "slice_is (vm_mem slice_demo) 8 600 800 2" by code_simp+
  from slice_moves [OF this] show ?thesis by simp
qed

end
