(* ===== verification/Compiler_Props.thy ===== *)
theory Compiler_Props
  imports Compiler_Inv Machine_Props
begin

text \<open>
  Properties of the bytecode compiler, some of them together with the machine that runs its code.
\<close>

section \<open>Balance\<close>


lemma compile_inv_start: "compile_inv (compiler_start al f x)"
  by (auto simp: compile_inv_def compiler_start_def var_ok_def vars_disjoint_def Let_def)

text \<open>A function with the builtin types, one variable and the given blocks and operations.\<close>

definition demo_func :: "block list \<Rightarrow> op list \<Rightarrow> func" where
  "demo_func bs xs = \<lparr>fn_name = None, fn_sig = \<lparr>s_ins = [], s_outs = []\<rparr>,
     fn_types = snd (the (type_layout_all [type_int, type_byte])), fn_blocks = bs, fn_ops = xs,
     fn_vars = [\<lparr>v_tid = 0, v_name = None\<rparr>]\<rparr>"

text \<open>\<open>Var Int X  Loop  (X X Assign)  Break  Again\<close>\<close>

definition demo_loop :: func where
  "demo_loop = demo_func
     [BLOCK_VAR 0 1, BLOCK_LOOP 2, BLOCK_MANY 3 4, BLOCK_BASIC \<lparr>r_start = 0, r_len = 3\<rparr>,
      BLOCK_CHAIN 5 BLOCK_INVALID, BLOCK_BREAK 2]
     [\<lparr>o_kind = OP_PUSH_VAR, o_extra = 0\<rparr>, \<lparr>o_kind = OP_PUSH_VAR, o_extra = 0\<rparr>, \<lparr>o_kind = OP_ASSIGN, o_extra = 0\<rparr>]"

lemma demo_loop_compiles:
  "case compile_block 9 (\<lambda>idx x. None) 0 (compiler_start (\<lambda>n. True) demo_loop None) of COk r c \<Rightarrow> True | _ \<Rightarrow> False"
  by code_simp


section \<open>Variables\<close>

lemma emit_push_var_code:
  assumes "emit_push_var v c = COk () c'"
  shows "v < length (fn_vars (c_func c))" "vl_live (c_vars c ! v)"
    "cb_data (c_code c') = cb_data (c_code c) @ [opcode B_PUSH_VAR] @ bytes_of_nat 2 (nat (var_rel c v mod 65536))"
proof -
  show v: "v < length (fn_vars (c_func c))" "vl_live (c_vars c ! v)"
    using assms by (auto simp: emit_push_var_def split: if_splits)
  then obtain cb1 cb2 where "emit_op (c_alloc c) B_PUSH_VAR (c_code c) = Some cb1"
      "emit_offset (c_alloc c) (var_rel c v) cb1 = Some cb2" "c_code c' = cb2"
    using assms by (auto simp: emit_push_var_def emitc_def push_type_def var_rel_def split: option.splits prod.splits)
  then show "cb_data (c_code c') = cb_data (c_code c) @ [opcode B_PUSH_VAR] @ bytes_of_nat 2 (nat (var_rel c v mod 65536))"
    by (auto simp: emit_op_def emit_offset_def dest!: emitted)
qed

text \<open>
  C14.  The pointer that compiled code pushes for a variable lies, with the whole variable, inside
  the part of the storage the current frame occupies: when the machine runs the instruction that
  the compiler emits for a live variable and its storage is at least as high as the frame, it
  does not refuse the offset, and what it pushes is the address \<open>frame - base\<close> below the top.
\<close>

theorem push_var_inside_frame:
  assumes "compile_inv c" "emit_push_var v c = COk () c'"
    and "holds (vm_mem m) (pc m) (drop (code_len c) (cb_data (c_code c')))"
    and "nat (c_frame_size c) \<le> vm_storage_len m"
  shows "\<exists>p. step E m = (case push_param E p (m\<lparr>pc := pc m + 3\<rparr>) of
        None \<Rightarrow> unwind (m\<lparr>pc := pc m + 3, ans := (if ans m = VM_OK then VM_OOM_PARAM else ans m)\<rparr>)
      | Some m' \<Rightarrow> Continue m')
    \<and> int p = int (vm_storage m + vm_storage_len m) - (c_frame_size c - vl_base (c_vars c ! v))
    \<and> vm_storage m + vm_storage_len m - nat (c_frame_size c) \<le> p
    \<and> p + t_size (c_types c ! vl_tid (c_vars c ! v)) \<le> vm_storage m + vm_storage_len m"
proof -
  note code = emit_push_var_code [OF assms(2)]
  have ok: "var_ok c v" "0 \<le> c_frame_size c" "c_frame_size c \<le> 32767" using assms(1) code(1) by (auto simp: compile_inv_def)
  let ?l = "c_vars c ! v"
  define d where "d = c_frame_size c - vl_base ?l"
  have v: "0 \<le> vl_base ?l" "int (t_size (c_types c ! vl_tid ?l)) \<le> d" "0 \<le> d" "d \<le> c_frame_size c"
    using ok(1) code(2) by (auto simp: var_ok_def Let_def d_def)
  have rel: "var_rel c v = - d" "s16 (- d) = - d" using v ok(2,3) by (simp_all add: var_rel_def d_def)
  have h: "holds (vm_mem m) (pc m) [opcode B_PUSH_VAR]" "holds (vm_mem m) (pc m + 1) (bytes_of_nat 2 (nat ((- d) mod 65536)))"
    using assms(3) unfolding code(3) rel(1) by (simp_all add: holds_append del: append_Cons)
  have b: "vm_mem m (pc m) = Some (opcode B_PUSH_VAR)" using h(1) by (simp add: holds_def split: option.splits)
  have off: "read_offset (vm_mem m) (pc m + 1) = Some (- d, pc m + 3)"
    using h(2) signed_offset [of "- d"] rel(2) by (simp add: holds_def read_offset_def)
  let ?p = "vm_storage m + vm_storage_len m - nat d"
  have le: "nat d \<le> vm_storage_len m" using v assms(4) by linarith
  have "exec_instr E B_PUSH_VAR (m\<lparr>pc := pc m + 1\<rparr>) = push_or_crash E ?p (m\<lparr>pc := pc m + 3\<rparr>)"
    using off v(3) le by (simp add: do_push_var_def with_offset_def)
  then have "step E m = (case push_param E ?p (m\<lparr>pc := pc m + 3\<rparr>) of
        None \<Rightarrow> unwind (m\<lparr>pc := pc m + 3, ans := (if ans m = VM_OK then VM_OOM_PARAM else ans m)\<rparr>)
      | Some m' \<Rightarrow> Continue m')"
    unfolding step_decode [OF b] by (simp add: push_or_crash_def crash_def split: option.split)
  moreover have "int ?p = int (vm_storage m + vm_storage_len m) - d" using le v(3) by simp
  moreover have "vm_storage m + vm_storage_len m - nat (c_frame_size c) \<le> ?p" using v(4) by (intro diff_le_mono2) simp
  moreover have "?p + t_size (c_types c ! vl_tid ?l) \<le> vm_storage m + vm_storage_len m"
    using v(2,3) le by linarith
  ultimately show ?thesis unfolding d_def by blast
qed

text \<open>Inside \<open>Var Int X\<close>: the frame is one cell, and the machine stands before the emitted instruction.\<close>

definition push_demo :: compiler where
  "push_demo = (compiler_start (\<lambda>n. True) demo_loop None)\<lparr>c_vars := [\<lparr>vl_tid = 0, vl_base = 0, vl_live = True\<rparr>], c_frame_size := 8\<rparr>"

definition push_demo_mach :: "unit mach" where
  "push_demo_mach = vm.extend (empty_vm\<lparr>vm_mem := map_of (zip [200..<203] [3, 248, 255]), vm_storage := 1000,
     vm_storage_len := 32, vm_storage_cap := 64\<rparr>) (mach.fields 200 199 0 VM_OK)"

lemma push_demo_inv: "compile_inv push_demo"
proof -
  have "type_idx_valid (c_types push_demo) 0 \<and> t_size (c_types push_demo ! 0) = 8 \<and> length (fn_vars (c_func push_demo)) = 1" by code_simp
  then show ?thesis by (auto simp: compile_inv_def var_ok_def vars_disjoint_def Let_def push_demo_def compiler_start_def)
qed

lemma push_demo_emits:
  "case emit_push_var 0 push_demo of COk u c \<Rightarrow> drop (code_len push_demo) (cb_data (c_code c)) = [3, 248, 255] | _ \<Rightarrow> False"
  by code_simp

theorem push_var_inside_frame_witness:
  "\<exists>p. int p = 1032 - 8 \<and> p + 8 \<le> 1032 \<and>
     step plain_env push_demo_mach = (case push_param plain_env p (push_demo_mach\<lparr>pc := 203\<rparr>) of
        None \<Rightarrow> unwind (push_demo_mach\<lparr>pc := 203, ans := VM_OOM_PARAM\<rparr>) | Some m' \<Rightarrow> Continue m')"
proof -
  obtain c' where c': "emit_push_var 0 push_demo = COk () c'" "drop (code_len push_demo) (cb_data (c_code c')) = [3, 248, 255]"
    using push_demo_emits by (cases "emit_push_var 0 push_demo") auto
  have "holds (vm_mem push_demo_mach) (pc push_demo_mach) [3, 248, 255]" "nat (c_frame_size push_demo) \<le> vm_storage_len push_demo_mach"
    "pc push_demo_mach = 200" "ans push_demo_mach = VM_OK" "vm_storage push_demo_mach + vm_storage_len push_demo_mach = 1032"
    "c_frame_size push_demo = 8" "vl_base (c_vars push_demo ! 0) = 0" "t_size (c_types push_demo ! vl_tid (c_vars push_demo ! 0)) = 8"
    by code_simp+
  then show ?thesis using push_var_inside_frame [OF push_demo_inv c'(1), of push_demo_mach plain_env] c'(2) by (auto cong: option.case_cong)
qed

section \<open>Jumps\<close>

text \<open>
  Filling in a jump: a target up to 65535 is accepted and read back by the machine at the
  patched operand, no other byte of the code changes; a farther target is refused.
\<close>

theorem patched_jump_round_trip:
  assumes "at + 2 \<le> code_len c"
  shows "(65535 < target \<longrightarrow> patchc at target c = CFail c)
    \<and> (target \<le> 65535 \<longrightarrow> (\<exists>c'. patchc at target c = COk () c' \<and> code_len c' = code_len c
        \<and> (\<forall>i<code_len c. i < at \<or> at + 2 \<le> i \<longrightarrow> cb_data (c_code c') ! i = cb_data (c_code c) ! i)
        \<and> (\<forall>mm a. holds mm a (cb_data (c_code c')) \<longrightarrow> read_uoffset mm (a + at) = Some (target, a + at + 2))))"
proof -
  let ?xs = "cb_data (c_code c)" and ?ys = "bytes_of_nat 2 target"
  have two: "length ?ys = 2" by simp
  have fit: "at + length ?ys \<le> length ?xs" using assms by (simp only: two)
  have "read_uoffset mm (a + at) = Some (target, a + at + 2)"
    if h: "holds mm a (splice ?xs at ?ys)" and t: "target \<le> 65535" for mm a
  proof -
    have "holds mm (a + length (take at ?xs)) ?ys" using h by (simp only: splice_def holds_append)
    moreover have "length (take at ?xs) = at" using fit by simp
    ultimately have "load mm (a + at) 2 = Some ?ys" by (simp only: holds_def two)
    then show ?thesis using t nat_of_bytes_of_nat [of 2 target] by (simp add: read_uoffset_def)
  qed
  moreover have "splice ?xs at ?ys ! i = ?xs ! i" if "i < length ?xs" "i < at \<or> at + 2 \<le> i" for i
    using nth_splice [OF fit that(1)] that(2) two by auto
  moreover have "length (splice ?xs at ?ys) = length ?xs" using fit by (rule length_splice)
  ultimately show ?thesis by (auto simp: patchc_def patch_uoffset_def simp del: bytes_of_nat.simps)
qed

theorem patched_jump_round_trip_witness:
  "\<exists>c'. patchc 1 9 ((compiler_start (\<lambda>n. True) demo_loop None)\<lparr>c_code := \<lparr>cb_data = [18, 0, 0], cb_cap = 64\<rparr>\<rparr>) = COk () c'
     \<and> cb_data (c_code c') ! 0 = 18"
  using patched_jump_round_trip [of 1 "(compiler_start (\<lambda>n. True) demo_loop None)\<lparr>c_code := \<lparr>cb_data = [18, 0, 0], cb_cap = 64\<rparr>\<rparr>" 9]
  by auto

lemma cbind_COk: "cbind m f = COk x c \<longleftrightarrow> (\<exists>y d. m = COk y d \<and> f y d = COk x c)"
  by (cases m) auto

text \<open>
  C31.  The jump back to the start of a loop is the one jump whose target is not checked: it is
  reduced to 16 bits, so the loop of a function that has grown past 65535 bytes jumps into
  earlier code.
\<close>

theorem loop_jump_truncated:
  assumes "compile_loop B body c = COk r c'"
    and "scope_push (c_frame_size c) c = COk () c1" "B body c1 = COk COMPILE_REACHABLE d" "sc_patches (last (c_scopes d)) = []"
  shows "cb_data (c_code c') = cb_data (c_code d) @ [opcode B_JUMP] @ bytes_of_nat 2 (code_len c mod 65536)"
proof -
  have sv: "state_save c = COk (state_of c) c" using assms(1) by (auto simp: compile_loop_def state_save_def split: if_splits)
  have "cbind (if state_equal d (state_of c) then csteps [eop B_JUMP, euoffset (u16 (code_len c))] d else CFail d) (\<lambda>_ c2.
      cbind (scope_finish (code_len c2) c2) (\<lambda>hb c2. cbind (state_restore (state_of c) c2)
        (\<lambda>_. COk (if hb then COMPILE_REACHABLE else COMPILE_UNREACHABLE)))) = COk r c'"
    using assms(1) by (simp only: compile_loop_def Let_def sv assms(2,3) cbind.simps if_True simp_thms)
  then obtain e where e: "csteps [eop B_JUMP, euoffset (u16 (code_len c))] d = COk () e"
    and fin: "cbind (scope_finish (code_len e) e) (\<lambda>hb c2. cbind (state_restore (state_of c) c2) (\<lambda>_. COk (if hb then COMPILE_REACHABLE else COMPILE_UNREACHABLE))) = COk r c'"
    by (cases "state_equal d (state_of c)") (auto simp: cbind_COk)
  have "cb_data (c_code e) = cb_data (c_code d) @ [opcode B_JUMP] @ bytes_of_nat 2 (code_len c mod 65536)"
    and sc: "c_scopes e = c_scopes d"
    using e by (auto simp: cbind_COk emitc_def emit_op_def emit_uoffset_def u16_def split: option.splits dest!: emitted)
  moreover have "c_code c' = c_code e"
    using fin sc assms(4) by (auto simp: cbind_COk scope_finish_def state_restore_def Let_def split: if_splits)
  ultimately show ?thesis by simp
qed

text \<open>A compiler whose code has reached 70000 bytes, in front of a loop with an empty body.\<close>

definition long_demo :: compiler where
  "long_demo = (compiler_start (\<lambda>n. True) (demo_func [BLOCK_LOOP 1, BLOCK_BASIC \<lparr>r_start = 0, r_len = 0\<rparr>] []) None)
     \<lparr>c_code := \<lparr>cb_data = replicate 70000 0, cb_cap = 131072\<rparr>\<rparr>"

lemma demo_func_sel [simp]:
  "fn_blocks (demo_func bs xs) = bs" "fn_ops (demo_func bs xs) = xs" "length (fn_vars (demo_func bs xs)) = 1"
  "fn_sig (demo_func bs xs) = \<lparr>s_ins = [], s_outs = []\<rparr>"
  by (simp_all only: demo_func_def func.select_convs list.size)

lemma state_equal_refl: "state_equal c (state_of c)"
  by (simp add: state_equal_def state_of_def list.rel_refl)

theorem loop_jump_truncated_witness:
  "\<exists>r c'. compile_loop (compile_block 3 (\<lambda>idx x. None)) 1 long_demo = COk r c'
     \<and> cb_data (c_code c') = replicate 70000 0 @ [opcode B_JUMP] @ bytes_of_nat 2 4464"
proof -
  let ?B = "compile_block 3 (\<lambda>idx x. None)"
  have frame: "c_frame_size long_demo = 0" by (simp add: long_demo_def compiler_start_def)
  obtain c1 s where c1: "scope_push (c_frame_size long_demo) long_demo = COk () c1" "c1 = long_demo\<lparr>c_scopes := [s], c_scopes_cap := 16\<rparr>"
      "sc_patches s = []"
    by (auto simp: scope_push_def push_grow_def long_demo_def compiler_start_def)
  have b: "?B 1 c1 = COk COMPILE_REACHABLE c1"
    by (simp add: c1(2) numeral_3_eq_3 compile_basic_def op_indices_def long_demo_def compiler_start_def)
  have len: "code_len long_demo = 70000" "cb_cap (c_code long_demo) = 131072" "c_alloc long_demo n"
    "c_params long_demo = []" "c_scopes long_demo = []" for n
    by (simp_all add: long_demo_def compiler_start_def)
  have se: "state_equal c1 (state_of long_demo)"
    using state_equal_refl [of long_demo] by (simp add: c1(2) state_equal_def)
  have sv: "state_save long_demo = COk (state_of long_demo) long_demo" using len by (simp add: state_save_def)
  have loop: "compile_loop ?B 1 long_demo = cbind (csteps [eop B_JUMP, euoffset (u16 70000)] c1) (\<lambda>_ c2.
      cbind (scope_finish (code_len c2) c2) (\<lambda>hb c2. cbind (state_restore (state_of long_demo) c2)
        (\<lambda>_. COk (if hb then COMPILE_REACHABLE else COMPILE_UNREACHABLE))))"
    by (simp only: compile_loop_def Let_def sv c1(1) cbind.simps b se if_True simp_thms len(1))
  have "\<exists>r c'. compile_loop ?B 1 long_demo = COk r c'" unfolding loop using len c1(3)
    by (simp add: c1(2) emitc_def emit_op_def emit_uoffset_def emit_bytes_def grow_bytes_def scope_finish_def state_restore_def state_of_def)
  then obtain r c' where c': "compile_loop ?B 1 long_demo = COk r c'" by blast
  have "cb_data (c_code c') = cb_data (c_code c1) @ [opcode B_JUMP] @ bytes_of_nat 2 (code_len long_demo mod 65536)"
    by (rule loop_jump_truncated [OF c' c1(1) b]) (simp add: c1(2,3))
  moreover have "cb_data (c_code c1) = replicate 70000 0" by (simp add: c1(2) long_demo_def)
  ultimately show ?thesis using c' len(1) by simp
qed

section \<open>What the compiler refuses and what it does not finish\<close>

text \<open>\<open>Var Int X  If (X)  Var Int Y  (Y)  Done\<close>, and the same without the outer variable.\<close>

definition branch_demo :: "nat \<Rightarrow> func" where
  "branch_demo start = (demo_func
     [BLOCK_VAR 0 1, BLOCK_BRANCH \<lparr>r_start = start, r_len = 1\<rparr> 2 3, BLOCK_VAR 1 3, BLOCK_BASIC \<lparr>r_start = 0, r_len = 0\<rparr>]
     [\<lparr>o_kind = OP_PUSH_VAR, o_extra = 0\<rparr>, \<lparr>o_kind = OP_PUSH_ARG, o_extra = 0\<rparr>])
     \<lparr>fn_vars := [\<lparr>v_tid = 0, v_name = None\<rparr>, \<lparr>v_tid = 0, v_name = None\<rparr>]\<rparr>"

abbreviation compiles :: "func \<Rightarrow> nat \<Rightarrow> bool" where
  "compiles f root \<equiv> (case compile_block 9 (\<lambda>idx x. None) root (compiler_start (\<lambda>n. True) f None) of COk r c \<Rightarrow> True | _ \<Rightarrow> False)"


text \<open>A function that calls itself, in a context that holds only it.\<close>

definition self_call :: func where
  "self_call = demo_func [BLOCK_BASIC \<lparr>r_start = 0, r_len = 1\<rparr>] [\<lparr>o_kind = OP_CALL, o_extra = 0\<rparr>]"

lemma self_call_layout: "type_layout_all (fn_types self_call) = Some (True, fn_types self_call)"
  by code_simp

lemma ensure_self:
  assumes "x_code x = [] \<or> x_code x = [no_code]"
  shows "\<exists>y. ensure_code_slot (\<lambda>n. True) 0 x = Some y \<and> x_code y = [no_code] \<and> x_funcs y = x_funcs x \<and> x_globals y = x_globals x"
  using assms by (auto simp: ensure_code_slot_def Let_def)

text \<open>
  C33.  A recursive function is never compiled: the slot of a function stays empty while it is
  compiled, so compiling its call compiles it again, without end; no depth of nested compilations
  is enough.
\<close>

theorem recursive_function_never_compiles:
  assumes "x_funcs x = [self_call]" "x_code x = [] \<or> x_code x = [no_code]"
  shows "vm_compile_no_defers d n (\<lambda>n. True) addr0 self_call (Some x) = None"
  using assms
proof (induction d arbitrary: x addr0)
  case (Suc d)
  obtain y where y: "ensure_code_slot (\<lambda>n. True) 0 x = Some y" "x_code y = [no_code]" "x_funcs y = [self_call]"
    using ensure_self [OF Suc.prems(2)] Suc.prems(1) by auto
  let ?K = "\<lambda>idx y. map_option (\<lambda>(code, y'). (code, the y'))
    (vm_compile_no_defers d n (\<lambda>n. True) addr0 (x_funcs y ! idx) (Some y))"
  let ?c = "compiler_start (\<lambda>n. True) (self_call\<lparr>fn_types := fn_types self_call\<rparr>) (Some x)"
  have K: "?K 0 y = None" using Suc.IH [of y addr0] y by simp
  have "compile_context_func_code ?K 0 ?c = CUndef"
    using y Suc.prems K by (simp add: compile_context_func_code_def compiler_start_def no_code_def)
  then have "compile_block n ?K 0 ?c = CUndef"
    by (cases n) (simp_all add: self_call_def compile_basic_def op_indices_def compile_func_call_def compiler_start_def)
  then show ?case
    using self_call_layout by (simp add: compile_body_def) (simp add: self_call_def)
qed simp

theorem recursive_function_never_compiles_witness:
  "vm_compile_no_defers 50 50 (\<lambda>n. True) 0 self_call
     (Some \<lparr>x_globals = [], x_funcs = [self_call], x_code = [], x_code_cap = 0, x_placed = 0, x_place = (\<lambda>i. 4096)\<rparr>) = None"
  by (rule recursive_function_never_compiles) simp_all

section \<open>The compiled function\<close>

lemma emit_epilogue_code:
  assumes "emit_epilogue c = COk () c'"
  shows "length (s_ins (fn_sig (c_func c))) < W32"
    "cb_data (c_code c') = cb_data (c_code c)
      @ (if s_ins (fn_sig (c_func c)) = [] then [] else opcode B_DROP_N # bytes_of_nat 4 (length (s_ins (fn_sig (c_func c)))))
      @ [opcode B_RET]"
proof -
  show "length (s_ins (fn_sig (c_func c))) < W32" using assms by (auto simp: emit_epilogue_def Let_def split: if_splits)
  then show "cb_data (c_code c') = cb_data (c_code c)
      @ (if s_ins (fn_sig (c_func c)) = [] then [] else opcode B_DROP_N # bytes_of_nat 4 (length (s_ins (fn_sig (c_func c)))))
      @ [opcode B_RET]"
    using assms by (auto simp: emit_epilogue_def Let_def cbind_COk emitc_def emit_op_def emit_count_def
        split: option.splits if_splits dest!: emitted)
qed

text \<open>
  C15.  A function that compiles leaves the compiler as it started: no operand, no frame, no open
  crash pad, no scope and no live variable.  Its code ends by dropping the inputs, which leaves
  the outputs to the caller, and returning.
\<close>

theorem compiled_function_complete:
  assumes "compile_body n al addr0 K f x = Some (code, y)" "code_bytes code \<noteq> []" "func_ok f"
  shows "\<exists>types r c. type_layout_all (fn_types f) = Some (True, types)
    \<and> compile_block n K 0 (compiler_start al (f\<lparr>fn_types := types\<rparr>) x) = COk r c
    \<and> c_params c = [] \<and> c_frame_size c = 0 \<and> c_crash_depth c = 0 \<and> c_scopes c = [] \<and> (\<forall>l\<in>set (c_vars c). \<not> vl_live l)
    \<and> code_bytes code = cb_data (c_code c)
       @ (if s_ins (fn_sig f) = [] then [] else opcode B_DROP_N # bytes_of_nat 4 (length (s_ins (fn_sig f)))) @ [opcode B_RET]"
proof -
  from assms(1,2) obtain types where t: "type_layout_all (fn_types f) = Some (True, types)"
    by (auto simp: compile_body_def no_code_def split: if_splits option.splits bool.splits)
  let ?c0 = "compiler_start al (f\<lparr>fn_types := types\<rparr>) x"
  from assms(1,2) t obtain c' where c': "cbind (compile_block n K 0 ?c0) (\<lambda>_. emit_epilogue) = COk () c'"
    and code: "code_bytes code = cb_data (c_code c')"
    by (auto simp: compile_body_def no_code_def placed_def split: if_splits option.splits cres.splits)
  from c' obtain r c where c: "compile_block n K 0 ?c0 = COk r c" and e: "emit_epilogue c = COk () c'"
    by (auto simp: cbind_COk)
  have fo: "func_ok (c_func ?c0)" using assms(3) by (simp add: func_ok_def compiler_start_def)
  have "keeps ?c0 (compile_block n K 0 ?c0)" using compile_block_ok compile_inv_start fo by (rule block_okD)
  with c have b: "block_frame ?c0 c" by simp
  have "\<not> vl_live l" if "l \<in> set (c_vars c)" for l
  proof -
    from that obtain v where v: "v < length (c_vars c)" "l = c_vars c ! v" by (auto simp: in_set_conv_nth)
    then have "vl_live l \<longrightarrow> l = c_vars ?c0 ! v" "v < length (c_vars ?c0)" using b by (auto simp: block_frame_def)
    then show ?thesis by (auto simp: compiler_start_def)
  qed
  moreover have "c_params c = []" "c_frame_size c = 0" "c_crash_depth c = 0" "c_scopes c = []" "fn_sig (c_func c) = fn_sig f"
    using b by (auto simp: block_frame_def compiler_start_def)
  moreover note emit_epilogue_code(2) [OF e]
  ultimately show ?thesis using t c code by auto
qed

lemma demo_loop_body:
  "case compile_body 9 (\<lambda>n. True) 4096 (\<lambda>idx x. None) demo_loop None of Some (code, y) \<Rightarrow> code_bytes code \<noteq> [] | None \<Rightarrow> False"
  by code_simp

theorem compiled_function_complete_witness:
  "\<exists>code y bs. compile_body 9 (\<lambda>n. True) 4096 (\<lambda>idx x. None) demo_loop None = Some (code, y) \<and> code_bytes code = bs @ [opcode B_RET]"
proof -
  obtain code y where c: "compile_body 9 (\<lambda>n. True) 4096 (\<lambda>idx x. None) demo_loop None = Some (code, y)" "code_bytes code \<noteq> []"
    using demo_loop_body by (auto split: option.splits)
  have "func_ok demo_loop" by (simp add: func_ok_def demo_loop_def)
  from compiled_function_complete [OF c(1) _ this] c have "\<exists>bs. code_bytes code = bs @ [opcode B_RET]"
    by (fastforce simp: demo_loop_def)
  with c show ?thesis by blast
qed

end
