(* ===== verification/TypeCheck.thy ===== *)
theory TypeCheck
  imports Context
begin

text \<open>
  The first half of \<^verbatim>\<open>verification.c\<close>: the places on the checker's stack and their types, and the
  check of a single operation.

  A C function that returns an \<^verbatim>\<open>int\<close> status yields it with the context it leaves; \<^term>\<open>None\<close> is a
  run that does not return (a recursion through places that never ends) or has no defined
  behaviour.  The reporter is a callback: it may be absent, and otherwise decides the status and
  may change the context.
\<close>

section \<open>Places\<close>

abbreviation v_len :: "cctx \<Rightarrow> nat" where "v_len x \<equiv> length (v_pars x)"
abbreviation v_top :: "cctx \<Rightarrow> nat" where "v_top x \<equiv> v_pars x ! (v_len x - 1)"
abbreviation v_below :: "cctx \<Rightarrow> nat" where "v_below x \<equiv> v_pars x ! (v_len x - 2)"

definition pars_push :: "nat \<Rightarrow> cctx \<Rightarrow> cctx" where
  "pars_push p x = x\<lparr>v_pars := v_pars x @ [p]\<rparr>"

definition pars_drop :: "nat \<Rightarrow> cctx \<Rightarrow> cctx" where
  "pars_drop n x = x\<lparr>v_pars := take (v_len x - n) (v_pars x)\<rparr>"

definition pars_pop :: "nat \<Rightarrow> cctx \<Rightarrow> bool \<times> cctx" where
  "pars_pop n x = (if v_len x < n then (False, x) else (True, pars_drop n x))"

text \<open>The type of a place; the fuel bounds the chain of parents.\<close>

definition member_type :: "ctype list \<Rightarrow> nat \<Rightarrow> nat" where
  "member_type types tid = (if \<not> type_idx_valid types tid then TYPE_INVALID_ID
     else case t_kind (types ! tid) of
       TYPE_ARRAY e c d \<Rightarrow> e | TYPE_SLICE e \<Rightarrow> e | TYPE_VIEW e \<Rightarrow> e | _ \<Rightarrow> TYPE_INVALID_ID)"

definition field_type :: "ctype list \<Rightarrow> nat \<Rightarrow> nat \<Rightarrow> nat" where
  "field_type types tid i = (if \<not> type_idx_valid types tid then TYPE_INVALID_ID
     else case t_kind (types ! tid) of
       TYPE_STRUCT fs \<Rightarrow> (if length fs \<le> i then TYPE_INVALID_ID else f_tid (fs ! i))
     | _ \<Rightarrow> TYPE_INVALID_ID)"

primrec par_type_fuel :: "nat \<Rightarrow> cctx \<Rightarrow> func \<Rightarrow> nat \<Rightarrow> nat option" where
  "par_type_fuel 0 x f idx = None"
| "par_type_fuel (Suc n) x f idx =
     (if length (v_handles x) \<le> idx then Some TYPE_INVALID_ID
      else let p = h_par (v_handles x ! idx) in
        case par_kind p of
          PAR_LOCAL \<Rightarrow> Some (if length (fn_vars f) \<le> par_i p then TYPE_INVALID_ID else v_tid (fn_vars f ! par_i p))
        | PAR_ARG \<Rightarrow> Some (if length (fn_vars f) \<le> par_i p then TYPE_INVALID_ID else v_tid (fn_vars f ! par_i p))
        | PAR_GLOBAL \<Rightarrow> Some (if length (x_globals x) \<le> par_i p then TYPE_INVALID_ID else v_tid (g_var (x_globals x ! par_i p)))
        | PAR_STRUCT_FILED \<Rightarrow> map_option (\<lambda>t. field_type (fn_types f) t (par_i p)) (par_type_fuel n x f (par_parent p))
        | PAR_ARR_MEMBER \<Rightarrow> map_option (member_type (fn_types f)) (par_type_fuel n x f (par_parent p)))"

definition par_type :: "cctx \<Rightarrow> func \<Rightarrow> nat \<Rightarrow> nat option" where
  "par_type x f idx = par_type_fuel (Suc (length (v_handles x))) x f idx"

definition is_projection :: "par \<Rightarrow> bool" where
  "is_projection p \<longleftrightarrow> par_kind p = PAR_STRUCT_FILED \<or> par_kind p = PAR_ARR_MEMBER"

text \<open>The place at the root of a chain of projections; the inner option is the C result.\<close>

primrec par_root_fuel :: "nat \<Rightarrow> cctx \<Rightarrow> nat \<Rightarrow> par option option" where
  "par_root_fuel 0 x idx = None"
| "par_root_fuel (Suc n) x idx =
     (if length (v_handles x) \<le> idx then Some None
      else let p = h_par (v_handles x ! idx) in
        if is_projection p then par_root_fuel n x (par_parent p) else Some (Some p))"

definition par_root :: "cctx \<Rightarrow> nat \<Rightarrow> par option option" where
  "par_root x idx = par_root_fuel (Suc (length (v_handles x))) x idx"

definition par_root_is_local :: "cctx \<Rightarrow> nat \<Rightarrow> bool option" where
  "par_root_is_local x idx =
     map_option (\<lambda>r. case r of None \<Rightarrow> False | Some p \<Rightarrow> par_kind p = PAR_LOCAL) (par_root x idx)"

record scan_state =
  ss_scope_depth :: nat
  ss_var_depths :: "nat list"

definition par_scope_depth :: "cctx \<Rightarrow> func \<Rightarrow> scan_state \<Rightarrow> nat \<Rightarrow> nat option" where
  "par_scope_depth x f st idx = map_option (\<lambda>r. case r of
       None \<Rightarrow> 0
     | Some p \<Rightarrow> if par_kind p = PAR_LOCAL \<and> par_i p < length (fn_vars f) then ss_var_depths st ! par_i p else 0)
     (par_root x idx)"

definition tid_is_portal :: "func \<Rightarrow> nat \<Rightarrow> bool" where
  "tid_is_portal f tid \<longleftrightarrow> type_idx_valid (fn_types f) tid \<and> t_portal (fn_types f ! tid)"

definition par_is_portal :: "cctx \<Rightarrow> func \<Rightarrow> nat \<Rightarrow> bool option" where
  "par_is_portal x f idx = map_option (tid_is_portal f) (par_type x f idx)"

definition par_has_type :: "cctx \<Rightarrow> func \<Rightarrow> nat \<Rightarrow> nat \<Rightarrow> bool option" where
  "par_has_type x f idx want = map_option (\<lambda>got. type_idx_valid (fn_types f) got \<and> got = want) (par_type x f idx)"

definition par_is_int :: "cctx \<Rightarrow> func \<Rightarrow> nat \<Rightarrow> bool option" where
  "par_is_int x f idx = par_has_type x f idx TYPE_INT_ID"

definition tid_is_array :: "func \<Rightarrow> nat \<Rightarrow> bool" where
  "tid_is_array f tid \<longleftrightarrow> type_idx_valid (fn_types f) tid
     \<and> (case t_kind (fn_types f ! tid) of TYPE_ARRAY e c d \<Rightarrow> True | _ \<Rightarrow> False)"

definition tid_is_slice :: "func \<Rightarrow> nat \<Rightarrow> bool" where
  "tid_is_slice f tid \<longleftrightarrow> type_idx_valid (fn_types f) tid
     \<and> (case t_kind (fn_types f ! tid) of TYPE_SLICE e \<Rightarrow> True | _ \<Rightarrow> False)"

definition tid_is_ref :: "func \<Rightarrow> nat \<Rightarrow> bool" where
  "tid_is_ref f tid \<longleftrightarrow> type_idx_valid (fn_types f) tid
     \<and> (case t_kind (fn_types f ! tid) of TYPE_SLICE e \<Rightarrow> True | TYPE_VIEW e \<Rightarrow> True | _ \<Rightarrow> False)"

definition type_is_array_of :: "func \<Rightarrow> nat \<Rightarrow> nat \<Rightarrow> bool" where
  "type_is_array_of f tid elem \<longleftrightarrow> tid_is_array f tid \<and> arr_elem (t_kind (fn_types f ! tid)) = elem"

text \<open>The inner option is the C result: a null pointer without a native function on top.\<close>

definition native_sig_on_stack :: "cctx \<Rightarrow> func \<Rightarrow> sig option option" where
  "native_sig_on_stack x f =
     (if v_len x < 1 then Some None
      else map_option (\<lambda>tid. if \<not> type_idx_valid (fn_types f) tid then None
        else case t_kind (fn_types f ! tid) of TYPE_NATIVE_FUNC_POINTER s \<Rightarrow> Some s | _ \<Rightarrow> None)
        (par_type x f (v_top x)))"

section \<open>Reports\<close>

datatype tc_kind =
    TYPE_CHECK_ERROR_PORTAL_NON_LOCAL
  | TYPE_CHECK_ERROR_PORTAL_BACKING_SCOPE
  | TYPE_CHECK_ERROR_STACK_UNDERFLOW
  | TYPE_CHECK_ERROR_INVALID_LOCAL
  | TYPE_CHECK_ERROR_INVALID_GLOBAL
  | TYPE_CHECK_ERROR_INVALID_FUNC
  | TYPE_CHECK_ERROR_INVALID_TYPE
  | TYPE_CHECK_ERROR_INVALID_FIELD
  | TYPE_CHECK_ERROR_INVALID_INDEX
  | TYPE_CHECK_ERROR_INVALID_CALL_TARGET
  | TYPE_CHECK_ERROR_TYPE_MISMATCH
  | TYPE_CHECK_ERROR_INVALID_CALL

text \<open>The union of the error record, by the member a report fills in.\<close>

datatype tc_data =
    TC_Portal (td_portal: nat) (td_backing: nat)
  | TC_Type (td_par: nat) (td_expected: nat) (td_actual_type: nat)
  | TC_Stack (td_needed: nat) (td_actual_len: nat)
  | TC_Index (td_idx: nat) (td_len: nat)
  | TC_None

record tc_error =
  te_kind :: tc_kind
  te_loc :: code_loc
  te_op :: op
  te_data :: tc_data

type_synonym 'e reporter = "(cctx \<Rightarrow> 'e \<Rightarrow> int \<times> cctx) option"
type_synonym status = "(int \<times> cctx) option"

definition report_type_check :: "tc_error reporter \<Rightarrow> tc_error \<Rightarrow> cctx \<Rightarrow> status" where
  "report_type_check rep e x = Some (case rep of None \<Rightarrow> (1, x) | Some f \<Rightarrow> f x e)"

definition report_stack_underflow :: "tc_error reporter \<Rightarrow> op \<Rightarrow> code_loc \<Rightarrow> nat \<Rightarrow> cctx \<Rightarrow> status" where
  "report_stack_underflow rep op loc needed x = report_type_check rep
     \<lparr>te_kind = TYPE_CHECK_ERROR_STACK_UNDERFLOW, te_loc = loc, te_op = op, te_data = TC_Stack (u32 needed) (u32 (v_len x))\<rparr> x"

definition report_index_error :: "tc_error reporter \<Rightarrow> tc_kind \<Rightarrow> op \<Rightarrow> code_loc \<Rightarrow> nat \<Rightarrow> nat \<Rightarrow> cctx \<Rightarrow> status" where
  "report_index_error rep kind op loc i n x = report_type_check rep
     \<lparr>te_kind = kind, te_loc = loc, te_op = op, te_data = TC_Index i (u32 n)\<rparr> x"

definition report_type_error :: "tc_error reporter \<Rightarrow> tc_kind \<Rightarrow> op \<Rightarrow> code_loc \<Rightarrow> nat \<Rightarrow> nat \<Rightarrow> nat \<Rightarrow> cctx \<Rightarrow> status" where
  "report_type_error rep kind op loc p expected actual x = report_type_check rep
     \<lparr>te_kind = kind, te_loc = loc, te_op = op, te_data = TC_Type p expected actual\<rparr> x"

abbreviation ok :: "cctx \<Rightarrow> status" where "ok x \<equiv> Some (0, x)"
abbreviation bad :: "cctx \<Rightarrow> status" where "bad x \<equiv> Some (1, x)"

section \<open>Checking one operation\<close>

text \<open>The operands of a call against its signature: the first mismatch is reported and ends the check.\<close>

fun check_operands :: "tc_error reporter \<Rightarrow> func \<Rightarrow> op \<Rightarrow> code_loc \<Rightarrow> (nat \<times> nat) list \<Rightarrow> cctx \<Rightarrow> status" where
  "check_operands rep caller op loc [] x = ok x"
| "check_operands rep caller op loc ((want, p) # ws) x = do {
     got \<leftarrow> par_type x caller p;
     if \<not> type_idx_valid (fn_types caller) want
     then report_type_error rep TYPE_CHECK_ERROR_INVALID_TYPE op loc p want got x
     else if got \<noteq> want then report_type_error rep TYPE_CHECK_ERROR_INVALID_CALL op loc p want got x
     else check_operands rep caller op loc ws x
   }"

definition type_check_sig :: "tc_error reporter \<Rightarrow> func \<Rightarrow> sig \<Rightarrow> nat \<Rightarrow> op \<Rightarrow> code_loc \<Rightarrow> cctx \<Rightarrow> status" where
  "type_check_sig rep caller s start op loc x =
     (if v_len x < start + sig_len s then report_stack_underflow rep op loc (start + sig_len s) x
      else check_operands rep caller op loc (zip (sig_tids s) (drop start (v_pars x))) x)"

definition check_local :: "tc_error reporter \<Rightarrow> func \<Rightarrow> op \<Rightarrow> code_loc \<Rightarrow> cctx \<Rightarrow> status" where
  "check_local rep f op loc x =
     (if length (fn_vars f) \<le> o_extra op
      then report_index_error rep TYPE_CHECK_ERROR_INVALID_LOCAL op loc (o_extra op) (length (fn_vars f)) x
      else if \<not> type_idx_valid (fn_types f) (v_tid (fn_vars f ! o_extra op))
      then report_type_error rep TYPE_CHECK_ERROR_INVALID_TYPE op loc PAR_IDX_INVALID (v_tid (fn_vars f ! o_extra op)) TYPE_INVALID_ID x
      else ok x)"

definition check_global :: "tc_error reporter \<Rightarrow> func \<Rightarrow> op \<Rightarrow> code_loc \<Rightarrow> cctx \<Rightarrow> status" where
  "check_global rep f op loc x =
     (if length (x_globals x) \<le> o_extra op
      then report_index_error rep TYPE_CHECK_ERROR_INVALID_GLOBAL op loc (o_extra op) (length (x_globals x)) x
      else if \<not> type_idx_valid (fn_types f) (v_tid (g_var (x_globals x ! o_extra op)))
      then report_type_error rep TYPE_CHECK_ERROR_INVALID_TYPE op loc PAR_IDX_INVALID (v_tid (g_var (x_globals x ! o_extra op))) TYPE_INVALID_ID x
      else ok x)"

text \<open>Operations with two operands: their types, the destination's first.\<close>

definition with_two :: "tc_error reporter \<Rightarrow> func \<Rightarrow> op \<Rightarrow> code_loc \<Rightarrow> cctx \<Rightarrow> (nat \<Rightarrow> nat \<Rightarrow> status) \<Rightarrow> status" where
  "with_two rep f op loc x k =
     (if v_len x < 2 then report_stack_underflow rep op loc 2 x
      else do { a \<leftarrow> par_type x f (v_below x); b \<leftarrow> par_type x f (v_top x); k a b })"

definition tid_is_int :: "func \<Rightarrow> nat \<Rightarrow> bool" where
  "tid_is_int f tid \<longleftrightarrow> type_idx_valid (fn_types f) tid \<and> tid = TYPE_INT_ID"

definition check_assign :: "tc_error reporter \<Rightarrow> func \<Rightarrow> op \<Rightarrow> code_loc \<Rightarrow> cctx \<Rightarrow> status" where
  "check_assign rep f op loc x = with_two rep f op loc x (\<lambda>dst src.
     if \<not> type_idx_valid (fn_types f) dst then report_type_error rep TYPE_CHECK_ERROR_INVALID_TYPE op loc (v_below x) dst dst x
     else if dst \<noteq> src then report_type_error rep TYPE_CHECK_ERROR_TYPE_MISMATCH op loc (v_top x) dst src x
     else if o_kind op \<noteq> OP_ASSIGN \<and> dst \<noteq> TYPE_INT_ID
     then report_type_error rep TYPE_CHECK_ERROR_TYPE_MISMATCH op loc (v_below x) TYPE_INT_ID dst x
     else ok x)"

definition check_bit_not :: "tc_error reporter \<Rightarrow> func \<Rightarrow> op \<Rightarrow> code_loc \<Rightarrow> cctx \<Rightarrow> status" where
  "check_bit_not rep f op loc x =
     (if v_len x < 1 then report_stack_underflow rep op loc 1 x
      else do {
        t \<leftarrow> par_type x f (v_top x);
        if tid_is_int f t then ok x
        else report_type_error rep TYPE_CHECK_ERROR_TYPE_MISMATCH op loc (v_top x) TYPE_INT_ID t x
      })"

definition check_arr_push :: "tc_error reporter \<Rightarrow> func \<Rightarrow> op \<Rightarrow> code_loc \<Rightarrow> cctx \<Rightarrow> status" where
  "check_arr_push rep f op loc x = with_two rep f op loc x (\<lambda>arr elem.
     if \<not> tid_is_array f arr then report_type_error rep TYPE_CHECK_ERROR_INVALID_INDEX op loc (v_below x) TYPE_INVALID_ID arr x
     else if arr_elem (t_kind (fn_types f ! arr)) = elem then ok x
     else report_type_error rep TYPE_CHECK_ERROR_TYPE_MISMATCH op loc (v_top x) (arr_elem (t_kind (fn_types f ! arr))) elem x)"

definition check_arr_drop :: "tc_error reporter \<Rightarrow> func \<Rightarrow> op \<Rightarrow> code_loc \<Rightarrow> cctx \<Rightarrow> status" where
  "check_arr_drop rep f op loc x = with_two rep f op loc x (\<lambda>arr n.
     if \<not> tid_is_int f n then report_type_error rep TYPE_CHECK_ERROR_TYPE_MISMATCH op loc (v_top x) TYPE_INT_ID n x
     else if tid_is_array f arr then ok x
     else report_type_error rep TYPE_CHECK_ERROR_INVALID_INDEX op loc (v_below x) TYPE_INVALID_ID arr x)"

definition check_slice_from_ar :: "tc_error reporter \<Rightarrow> func \<Rightarrow> op \<Rightarrow> code_loc \<Rightarrow> cctx \<Rightarrow> status" where
  "check_slice_from_ar rep f op loc x = with_two rep f op loc x (\<lambda>ref arr.
     if \<not> type_idx_valid (fn_types f) ref then report_type_error rep TYPE_CHECK_ERROR_INVALID_TYPE op loc (v_below x) ref ref x
     else if \<not> type_idx_valid (fn_types f) arr then report_type_error rep TYPE_CHECK_ERROR_INVALID_TYPE op loc (v_top x) arr arr x
     else if \<not> tid_is_ref f ref then report_type_error rep TYPE_CHECK_ERROR_TYPE_MISMATCH op loc (v_below x) TYPE_INVALID_ID ref x
     else if type_is_array_of f arr (ref_elem (t_kind (fn_types f ! ref))) then ok x
     else report_type_error rep TYPE_CHECK_ERROR_TYPE_MISMATCH op loc (v_top x) (ref_elem (t_kind (fn_types f ! ref))) arr x)"

definition check_slice_from_one :: "tc_error reporter \<Rightarrow> func \<Rightarrow> op \<Rightarrow> code_loc \<Rightarrow> cctx \<Rightarrow> status" where
  "check_slice_from_one rep f op loc x = with_two rep f op loc x (\<lambda>ref elem.
     if \<not> type_idx_valid (fn_types f) ref then report_type_error rep TYPE_CHECK_ERROR_INVALID_TYPE op loc (v_below x) ref ref x
     else if \<not> tid_is_slice f ref then report_type_error rep TYPE_CHECK_ERROR_TYPE_MISMATCH op loc (v_below x) TYPE_INVALID_ID ref x
     else if ref_elem (t_kind (fn_types f ! ref)) = elem then ok x
     else report_type_error rep TYPE_CHECK_ERROR_TYPE_MISMATCH op loc (v_top x) (ref_elem (t_kind (fn_types f ! ref))) elem x)"

definition check_slice_move :: "tc_error reporter \<Rightarrow> func \<Rightarrow> op \<Rightarrow> code_loc \<Rightarrow> cctx \<Rightarrow> status" where
  "check_slice_move rep f op loc x = with_two rep f op loc x (\<lambda>ref n.
     if \<not> tid_is_int f n then report_type_error rep TYPE_CHECK_ERROR_TYPE_MISMATCH op loc (v_top x) TYPE_INT_ID n x
     else if tid_is_slice f ref then ok x
     else report_type_error rep TYPE_CHECK_ERROR_TYPE_MISMATCH op loc (v_below x) TYPE_INVALID_ID ref x)"

definition check_arr_at :: "tc_error reporter \<Rightarrow> func \<Rightarrow> op \<Rightarrow> code_loc \<Rightarrow> cctx \<Rightarrow> status" where
  "check_arr_at rep f op loc x = with_two rep f op loc x (\<lambda>arr i.
     if \<not> tid_is_int f i then report_type_error rep TYPE_CHECK_ERROR_INVALID_INDEX op loc (v_top x) TYPE_INT_ID i x
     else if tid_is_array f arr then ok x
     else report_type_error rep TYPE_CHECK_ERROR_INVALID_INDEX op loc (v_below x) TYPE_INVALID_ID arr x)"

definition check_slice_at :: "tc_error reporter \<Rightarrow> func \<Rightarrow> op \<Rightarrow> code_loc \<Rightarrow> cctx \<Rightarrow> status" where
  "check_slice_at rep f op loc x = with_two rep f op loc x (\<lambda>ref i.
     if \<not> tid_is_int f i then report_type_error rep TYPE_CHECK_ERROR_INVALID_INDEX op loc (v_top x) TYPE_INT_ID i x
     else if tid_is_ref f ref then ok x
     else report_type_error rep TYPE_CHECK_ERROR_INVALID_INDEX op loc (v_below x) TYPE_INVALID_ID ref x)"

definition check_struct_at :: "tc_error reporter \<Rightarrow> func \<Rightarrow> op \<Rightarrow> code_loc \<Rightarrow> cctx \<Rightarrow> status" where
  "check_struct_at rep f op loc x =
     (if v_len x < 1 then report_stack_underflow rep op loc 1 x
      else do {
        t \<leftarrow> par_type x f (v_top x);
        if \<not> type_idx_valid (fn_types f) t then report_type_error rep TYPE_CHECK_ERROR_TYPE_MISMATCH op loc (v_top x) TYPE_INVALID_ID t x
        else case t_kind (fn_types f ! t) of
          TYPE_STRUCT fs \<Rightarrow> if o_extra op < length fs then ok x
            else report_index_error rep TYPE_CHECK_ERROR_INVALID_FIELD op loc (o_extra op) (length fs) x
        | _ \<Rightarrow> report_type_error rep TYPE_CHECK_ERROR_TYPE_MISMATCH op loc (v_top x) TYPE_INVALID_ID t x
      })"

definition check_call :: "tc_error reporter \<Rightarrow> func \<Rightarrow> op \<Rightarrow> code_loc \<Rightarrow> cctx \<Rightarrow> status" where
  "check_call rep f op loc x =
     (if length (x_funcs x) \<le> o_extra op
      then report_index_error rep TYPE_CHECK_ERROR_INVALID_FUNC op loc (o_extra op) (length (x_funcs x)) x
      else let s = fn_sig (x_funcs x ! o_extra op); argc = u32 (sig_len s) in
        if v_len x < argc then report_stack_underflow rep op loc argc x
        else type_check_sig rep f s (v_len x - argc) op loc x)"

definition check_native :: "tc_error reporter \<Rightarrow> func \<Rightarrow> op \<Rightarrow> code_loc \<Rightarrow> cctx \<Rightarrow> status" where
  "check_native rep f op loc x = do {
     ns \<leftarrow> native_sig_on_stack x f;
     case ns of
       None \<Rightarrow>
         if v_len x = 0 then report_type_error rep TYPE_CHECK_ERROR_INVALID_CALL_TARGET op loc PAR_IDX_INVALID TYPE_INVALID_ID TYPE_INVALID_ID x
         else do {
           t \<leftarrow> par_type x f (v_top x);
           report_type_error rep TYPE_CHECK_ERROR_INVALID_CALL_TARGET op loc (v_top x) TYPE_INVALID_ID t x
         }
     | Some s \<Rightarrow>
         let argc = u32 (sig_len s) in
         if v_len x < u32 (argc + 1) then report_stack_underflow rep op loc (argc + 1) x
         else type_check_sig rep f s (v_len x - argc - 1) op loc x
   }"

fun type_check_kind :: "op_kind \<Rightarrow> tc_error reporter \<Rightarrow> func \<Rightarrow> op \<Rightarrow> code_loc \<Rightarrow> cctx \<Rightarrow> status" where
  "type_check_kind OP_NULL rep f op loc x = ok x"
| "type_check_kind OP_DROP rep f op loc x = ok x"
| "type_check_kind OP_PUSH_VAR rep f op loc x = check_local rep f op loc x"
| "type_check_kind OP_PUSH_ARG rep f op loc x = check_local rep f op loc x"
| "type_check_kind OP_PUSH_GLOBAL rep f op loc x = check_global rep f op loc x"
| "type_check_kind OP_BIT_NOT_ASSIGN rep f op loc x = check_bit_not rep f op loc x"
| "type_check_kind OP_ARR_PUSH rep f op loc x = check_arr_push rep f op loc x"
| "type_check_kind OP_ARR_DROP rep f op loc x = check_arr_drop rep f op loc x"
| "type_check_kind OP_SLICE_FROM_AR rep f op loc x = check_slice_from_ar rep f op loc x"
| "type_check_kind OP_SLICE_FROM_ONE rep f op loc x = check_slice_from_one rep f op loc x"
| "type_check_kind OP_SLICE_INC rep f op loc x = check_slice_move rep f op loc x"
| "type_check_kind OP_SLICE_DEC rep f op loc x = check_slice_move rep f op loc x"
| "type_check_kind OP_ARR_AT rep f op loc x = check_arr_at rep f op loc x"
| "type_check_kind OP_SLICE_AT rep f op loc x = check_slice_at rep f op loc x"
| "type_check_kind OP_STRUCT_AT rep f op loc x = check_struct_at rep f op loc x"
| "type_check_kind OP_CALL rep f op loc x = check_call rep f op loc x"
| "type_check_kind OP_CALL_NATIVE_ON_STACK rep f op loc x = check_native rep f op loc x"
| "type_check_kind _ rep f op loc x = check_assign rep f op loc x"

definition type_check_op :: "tc_error reporter \<Rightarrow> func \<Rightarrow> op \<Rightarrow> code_loc \<Rightarrow> cctx \<Rightarrow> status" where
  "type_check_op rep f op loc x = type_check_kind (o_kind op) rep f op loc x"

end
