(* ===== verification/Borrow.thy ===== *)
theory Borrow
  imports TypeCheck
begin

text \<open>
  The second half of \<^verbatim>\<open>verification.c\<close>: the scan over a function's blocks with its operation
  handlers, the holds between portals and what they refer to, and the borrow check of calls.
\<close>

section \<open>Holds\<close>

definition portal_retargetable :: "cctx \<Rightarrow> func \<Rightarrow> nat \<Rightarrow> bool option" where
  "portal_retargetable x f idx = do {
     tid \<leftarrow> par_type x f idx;
     if tid_is_portal f tid then par_root_is_local x idx else Some False
   }"

definition set_handle :: "nat \<Rightarrow> handle \<Rightarrow> cctx \<Rightarrow> cctx" where
  "set_handle i h x = x\<lparr>v_handles := (v_handles x)[i := h]\<rparr>"

text \<open>The holds of a handle are a stretch of the table of holds; a read beyond it is undefined.\<close>

definition holds_of :: "cctx \<Rightarrow> handle \<Rightarrow> hold_chain list option" where
  "holds_of x h = (if h_num h = 0 then Some []
     else if h_start h + h_num h \<le> length (v_holds x) then Some (take (h_num h) (drop (h_start h) (v_holds x)))
     else None)"

text \<open>
  A new hold is appended at the end of the table.  If the stretch of the owner does not end
  there, it is copied to the end first.
\<close>

definition handle_add_hold :: "nat \<Rightarrow> nat \<Rightarrow> code_loc \<Rightarrow> bool \<Rightarrow> cctx \<Rightarrow> (bool \<times> cctx) option" where
  "handle_add_hold owner held loc just_const x =
     (if length (v_handles x) \<le> owner \<or> length (v_handles x) \<le> held then Some (False, x)
      else let h = v_handles x ! owner in do {
        old \<leftarrow> holds_of x h;
        if \<exists>c\<in>set old. hc_par c = held \<and> hc_just_const c = just_const then Some (True, x)
        else
          let n = length (v_holds x);
              copied = (h_num h \<noteq> 0 \<and> h_start h + h_num h \<noteq> n);
              start = (if copied \<or> h_num h = 0 then u32 n else h_start h);
              hold = \<lparr>hc_par = held, hc_site = loc, hc_parent = NO_PARRENT, hc_just_const = just_const\<rparr> in
          Some (True, set_handle owner (h\<lparr>h_start := start, h_num := h_num h + 1\<rparr>)
            (x\<lparr>v_holds := v_holds x @ (if copied then old else []) @ [hold]\<rparr>))
      })"

section \<open>Scanning\<close>

type_synonym scan_op = "cctx \<Rightarrow> scan_state \<Rightarrow> nat \<Rightarrow> op \<Rightarrow> code_loc \<Rightarrow> status"

text \<open>\<^verbatim>\<open>int r = step; if(r) return r;\<close> and \<^verbatim>\<open>if(step) return 1;\<close>\<close>

definition and_then :: "status \<Rightarrow> (cctx \<Rightarrow> status) \<Rightarrow> status" where
  "and_then m k = (case m of None \<Rightarrow> None | Some (r, x) \<Rightarrow> if r \<noteq> 0 then Some (r, x) else k x)"

definition or_fail :: "status \<Rightarrow> status" where
  "or_fail m = map_option (\<lambda>(r, x). (if r \<noteq> 0 then 1 else 0, x)) m"

definition push_place :: "par \<Rightarrow> cctx \<Rightarrow> status" where
  "push_place p x = do { (i, x) \<leftarrow> comp_context_intern_par x p; ok (pars_push i x) }"

definition replace_top :: "nat \<Rightarrow> nat \<Rightarrow> cctx \<Rightarrow> cctx" where
  "replace_top n p x = x\<lparr>v_pars := take (v_len x - n) (v_pars x) @ [p]\<rparr>"

definition pop_after :: "nat \<Rightarrow> nat \<Rightarrow> cctx \<Rightarrow> status" where
  "pop_after need n x = (if v_len x < need then bad x else ok (pars_drop n x))"

text \<open>What an operation does to the stack of places.\<close>

fun scan_effect :: "op_kind \<Rightarrow> nat \<Rightarrow> func \<Rightarrow> cctx \<Rightarrow> status" where
  "scan_effect OP_NULL extra f x = ok x"
| "scan_effect OP_PUSH_VAR extra f x = push_place \<lparr>par_kind = PAR_LOCAL, par_i = extra, par_parent = 0\<rparr> x"
| "scan_effect OP_PUSH_ARG extra f x = push_place \<lparr>par_kind = PAR_ARG, par_i = extra, par_parent = 0\<rparr> x"
| "scan_effect OP_PUSH_GLOBAL extra f x = push_place \<lparr>par_kind = PAR_GLOBAL, par_i = extra, par_parent = 0\<rparr> x"
| "scan_effect OP_BIT_NOT_ASSIGN extra f x = pop_after 1 0 x"
| "scan_effect OP_DROP extra f x = pop_after extra extra x"
| "scan_effect OP_SLICE_INC extra f x = pop_after 1 1 x"
| "scan_effect OP_SLICE_DEC extra f x = pop_after 1 1 x"
| "scan_effect OP_ARR_AT extra f x =
     (if v_len x < 2 then bad x
      else do {
        (i, x) \<leftarrow> comp_context_intern_par x \<lparr>par_kind = PAR_ARR_MEMBER, par_i = 0, par_parent = v_below x\<rparr>;
        ok (replace_top 2 i x)
      })"
| "scan_effect OP_SLICE_AT extra f x =
     (if v_len x < 2 then bad x
      else do {
        (i, x) \<leftarrow> comp_context_intern_par x \<lparr>par_kind = PAR_ARR_MEMBER, par_i = 0, par_parent = v_below x\<rparr>;
        ok (replace_top 2 i x)
      })"
| "scan_effect OP_STRUCT_AT extra f x =
     (if v_len x < 1 then bad x
      else do {
        (i, x) \<leftarrow> comp_context_intern_par x \<lparr>par_kind = PAR_STRUCT_FILED, par_i = extra, par_parent = v_top x\<rparr>;
        ok (replace_top 1 i x)
      })"
| "scan_effect OP_CALL extra f x =
     (if length (x_funcs x) \<le> extra then bad x
      else let s = fn_sig (x_funcs x ! extra) in pop_after (sig_len s) (length (s_ins s)) x)"
| "scan_effect OP_CALL_NATIVE_ON_STACK extra f x = do {
     ns \<leftarrow> native_sig_on_stack x f;
     case ns of
       None \<Rightarrow> bad x
     | Some s \<Rightarrow> pop_after (sig_len s + 1) (length (s_ins s) + 1) x
   }"
| "scan_effect _ extra f x = pop_after 2 1 x"

fun scan_each :: "scan_op option \<Rightarrow> scan_state \<Rightarrow> nat \<Rightarrow> nat \<Rightarrow> nat list \<Rightarrow> cctx \<Rightarrow> status" where
  "scan_each handler st current block [] x = ok x"
| "scan_each handler st current block (i # is) x =
     (let f = x_funcs x ! current; op = fn_ops f ! i in
      and_then (case handler of None \<Rightarrow> ok x | Some h \<Rightarrow> h x st current op \<lparr>loc_block = block, loc_op = i\<rparr>) (\<lambda>x.
      and_then (scan_effect (o_kind op) (o_extra op) f x) (scan_each handler st current block is)))"

definition scan_ops :: "scan_op option \<Rightarrow> scan_state \<Rightarrow> nat \<Rightarrow> nat \<Rightarrow> op_range \<Rightarrow> bool \<Rightarrow> cctx \<Rightarrow> status" where
  "scan_ops handler st current block r reset_stack x =
     (let n = length (fn_ops (x_funcs x ! current)); start = v_len x in
      if n < r_start r \<or> n - r_start r < r_len r then bad x
      else and_then (scan_each handler st current block [r_start r..<r_start r + r_len r] x) (\<lambda>x.
        if v_len x < start then bad x
        else ok (if reset_stack then x\<lparr>v_pars := take start (v_pars x)\<rparr> else x)))"

definition scan_basic :: "scan_op option \<Rightarrow> scan_state \<Rightarrow> nat \<Rightarrow> nat \<Rightarrow> op_range \<Rightarrow> cctx \<Rightarrow> status" where
  "scan_basic handler st current block r x = scan_ops handler st current block r True x"

definition scan_condition :: "scan_op option \<Rightarrow> scan_state \<Rightarrow> nat \<Rightarrow> nat \<Rightarrow> op_range \<Rightarrow> cctx \<Rightarrow> status" where
  "scan_condition handler st current block r x =
     (let before = v_len x in
      and_then (or_fail (scan_ops handler st current block r False x)) (\<lambda>x.
        if v_len x \<noteq> before + 1 then bad x
        else do {
          int \<leftarrow> par_is_int x (x_funcs x ! current) (v_top x);
          if \<not> int then bad x else ok (x\<lparr>v_pars := take before (v_pars x)\<rparr>)
        }))"

text \<open>Setting the length of the stack back; growing it would uncover stale entries.\<close>

definition reset_pars :: "nat \<Rightarrow> cctx \<Rightarrow> status" where
  "reset_pars n x = (if v_len x < n then None else ok (x\<lparr>v_pars := take n (v_pars x)\<rparr>))"

fun scan_children :: "(nat \<Rightarrow> cctx \<Rightarrow> status) \<Rightarrow> nat \<Rightarrow> nat \<Rightarrow> nat \<Rightarrow> nat \<Rightarrow> cctx \<Rightarrow> status" where
  "scan_children B 0 current child chain x = None"
| "scan_children B (Suc n) current child chain x =
     (if child = BLOCK_INVALID then ok x
      else and_then (B child x) (\<lambda>x.
        let blocks = fn_blocks (x_funcs x ! current) in
        if chain = BLOCK_INVALID then ok x
        else if length blocks \<le> chain then bad x
        else case blocks ! chain of
          BLOCK_CHAIN cur nxt \<Rightarrow> scan_children B n current cur nxt x
        | _ \<Rightarrow> bad x))"

text \<open>The state of the scan is restored when a variable goes out of scope, so it is an argument.\<close>

definition enter_var :: "nat \<Rightarrow> scan_state \<Rightarrow> scan_state" where
  "enter_var v st = st\<lparr>ss_scope_depth := ss_scope_depth st + 1,
     ss_var_depths := (ss_var_depths st)[v := ss_scope_depth st + 1]\<rparr>"

primrec scan_block :: "nat \<Rightarrow> scan_op option \<Rightarrow> scan_state \<Rightarrow> nat \<Rightarrow> nat \<Rightarrow> cctx \<Rightarrow> status" where
  "scan_block 0 handler = (\<lambda>st current idx x. None)"
| "scan_block (Suc n) handler = (\<lambda>st current idx x.
     let f = x_funcs x ! current; before = v_len x in
     if length (fn_blocks f) \<le> idx then bad x
     else case fn_blocks f ! idx of
       BLOCK_BASIC r \<Rightarrow> scan_basic handler st current idx r x
     | BLOCK_MANY cur nxt \<Rightarrow> scan_children (scan_block n handler st current) n current cur nxt x
     | BLOCK_CHAIN cur nxt \<Rightarrow> bad x
     | BLOCK_DEFER nxt defer \<Rightarrow>
         and_then (or_fail (scan_block n handler st current nxt x)) (\<lambda>x.
         and_then (reset_pars before x) (scan_block n handler st current defer))
     | BLOCK_CRASH \<Rightarrow> ok x
     | BLOCK_HARD_CRASH \<Rightarrow> ok x
     | BLOCK_BREAK level \<Rightarrow> ok x
     | BLOCK_CRASH_PAD body pad \<Rightarrow>
         and_then (or_fail (scan_block n handler st current body x)) (\<lambda>x.
         and_then (reset_pars before x) (scan_block n handler st current pad))
     | BLOCK_BRANCH cond yes no \<Rightarrow>
         and_then (or_fail (scan_condition handler st current idx cond x)) (\<lambda>x.
         and_then (or_fail (scan_block n handler st current yes x)) (\<lambda>x.
         and_then (reset_pars before x) (scan_block n handler st current no)))
     | BLOCK_LOOP body \<Rightarrow> scan_block n handler st current body x
     | BLOCK_VAR v body \<Rightarrow>
         if length (fn_vars f) \<le> v then bad x
         else scan_block n handler (enter_var v st) current body x)"

text \<open>All functions of the context in order; \<open>can_alloc\<close> decides the allocation of the depths.\<close>

fun scan_funcs_from :: "(nat \<Rightarrow> bool) \<Rightarrow> nat \<Rightarrow> scan_op option \<Rightarrow> nat list \<Rightarrow> cctx \<Rightarrow> status" where
  "scan_funcs_from can_alloc n handler [] x = ok (x\<lparr>v_pars := []\<rparr>)"
| "scan_funcs_from can_alloc n handler (fid # fids) x =
     (let f = x_funcs x ! fid; vars = length (fn_vars f);
          st = \<lparr>ss_scope_depth = 0, ss_var_depths = replicate vars 0\<rparr>; x0 = x\<lparr>v_pars := []\<rparr> in
      if vars \<noteq> 0 \<and> \<not> can_alloc (vars * 4) then bad x
      else and_then (if fn_blocks f = [] then ok x0 else or_fail (scan_block n handler st fid 0 x0))
        (scan_funcs_from can_alloc n handler fids))"

definition scan_funcs :: "(nat \<Rightarrow> bool) \<Rightarrow> nat \<Rightarrow> scan_op option \<Rightarrow> cctx \<Rightarrow> status" where
  "scan_funcs can_alloc n handler x = scan_funcs_from can_alloc n handler [0..<length (x_funcs x)] x"

text \<open>The callback of \<^verbatim>\<open>comp_run_calls\<close> sees every call, with its target and place.\<close>

definition call_adapter :: "(cctx \<Rightarrow> nat \<Rightarrow> code_loc \<Rightarrow> status) \<Rightarrow> scan_op" where
  "call_adapter g x st current op loc = (if o_kind op \<noteq> OP_CALL then ok x else g x (o_extra op) loc)"

definition comp_run_calls :: "(nat \<Rightarrow> bool) \<Rightarrow> nat \<Rightarrow> (cctx \<Rightarrow> nat \<Rightarrow> code_loc \<Rightarrow> status) \<Rightarrow> cctx \<Rightarrow> status" where
  "comp_run_calls can_alloc n g = scan_funcs can_alloc n (Some (call_adapter g))"

section \<open>The first pass\<close>

definition report_portal :: "tc_error reporter \<Rightarrow> tc_kind \<Rightarrow> nat \<Rightarrow> nat \<Rightarrow> code_loc \<Rightarrow> op \<Rightarrow> cctx \<Rightarrow> status" where
  "report_portal rep kind portal backing loc op x = report_type_check rep
     \<lparr>te_kind = kind, te_loc = loc, te_op = op, te_data = TC_Portal portal backing\<rparr> x"

definition check_portal_region :: "tc_error reporter \<Rightarrow> func \<Rightarrow> scan_state \<Rightarrow> nat \<Rightarrow> nat \<Rightarrow> code_loc \<Rightarrow> op \<Rightarrow> cctx \<Rightarrow> status" where
  "check_portal_region rep f st portal backing loc op x = do {
     retargetable \<leftarrow> portal_retargetable x f portal;
     if \<not> retargetable then report_portal rep TYPE_CHECK_ERROR_PORTAL_NON_LOCAL portal backing loc op x
     else do {
       db \<leftarrow> par_scope_depth x f st backing;
       dp \<leftarrow> par_scope_depth x f st portal;
       if dp < db then report_portal rep TYPE_CHECK_ERROR_PORTAL_BACKING_SCOPE portal backing loc op x
       else ok x
     }
   }"

definition add_hold :: "nat \<Rightarrow> nat \<Rightarrow> code_loc \<Rightarrow> bool \<Rightarrow> cctx \<Rightarrow> status" where
  "add_hold owner held loc just_const x =
     map_option (\<lambda>(b, x). (if b then 0 else 1, x)) (handle_add_hold owner held loc just_const x)"

definition first_pass_slice :: "tc_error reporter \<Rightarrow> func \<Rightarrow> scan_state \<Rightarrow> op \<Rightarrow> code_loc \<Rightarrow> cctx \<Rightarrow> status" where
  "first_pass_slice rep f st op loc x =
     (if v_len x < 2 then bad x
      else let ref = v_below x; arr = v_top x in do {
        tid \<leftarrow> par_type x f ref;
        if \<not> type_idx_valid (fn_types f) tid \<or> \<not> tid_is_ref f tid then bad x
        else and_then (check_portal_region rep f st ref arr loc op x)
          (add_hold ref arr loc (\<not> tid_is_slice f tid))
      })"

definition first_pass_one :: "tc_error reporter \<Rightarrow> func \<Rightarrow> scan_state \<Rightarrow> op \<Rightarrow> code_loc \<Rightarrow> cctx \<Rightarrow> status" where
  "first_pass_one rep f st op loc x =
     (if v_len x < 2 then bad x
      else let ref = v_below x; elem = v_top x in
        and_then (check_portal_region rep f st ref elem loc op x) (add_hold ref elem loc False))"

definition first_pass_assign :: "tc_error reporter \<Rightarrow> func \<Rightarrow> scan_state \<Rightarrow> op \<Rightarrow> code_loc \<Rightarrow> cctx \<Rightarrow> status" where
  "first_pass_assign rep f st op loc x =
     (if v_len x < 2 then bad x
      else let dst = v_below x; src = v_top x in do {
        dp \<leftarrow> par_is_portal x f dst;
        if \<not> dp then ok x
        else do {
          retargetable \<leftarrow> portal_retargetable x f dst;
          if \<not> retargetable then report_portal rep TYPE_CHECK_ERROR_PORTAL_NON_LOCAL dst src loc op x
          else do {
            sp \<leftarrow> par_is_portal x f src;
            if sp then and_then (check_portal_region rep f st dst src loc op x) (add_hold dst src loc False)
            else ok x
          }
        }
      })"

definition type_check_first_pass_op :: "tc_error reporter \<Rightarrow> scan_op" where
  "type_check_first_pass_op rep x st current op loc =
     (let f = x_funcs x ! current in
      and_then (or_fail (type_check_op rep f op loc x)) (\<lambda>x.
        if o_kind op = OP_SLICE_FROM_AR then first_pass_slice rep f st op loc x
        else if o_kind op = OP_SLICE_FROM_ONE then first_pass_one rep f st op loc x
        else if o_kind op = OP_ASSIGN then first_pass_assign rep f st op loc x
        else ok x))"

definition forget_holds :: "cctx \<Rightarrow> cctx" where
  "forget_holds x = x\<lparr>v_holds := [], v_handles := map (\<lambda>h. h\<lparr>h_start := 0, h_num := 0\<rparr>) (v_handles x)\<rparr>"

definition type_check_first_pass :: "(nat \<Rightarrow> bool) \<Rightarrow> nat \<Rightarrow> tc_error reporter \<Rightarrow> cctx \<Rightarrow> status" where
  "type_check_first_pass can_alloc n rep x =
     scan_funcs can_alloc n (Some (type_check_first_pass_op rep)) (forget_holds x)"

section \<open>Borrowing\<close>

record alias_error =
  ae_first_mut :: nat
  ae_second :: nat
  ae_call :: code_loc

text \<open>The state of a borrow: the place last borrowed mutably, and the context.\<close>

type_synonym bstatus = "(int \<times> nat \<times> cctx) option"

definition report_alias :: "alias_error reporter \<Rightarrow> nat \<Rightarrow> code_loc \<Rightarrow> nat \<Rightarrow> cctx \<Rightarrow> bstatus" where
  "report_alias rep second loc fm x = Some (case rep of None \<Rightarrow> (1, fm, x)
     | Some g \<Rightarrow> (case g x \<lparr>ae_first_mut = fm, ae_second = second, ae_call = loc\<rparr> of (r, x) \<Rightarrow> (r, fm, x)))"

type_synonym borrow_fn = "nat \<Rightarrow> life \<Rightarrow> nat \<Rightarrow> cctx \<Rightarrow> bstatus"

definition b_then :: "bstatus \<Rightarrow> (nat \<Rightarrow> cctx \<Rightarrow> bstatus) \<Rightarrow> bstatus" where
  "b_then m k = (case m of None \<Rightarrow> None | Some (r, fm, x) \<Rightarrow> if r \<noteq> 0 then Some (r, fm, x) else k fm x)"

text \<open>
  The loop over the holds reads them through a pointer to the handle.  Adding a handle
  reallocates the table, so going on with the loop after that is undefined.
\<close>

fun borrow_holds :: "borrow_fn \<Rightarrow> nat \<Rightarrow> life \<Rightarrow> nat \<Rightarrow> nat list \<Rightarrow> nat \<Rightarrow> cctx \<Rightarrow> bstatus" where
  "borrow_holds B n want start [] fm x = (if length (v_handles x) \<noteq> n then None else Some (0, fm, x))"
| "borrow_holds B n want start (i # is) fm x =
     (if length (v_handles x) \<noteq> n \<or> length (v_holds x) \<le> start + i then None
      else let hold = v_holds x ! (start + i) in
        b_then (B (hc_par hold) (if hc_just_const hold then LIFE_SHARED else want) fm x)
          (borrow_holds B n want start is))"

fun borrow_struct_fields :: "borrow_fn \<Rightarrow> nat \<Rightarrow> life \<Rightarrow> nat list \<Rightarrow> nat \<Rightarrow> cctx \<Rightarrow> bstatus" where
  "borrow_struct_fields B idx want [] fm x = Some (0, fm, x)"
| "borrow_struct_fields B idx want (i # is) fm x = do {
     (field, x) \<leftarrow> comp_context_intern_par x \<lparr>par_kind = PAR_STRUCT_FILED, par_i = i, par_parent = idx\<rparr>;
     b_then (B field want fm x) (borrow_struct_fields B idx want is)
   }"

definition set_life :: "nat \<Rightarrow> life \<Rightarrow> cctx \<Rightarrow> cctx" where
  "set_life i l x = set_handle i ((v_handles x ! i)\<lparr>h_life := l\<rparr>) x"

primrec borrow_par :: "nat \<Rightarrow> alias_error reporter \<Rightarrow> func \<Rightarrow> code_loc \<Rightarrow> borrow_fn" where
  "borrow_par 0 rep f loc = (\<lambda>idx want fm x. None)"
| "borrow_par (Suc n) rep f loc = (\<lambda>idx want fm x.
     if length (v_handles x) \<le> idx then Some (1, fm, x)
     else let p = h_par (v_handles x ! idx) in
       if par_kind p = PAR_ARR_MEMBER then borrow_par n rep f loc (par_parent p) want fm x
       else let h = v_handles x ! idx in
         if h_life h = LIFE_UNIQUE \<or> h_life h = LIFE_SHARED \<and> want = LIFE_UNIQUE then report_alias rep idx loc fm x
         else
           let x = (if want = LIFE_UNIQUE then set_life idx LIFE_UNIQUE x
                    else if h_life h = LIFE_FREE then set_life idx LIFE_SHARED x else x);
               fm = (if want = LIFE_UNIQUE then idx else fm) in
           b_then (borrow_holds (borrow_par n rep f loc) (length (v_handles x)) want (h_start h) [0..<h_num h] fm x) (\<lambda>fm x. do {
             tid \<leftarrow> par_type x f idx;
             if \<not> type_idx_valid (fn_types f) tid then Some (0, fm, x)
             else case t_kind (fn_types f ! tid) of
               TYPE_STRUCT fs \<Rightarrow> borrow_struct_fields (borrow_par n rep f loc) idx want [0..<length fs] fm x
             | _ \<Rightarrow> Some (0, fm, x)
           }))"

fun borrow_outs :: "borrow_fn \<Rightarrow> nat list \<Rightarrow> nat \<Rightarrow> cctx \<Rightarrow> bstatus" where
  "borrow_outs B [] fm x = Some (0, fm, x)"
| "borrow_outs B (p # ps) fm x = b_then (B p LIFE_UNIQUE p x) (borrow_outs B ps)"

fun borrow_ins :: "borrow_fn \<Rightarrow> func \<Rightarrow> (nat \<times> sig_input) list \<Rightarrow> nat \<Rightarrow> cctx \<Rightarrow> bstatus" where
  "borrow_ins B caller [] fm x = Some (0, fm, x)"
| "borrow_ins B caller ((p, i) # ps) fm x = do {
     let want = (if si_mut i then LIFE_UNIQUE else LIFE_SHARED);
     tid \<leftarrow> par_type x caller p;
     if want = LIFE_UNIQUE \<and> (\<not> type_idx_valid (fn_types caller) tid \<or> t_portal (fn_types caller ! tid)) then Some (1, fm, x)
     else b_then (B p want (if want = LIFE_UNIQUE then p else fm) x) (borrow_ins B caller ps)
   }"

definition free_lives :: "cctx \<Rightarrow> cctx" where
  "free_lives x = x\<lparr>v_handles := map (\<lambda>h. h\<lparr>h_life := LIFE_FREE\<rparr>) (v_handles x)\<rparr>"

definition borrow_check_sig :: "nat \<Rightarrow> alias_error reporter \<Rightarrow> func \<Rightarrow> sig \<Rightarrow> nat \<Rightarrow> code_loc \<Rightarrow> cctx \<Rightarrow> status" where
  "borrow_check_sig n rep caller s start loc x =
     (let outs = u32 (length (s_outs s)); ins = u32 (length (s_ins s)) in
      if v_len x < start + outs + ins then bad x
      else map_option (\<lambda>(r, fm, x). (r, x))
        (b_then (borrow_outs (borrow_par n rep caller loc) (take outs (drop start (v_pars x))) PAR_IDX_INVALID (free_lives x)) (\<lambda>fm x.
          borrow_ins (borrow_par n rep caller loc) caller
            (zip (take ins (drop (start + outs) (v_pars x))) (s_ins s)) fm x)))"

definition borrow_check_call :: "nat \<Rightarrow> alias_error reporter \<Rightarrow> scan_op" where
  "borrow_check_call n rep x st current op loc =
     (let caller = x_funcs x ! current in
      if o_kind op = OP_CALL then
        if length (x_funcs x) \<le> o_extra op then bad x
        else let s = fn_sig (x_funcs x ! o_extra op); outs = u32 (length (s_outs s)); ins = u32 (length (s_ins s)) in
          if v_len x < u32 (outs + ins) then bad x
          else borrow_check_sig n rep caller s (v_len x - outs - ins) loc x
      else if o_kind op = OP_CALL_NATIVE_ON_STACK then do {
        ns \<leftarrow> native_sig_on_stack x caller;
        case ns of
          None \<Rightarrow> bad x
        | Some s \<Rightarrow>
            let outs = u32 (length (s_outs s)); ins = u32 (length (s_ins s)) in
            if v_len x < u32 (outs + ins + 1) then bad x
            else borrow_check_sig n rep caller s (v_len x - 1 - outs - ins) loc x
      }
      else ok x)"

definition borrow_check :: "(nat \<Rightarrow> bool) \<Rightarrow> nat \<Rightarrow> alias_error reporter \<Rightarrow> cctx \<Rightarrow> status" where
  "borrow_check can_alloc n rep x =
     and_then (type_check_first_pass can_alloc n None x) (scan_funcs can_alloc n (Some (borrow_check_call n rep)))"

end
