(* ===== verification/ParTable_Inv.thy ===== *)
theory ParTable_Inv
  imports ParTable
begin

text \<open>
  The table of places is a map: its invariant, the effect of every operation on the map it
  stands for, and the interpretation of the table interface.
\<close>

section \<open>Probing\<close>

lemma mask_cap_pow: "mask_cap (2 ^ m) h = h mod 2 ^ m"
  using take_bit_eq_mask [of m h] by (simp add: mask_cap_def take_bit_eq_mod mask_eq_exp_minus_1)

definition pow2 :: "nat \<Rightarrow> bool" where "pow2 c \<longleftrightarrow> (\<exists>m. c = 2 ^ m)"

lemma pow2_mask: "pow2 c \<Longrightarrow> mask_cap c h = h mod c"
  by (auto simp: pow2_def mask_cap_pow)

lemma pow2_pos: "pow2 c \<Longrightarrow> 0 < c"
  by (auto simp: pow2_def)

lemma probe_Some:
  assumes "probe stop ss n i = Some j" "pow2 (length ss)" "i < length ss"
  shows "\<exists>d<n. j = (i + d) mod length ss \<and> stop (ss ! j) \<and> (\<forall>e<d. \<not> stop (ss ! ((i + e) mod length ss)))"
  using assms
proof (induction n arbitrary: i)
  case (Suc n)
  show ?case
  proof (cases "stop (ss ! i)")
    case True
    then show ?thesis using Suc.prems by (intro exI [of _ 0]) simp
  next
    case False
    let ?i = "mask_cap (length ss) (i + 1)"
    have i: "?i = (i + 1) mod length ss" "?i < length ss" using pow2_mask [OF Suc.prems(2)] pow2_pos [OF Suc.prems(2)] by simp_all
    have step: "(?i + d) mod length ss = (i + Suc d) mod length ss" for d unfolding i(1) by (simp add: mod_add_left_eq)
    from Suc.IH [of ?i] Suc.prems False i(2) obtain d where d: "d < n" "j = (i + Suc d) mod length ss" "stop (ss ! j)"
      "\<forall>e<d. \<not> stop (ss ! ((i + Suc e) mod length ss))" unfolding step by auto
    have "\<not> stop (ss ! ((i + e) mod length ss))" if "e < Suc d" for e
      using that d(4) False Suc.prems(3) by (cases e) simp_all
    then show ?thesis using d by (intro exI [of _ "Suc d"]) simp
  qed
qed simp

lemma probe_ends:
  assumes "d < n" "stop (ss ! ((i + d) mod length ss))" "pow2 (length ss)" "i < length ss"
  shows "probe stop ss n i \<noteq> None"
  using assms
proof (induction n arbitrary: i d)
  case (Suc n)
  let ?i = "mask_cap (length ss) (i + 1)"
  have i: "?i = (i + 1) mod length ss" "?i < length ss" using pow2_mask [OF Suc.prems(3)] pow2_pos [OF Suc.prems(3)] by simp_all
  show ?case
  proof (cases "stop (ss ! i)")
    case False
    then obtain d' where d': "d = Suc d'" using Suc.prems(2,4) by (cases d) auto
    have "(?i + d') mod length ss = (i + d) mod length ss" unfolding i(1) d' by (simp add: mod_add_left_eq)
    then have "probe stop ss n ?i \<noteq> None" using Suc.IH [of d' ?i] Suc.prems i(2) d' by simp
    then show ?thesis using False by simp
  qed simp
qed simp

lemma mod_add_cancel:
  fixes a d e c :: nat
  assumes "(a + e) mod c = (a + d) mod c" "e < c" "d < c"
  shows "e = d"
proof -
  have le: "y \<le> x" if "(a + x) mod c = (a + y) mod c" "x < c" "y < c" for x y :: nat
  proof (rule ccontr)
    assume "\<not> y \<le> x"
    then have "c dvd y - x" using that(1) mod_eq_dvd_iff_nat [of "a + x" "a + y" c] by simp
    then have "c \<le> y - x" using \<open>\<not> y \<le> x\<close> by (intro dvd_imp_le) simp_all
    then show False using that(3) by linarith
  qed
  show ?thesis using le [of e d] le [of d e] assms by simp
qed

text \<open>Every slot lies on the way of every probe.\<close>

lemma on_the_way: "j < c \<Longrightarrow> \<exists>d<c. j = (i + d) mod (c::nat)"
proof -
  assume j: "j < c"
  have "(i + (j + c - i mod c)) mod c = (i mod c + (j + c - i mod c)) mod c" by (simp add: mod_add_left_eq)
  also have "i mod c + (j + c - i mod c) = j + c" using j by (simp add: le_diff_conv less_imp_le_nat mod_le_divisor trans_le_add2)
  finally have "j = (i + (j + c - i mod c)) mod c" using j by simp
  moreover have "(i + (j + c - i mod c)) mod c = (i + (j + c - i mod c) mod c) mod c" by (simp add: mod_add_right_eq)
  ultimately show ?thesis using j by (intro exI [of _ "(j + c - i mod c) mod c"]) simp
qed

lemma probe_from_Some:
  assumes "probe_from stop ss k = Some j" "pow2 (length ss)"
  shows "\<exists>d<length ss. j = (par_hash k + d) mod length ss \<and> stop (ss ! j)
    \<and> (\<forall>e<d. \<not> stop (ss ! ((par_hash k + e) mod length ss)))"
proof -
  have "probe stop ss (length ss) (par_hash k mod length ss) = Some j"
    using assms by (simp add: probe_from_def pow2_mask)
  from probe_Some [OF this assms(2)] pow2_pos [OF assms(2)] show ?thesis by (simp only: mod_add_left_eq mod_less_divisor simp_thms)
qed

lemma probe_from_ends:
  assumes "d < length ss" "stop (ss ! ((par_hash k + d) mod length ss))" "pow2 (length ss)"
  shows "\<exists>j. probe_from stop ss k = Some j"
proof -
  have "probe stop ss (length ss) (par_hash k mod length ss) \<noteq> None"
    by (rule probe_ends [OF assms(1) _ assms(3)]) (use assms(2) pow2_pos [OF assms(3)] in \<open>simp_all add: mod_add_left_eq\<close>)
  then show ?thesis using assms(3) by (auto simp: probe_from_def pow2_mask)
qed

section \<open>Well-formed slots\<close>

definition occupied :: "slots \<Rightarrow> nat" where
  "occupied ss = length (filter (\<lambda>s. s \<noteq> None) ss)"

definition slot_path :: "slots \<Rightarrow> par \<Rightarrow> nat \<Rightarrow> bool" where
  "slot_path ss k j \<longleftrightarrow> (\<exists>d<length ss. j = (par_hash k + d) mod length ss
     \<and> (\<forall>e<d. ss ! ((par_hash k + e) mod length ss) \<noteq> None))"

definition wf_slots :: "slots \<Rightarrow> bool" where
  "wf_slots ss \<longleftrightarrow> pow2 (length ss)
     \<and> (\<forall>j<length ss. \<forall>k v. ss ! j = Some (k, v) \<longrightarrow> slot_path ss k j)
     \<and> (\<forall>i<length ss. \<forall>j<length ss. \<forall>k v w. ss ! i = Some (k, v) \<longrightarrow> ss ! j = Some (k, w) \<longrightarrow> i = j)"

text \<open>The map a list of slots stands for.\<close>

fun slot_map :: "slots \<Rightarrow> par \<Rightarrow> nat option" where
  "slot_map [] k = None"
| "slot_map (None # ss) k = slot_map ss k"
| "slot_map (Some (k', v) # ss) k = (if k' = k then Some v else slot_map ss k)"

lemma slot_map_None: "slot_map ss k = None \<longleftrightarrow> (\<forall>v. Some (k, v) \<notin> set ss)"
  by (induction ss k rule: slot_map.induct) auto

lemma slot_map_in: "slot_map ss k = Some v \<Longrightarrow> Some (k, v) \<in> set ss"
  by (induction ss k rule: slot_map.induct) (auto split: if_splits)

lemma slot_map_nth:
  assumes "wf_slots ss" "j < length ss" "ss ! j = Some (k, v)"
  shows "slot_map ss k = Some v"
proof -
  have "slot_map ss k \<noteq> None" using assms(2,3) nth_mem [of j ss] by (auto simp: slot_map_None)
  then obtain w where w: "slot_map ss k = Some w" by blast
  then obtain i where "i < length ss" "ss ! i = Some (k, w)" using slot_map_in by (metis in_set_conv_nth)
  then show ?thesis using w assms by (auto simp: wf_slots_def)
qed

lemma free_slot: "occupied ss < length ss \<Longrightarrow> \<exists>j<length ss. ss ! j = None"
proof (rule ccontr)
  assume "\<not> (\<exists>j<length ss. ss ! j = None)" "occupied ss < length ss"
  then have "filter (\<lambda>s. s \<noteq> None) ss = ss" by (intro filter_True) (auto simp: in_set_conv_nth)
  then show False using \<open>occupied ss < length ss\<close> by (simp add: occupied_def)
qed

text \<open>A probe for a key that is there stops at it, one for a new key at a free slot on its way.\<close>

lemma probe_hit:
  assumes "wf_slots ss" "j < length ss" "ss ! j = Some (k, v)"
  shows "probe_from (free_or k) ss k = Some j"
proof -
  let ?c = "length ss" and ?h = "par_hash k"
  have p: "pow2 ?c" "0 < ?c" using assms(1) pow2_pos by (auto simp: wf_slots_def)
  from assms obtain d where d: "d < ?c" "j = (?h + d) mod ?c" "\<forall>e<d. ss ! ((?h + e) mod ?c) \<noteq> None"
    by (auto simp: wf_slots_def slot_path_def)
  have no: "\<not> free_or k (ss ! ((?h + e) mod ?c))" if "e < d" for e
  proof -
    have "ss ! ((?h + e) mod ?c) \<noteq> None" using d(3) that by blast
    then obtain k' w where s: "ss ! ((?h + e) mod ?c) = Some (k', w)" by (cases "ss ! ((?h + e) mod ?c)") auto
    have "k' \<noteq> k"
    proof
      assume "k' = k"
      then have "(?h + e) mod ?c = j" using assms s p(2) unfolding wf_slots_def by (meson mod_less_divisor)
      then have "(?h + e) mod ?c = (?h + d) mod ?c" using d(2) by simp
      then have "e = d" by (rule mod_add_cancel) (use that d(1) in simp_all)
      then show False using that by simp
    qed
    then show ?thesis by (simp add: s free_or_def)
  qed
  have yes: "free_or k (ss ! ((?h + d) mod ?c))" using assms(3) d(2) by (simp add: free_or_def)
  obtain i where i: "probe_from (free_or k) ss k = Some i" using probe_from_ends [of d ss "free_or k" k] d(1) yes p(1) by blast
  from probe_from_Some [OF i p(1)] obtain d' where d': "i = (?h + d') mod ?c" "free_or k (ss ! i)"
    "\<forall>e<d'. \<not> free_or k (ss ! ((?h + e) mod ?c))" by blast
  have "\<not> d' < d" using no [of d'] d'(1,2) by auto
  moreover have "\<not> d < d'" using d'(3) yes by auto
  ultimately show ?thesis using i d(2) d'(1) by simp
qed

text \<open>The probe for a free slot, for whichever reason it stops at free slots only.\<close>

lemma probe_free:
  assumes "pow2 (length ss)" "occupied ss < length ss" "\<And>s. s \<in> set ss \<Longrightarrow> stop s \<longleftrightarrow> s = None"
  shows "\<exists>j<length ss. probe_from stop ss k = Some j \<and> ss ! j = None \<and> slot_path ss k j"
proof -
  have c: "0 < length ss" using pow2_pos [OF assms(1)] .
  have stop: "stop (ss ! (x mod length ss)) \<longleftrightarrow> ss ! (x mod length ss) = None" for x using assms(3) c by simp
  obtain j0 where "j0 < length ss" "ss ! j0 = None" using free_slot [OF assms(2)] by blast
  moreover from on_the_way [OF this(1), of "par_hash k"] obtain d where "d < length ss" "j0 = (par_hash k + d) mod length ss" by blast
  ultimately have "d < length ss" "stop (ss ! ((par_hash k + d) mod length ss))" unfolding stop by metis+
  with probe_from_ends [of d ss stop k] assms(1) obtain j where j: "probe_from stop ss k = Some j" by blast
  from probe_from_Some [OF j assms(1)] obtain d' where d': "d' < length ss" "j = (par_hash k + d') mod length ss" "stop (ss ! j)"
    "\<forall>e<d'. \<not> stop (ss ! ((par_hash k + e) mod length ss))" by blast
  then have "slot_path ss k j" unfolding slot_path_def using stop by blast
  moreover have "j < length ss" using d'(2) c by simp
  moreover have "ss ! j = None" using d'(2,3) stop by simp
  ultimately show ?thesis using j by blast
qed

section \<open>Filling a slot\<close>

lemma slot_map_upd_free:
  "j < length ss \<Longrightarrow> ss ! j = None \<Longrightarrow> slot_map ss k = None \<Longrightarrow> slot_map (ss[j := Some (k, v)]) = (slot_map ss)(k \<mapsto> v)"
proof (induction ss arbitrary: j)
  case (Cons s ss)
  show ?case
  proof (cases j)
    case 0
    then have "s = None" using Cons.prems by simp
    then show ?thesis using 0 by (auto simp: fun_eq_iff)
  next
    case (Suc i)
    have k: "slot_map ss k = None" using Cons.prems(3) by (cases s) (auto split: if_splits)
    have "slot_map (ss[i := Some (k, v)]) = (slot_map ss)(k \<mapsto> v)" using Cons.IH [of i] Cons.prems Suc k by (simp del: fun_upd_apply)
    then show ?thesis using Suc Cons.prems(3) by (cases s) (auto simp: fun_eq_iff split: if_splits)
  qed
qed simp

lemma occupied_upd_free:
  "j < length ss \<Longrightarrow> ss ! j = None \<Longrightarrow> occupied (ss[j := Some e]) = Suc (occupied ss)"
proof (induction ss arbitrary: j)
  case (Cons s ss)
  then show ?case by (cases j) (auto simp: occupied_def)
qed simp

lemma slot_path_mono:
  assumes "slot_path ss k j" "length ss' = length ss" "\<And>i. ss ! i \<noteq> None \<Longrightarrow> ss' ! i \<noteq> None"
  shows "slot_path ss' k j"
  using assms unfolding slot_path_def by (metis (no_types, lifting))

lemma wf_slots_upd_free:
  assumes "wf_slots ss" "j < length ss" "ss ! j = None" "slot_path ss k j" "slot_map ss k = None"
  shows "wf_slots (ss[j := Some (k, v)])"
proof -
  let ?ss = "ss[j := Some (k, v)]"
  have keep: "?ss ! i \<noteq> None" if "ss ! i \<noteq> None" for i using that assms(2) by (cases "i = j") auto
  have path: "slot_path ?ss k' i" if "slot_path ss k' i" for k' i
    by (rule slot_path_mono [OF that]) (use keep in auto)
  have absent: "ss ! i \<noteq> Some (k, w)" if "i < length ss" for i w
    using assms(5) nth_mem [OF that] unfolding slot_map_None by metis
  show ?thesis unfolding wf_slots_def
  proof (intro conjI allI impI)
    show "pow2 (length ?ss)" using assms(1) by (simp add: wf_slots_def)
    fix i k' w assume i: "i < length ?ss" "?ss ! i = Some (k', w)"
    show "slot_path ?ss k' i"
      using i assms(1,4) path unfolding wf_slots_def by (cases "i = j") auto
  next
    fix i i' k' w w' assume i: "i < length ?ss" "i' < length ?ss" "?ss ! i = Some (k', w)" "?ss ! i' = Some (k', w')"
    show "i = i'"
      using i assms(1,2) absent [of i w] absent [of i' w'] unfolding wf_slots_def
      by (cases "i = j"; cases "i' = j") auto
  qed
qed

text \<open>Overwriting the value of a key.\<close>

lemma slot_map_upd_same:
  assumes "wf_slots ss" "j < length ss" "ss ! j = Some (k, w)"
  shows "wf_slots (ss[j := Some (k, v)]) \<and> slot_map (ss[j := Some (k, v)]) = (slot_map ss)(k \<mapsto> v)
    \<and> occupied (ss[j := Some (k, v)]) = occupied ss"
proof (intro conjI)
  let ?ss = "ss[j := Some (k, v)]"
  have used: "?ss ! i = None \<longleftrightarrow> ss ! i = None" for i using assms(2,3) by (cases "i = j") auto
  have path: "slot_path ?ss k' i = slot_path ss k' i" for k' i by (simp only: slot_path_def length_list_update used)
  show wf: "wf_slots ?ss" unfolding wf_slots_def
  proof (intro conjI allI impI)
    show "pow2 (length ?ss)" using assms(1) by (simp add: wf_slots_def)
    fix i k' x assume i: "i < length ?ss" "?ss ! i = Some (k', x)"
    show "slot_path ?ss k' i" unfolding path using i assms unfolding wf_slots_def by (cases "i = j") auto
  next
    fix i i' k' x x' assume i: "i < length ?ss" "i' < length ?ss" "?ss ! i = Some (k', x)" "?ss ! i' = Some (k', x')"
    show "i = i'" using i assms unfolding wf_slots_def by (cases "i = j"; cases "i' = j") (auto; blast)+
  qed
  show "slot_map ?ss = (slot_map ss)(k \<mapsto> v)"
  proof
    fix k'
    show "slot_map ?ss k' = ((slot_map ss)(k \<mapsto> v)) k'"
    proof (cases "k' = k")
      case True
      then show ?thesis using slot_map_nth [OF wf, of j] assms(2) by simp
    next
      case False
      have "Some (k', x) \<in> set ?ss \<longleftrightarrow> Some (k', x) \<in> set ss" for x
      proof -
        have "?ss ! i = Some (k', x) \<longleftrightarrow> ss ! i = Some (k', x)" for i using assms(2,3) False by (cases "i = j") auto
        then show ?thesis by (simp add: in_set_conv_nth)
      qed
      then have iff: "slot_map ?ss k' = Some x \<longleftrightarrow> slot_map ss k' = Some x" for x
        using slot_map_in slot_map_nth [OF wf] slot_map_nth [OF assms(1)] by (metis in_set_conv_nth)
      show ?thesis using False iff by (cases "slot_map ss k'"; cases "slot_map ?ss k'") auto
    qed
  qed
  show "occupied ?ss = occupied ss"
  proof -
    have "occupied xs = occupied ys" if "list_all2 (\<lambda>a b. a = None \<longleftrightarrow> b = None) xs ys" for xs ys :: slots
      using that by (induction rule: list_all2_induct) (auto simp: occupied_def)
    then show ?thesis using used by (simp add: list_all2_conv_all_nth)
  qed
qed

section \<open>Growing\<close>

fun keys_distinct :: "slots \<Rightarrow> bool" where
  "keys_distinct [] \<longleftrightarrow> True"
| "keys_distinct (None # ss) \<longleftrightarrow> keys_distinct ss"
| "keys_distinct (Some (k, v) # ss) \<longleftrightarrow> slot_map ss k = None \<and> keys_distinct ss"

lemma unique_keys_distinct:
  "(\<And>i j k v w. i < length ss \<Longrightarrow> j < length ss \<Longrightarrow> ss ! i = Some (k, v) \<Longrightarrow> ss ! j = Some (k, w) \<Longrightarrow> i = j) \<Longrightarrow> keys_distinct ss"
proof (induction ss rule: keys_distinct.induct)
  case (2 ss)
  have "keys_distinct ss" using 2(2) [of "Suc _" "Suc _"] by (intro 2(1)) fastforce
  then show ?case by simp
next
  case (3 k v ss)
  have "keys_distinct ss" using 3(2) [of "Suc _" "Suc _"] by (intro 3(1)) fastforce
  moreover have "Some (k, w) \<notin> set ss" for w
  proof
    assume "Some (k, w) \<in> set ss"
    then obtain i where "i < length ss" "ss ! i = Some (k, w)" by (auto simp: in_set_conv_nth)
    then show False using 3(2) [of 0 "Suc i" k v w] by simp
  qed
  ultimately show ?case by (simp add: slot_map_None)
qed simp

lemma wf_keys_distinct: "wf_slots ss \<Longrightarrow> keys_distinct ss"
  by (rule unique_keys_distinct) (auto simp: wf_slots_def)

lemma reinsert_ok:
  assumes "wf_slots ss" "occupied ss + occupied old < length ss" "keys_distinct old"
    and "\<And>k. slot_map old k \<noteq> None \<Longrightarrow> slot_map ss k = None"
  shows "\<exists>ss'. reinsert old (ss, n) = Some (ss', n + occupied old) \<and> wf_slots ss' \<and> length ss' = length ss
    \<and> occupied ss' = occupied ss + occupied old \<and> slot_map ss' = slot_map ss ++ slot_map old"
  using assms
proof (induction old "(ss, n)" arbitrary: ss n rule: reinsert.induct)
  case (1 ss n)
  then show ?case by (auto simp: occupied_def map_add_def)
next
  case (2 old ss n)
  then show ?case by (simp add: occupied_def map_add_def)
next
  case (3 k v old ss n)
  have p: "pow2 (length ss)" "slot_map old k = None" "keys_distinct old" "slot_map ss k = None"
    using 3(2,4) 3(5) [of k] by (simp_all add: wf_slots_def)
  have o: "occupied (Some (k, v) # old) = Suc (occupied old)" by (simp add: occupied_def)
  obtain j where j: "j < length ss" "probe_from is_free ss k = Some j" "ss ! j = None" "slot_path ss k j"
    using probe_free [OF p(1), of is_free k] 3(3) o by auto
  let ?ss = "ss[j := Some (k, v)]"
  have wf: "wf_slots ?ss" by (rule wf_slots_upd_free) (use 3(2) j p in auto)
  have m: "slot_map ?ss = (slot_map ss)(k \<mapsto> v)" by (rule slot_map_upd_free) (use j p in auto)
  have oc: "occupied ?ss = Suc (occupied ss)" by (rule occupied_upd_free) (use j in auto)
  have d: "slot_map ?ss k' = None" if "slot_map old k' \<noteq> None" for k'
    using that p(2) 3(5) [of k'] unfolding m by (cases "k' = k") auto
  have "\<exists>ss'. reinsert old (?ss, n + 1) = Some (ss', n + 1 + occupied old) \<and> wf_slots ss' \<and> length ss' = length ?ss
    \<and> occupied ss' = occupied ?ss + occupied old \<and> slot_map ss' = slot_map ?ss ++ slot_map old"
    by (rule 3(1) [OF j(2) wf]) (use 3(3) o oc p(3) d in auto)
  moreover have "slot_map ?ss ++ slot_map old = slot_map ss ++ slot_map (Some (k, v) # old)"
    unfolding m using p(2) by (auto simp: fun_eq_iff map_add_def split: option.splits)
  ultimately show ?case using j(2) oc o by simp
qed

section \<open>The table\<close>

definition pt_inv :: "par_table \<Rightarrow> bool" where
  "pt_inv t \<longleftrightarrow> pt_slots t = [] \<and> pt_len t = 0
     \<or> wf_slots (pt_slots t) \<and> pt_len t = occupied (pt_slots t) \<and> occupied (pt_slots t) * 4 < pt_cap t * 3"

abbreviation pt_map :: "par_table \<Rightarrow> par \<Rightarrow> nat option" where "pt_map t \<equiv> slot_map (pt_slots t)"

lemma empty_slots:
  "wf_slots (replicate (2 ^ m) None)" "occupied (replicate n None) = 0" "slot_map (replicate n None) = Map.empty"
proof -
  show "slot_map (replicate n None) = Map.empty" by (induction n) (auto simp: fun_eq_iff)
qed (auto simp: wf_slots_def pow2_def occupied_def)

lemma par_idx_table_reset_ok: "pt_inv t \<Longrightarrow> pt_inv (par_idx_table_reset t) \<and> pt_map (par_idx_table_reset t) = Map.empty"
proof -
  assume "pt_inv t"
  then have "pt_slots t = [] \<or> (\<exists>m. pt_cap t = 2 ^ m)" by (auto simp: pt_inv_def wf_slots_def pow2_def)
  then show ?thesis using empty_slots
    by (auto simp: par_idx_table_reset_def pt_inv_def)
qed

lemma par_idx_table_grow_ok:
  assumes "pt_inv t"
  shows "\<exists>t'. par_idx_table_grow t = Some t' \<and> wf_slots (pt_slots t') \<and> pt_len t' = occupied (pt_slots t')
    \<and> (pt_len t' + 1) * 4 < pt_cap t' * 3 \<and> pt_map t' = pt_map t"
proof (cases "pt_slots t = []")
  case True
  then show ?thesis using empty_slots(1) [of 4] empty_slots(2,3) [of 16]
    by (auto simp: par_idx_table_grow_def occupied_def numeral_eq_Suc)
next
  case False
  then have t: "wf_slots (pt_slots t)" "pt_len t = occupied (pt_slots t)" "occupied (pt_slots t) * 4 < pt_cap t * 3"
    using assms by (auto simp: pt_inv_def)
  then obtain m where m: "pt_cap t = 2 ^ m" by (auto simp: wf_slots_def pow2_def)
  let ?new = "replicate (pt_cap t * 2) None :: slots"
  have new: "wf_slots ?new" using empty_slots(1) [of "Suc m"] by (simp add: m mult.commute)
  have "\<exists>ss'. reinsert (pt_slots t) (?new, 0) = Some (ss', 0 + occupied (pt_slots t)) \<and> wf_slots ss' \<and> length ss' = length ?new
    \<and> occupied ss' = occupied ?new + occupied (pt_slots t) \<and> slot_map ss' = slot_map ?new ++ slot_map (pt_slots t)"
    by (rule reinsert_ok [OF new]) (use t wf_keys_distinct in \<open>auto simp: empty_slots\<close>)
  moreover have "(occupied (pt_slots t) + 1) * 4 < pt_cap t * 2 * 3" using False t(3) by (cases "pt_slots t") (simp_all, presburger)
  ultimately show ?thesis using False by (auto simp: par_idx_table_grow_def empty_slots map_add_def fun_eq_iff split: option.splits)
qed

lemma free_or_new: "slot_map ss k = None \<Longrightarrow> s \<in> set ss \<Longrightarrow> free_or k s \<longleftrightarrow> s = None"
  by (cases s) (auto simp: free_or_def slot_map_None)

lemma par_idx_table_get_ok: "pt_inv t \<Longrightarrow> par_idx_table_get t k = Some (pt_map t k)"
proof -
  assume inv: "pt_inv t"
  show ?thesis
  proof (cases "pt_slots t = []")
    case False
    then have t: "wf_slots (pt_slots t)" "occupied (pt_slots t) < pt_cap t" using inv by (auto simp: pt_inv_def)
    show ?thesis
    proof (cases "pt_map t k")
      case None
      have "\<exists>j<pt_cap t. probe_from (free_or k) (pt_slots t) k = Some j \<and> pt_slots t ! j = None \<and> slot_path (pt_slots t) k j"
        by (rule probe_free) (use t free_or_new [OF None] in \<open>auto simp: wf_slots_def\<close>)
      then show ?thesis using False None by (auto simp: par_idx_table_get_def)
    next
      case (Some v)
      then obtain j where j: "j < pt_cap t" "pt_slots t ! j = Some (k, v)" using slot_map_in by (metis in_set_conv_nth)
      then show ?thesis using False Some probe_hit [OF t(1) j] by (simp add: par_idx_table_get_def)
    qed
  qed (simp add: par_idx_table_get_def)
qed

lemma par_idx_table_put_ok:
  assumes "pt_inv t"
  shows "\<exists>t'. par_idx_table_put t k v = Some t' \<and> pt_inv t' \<and> pt_map t' = (pt_map t)(k \<mapsto> v)"
proof -
  obtain w where w: "(if pt_cap t * 3 \<le> (pt_len t + 1) * 4 then par_idx_table_grow t else Some t) = Some w"
    and wf: "wf_slots (pt_slots w)" "pt_len w = occupied (pt_slots w)" "(occupied (pt_slots w) + 1) * 4 < pt_cap w * 3"
    and same: "pt_map w = pt_map t"
  proof (cases "pt_cap t * 3 \<le> (pt_len t + 1) * 4")
    case True
    then show ?thesis using par_idx_table_grow_ok [OF assms] that by auto
  next
    case False
    then show ?thesis using assms that [of t] by (auto simp: pt_inv_def)
  qed
  show ?thesis
  proof (cases "pt_map w k")
    case None
    have "\<exists>j<pt_cap w. probe_from (free_or k) (pt_slots w) k = Some j \<and> pt_slots w ! j = None \<and> slot_path (pt_slots w) k j"
      by (rule probe_free) (use wf free_or_new [OF None] in \<open>auto simp: wf_slots_def\<close>)
    then obtain j where j: "j < pt_cap w" "probe_from (free_or k) (pt_slots w) k = Some j" "pt_slots w ! j = None" "slot_path (pt_slots w) k j"
      by blast
    show ?thesis
      using w j wf wf_slots_upd_free [OF wf(1) j(1,3,4) None] slot_map_upd_free [OF j(1,3) None] occupied_upd_free [OF j(1,3)] same
      by (simp add: par_idx_table_put_def pt_inv_def del: fun_upd_apply)
  next
    case (Some x)
    then obtain j where j: "j < pt_cap w" "pt_slots w ! j = Some (k, x)" using slot_map_in by (metis in_set_conv_nth)
    from slot_map_upd_same [OF wf(1) j, of v] show ?thesis
      using w wf probe_hit [OF wf(1) j] j(2) same by (simp add: par_idx_table_put_def pt_inv_def del: fun_upd_apply)
  qed
qed

text \<open>The table of places as an implementation of the table interface.\<close>

interpretation pars: interner pt_inv pt_map par_idx_table_get par_idx_table_put "\<lparr>pt_slots = [], pt_len = 0\<rparr>"
proof unfold_locales
  show "pt_inv \<lparr>pt_slots = [], pt_len = 0\<rparr>" by (simp add: pt_inv_def)
  show "slot_map (pt_slots \<lparr>pt_slots = [], pt_len = 0\<rparr>) = Map.empty" by (simp add: fun_eq_iff)
qed (rule par_idx_table_get_ok par_idx_table_put_ok, assumption)+

end
