(* ===== verification/Borrow_Inv.thy ===== *)
theory Borrow_Inv
  imports Borrow ParTable_Inv
begin

text \<open>
  The invariant of the checker's places: the table numbers the handles, and a projection comes
  after its parent.  It makes the walks along parents end, and interning keeps it.
\<close>

section \<open>Places are numbered\<close>

abbreviation pars_of :: "cctx \<Rightarrow> par list" where "pars_of x \<equiv> map h_par (v_handles x)"

definition parent_ok :: "nat \<Rightarrow> par \<Rightarrow> bool" where
  "parent_ok n p \<longleftrightarrow> (is_projection p \<longrightarrow> par_parent p < n)"

definition places_ok :: "cctx \<Rightarrow> bool" where
  "places_ok x \<longleftrightarrow> pt_inv (v_table x) \<and> numbers (pt_map (v_table x)) (pars_of x)
     \<and> (\<forall>i<length (v_handles x). parent_ok i (h_par (v_handles x ! i)))"

text \<open>Interning a place is interning its key in the table.\<close>

lemma intern_par_intern:
  assumes "length (v_handles x) < W32"
  shows "comp_context_intern_par x p = map_option (\<lambda>(i, t, ps). (i,
      if length ps = length (v_handles x) then x
      else x\<lparr>v_handles := v_handles x @ [fresh_handle p], v_table := t\<rparr>))
    (intern_with par_idx_table_get par_idx_table_put p (v_table x, pars_of x))"
  using assms by (auto simp: comp_context_intern_par_def intern_with_def Option.bind_map_option comp_def map_option_case
      split: option.split bind_splits)

lemma intern_par_facts:
  assumes "places_ok x" "length (v_handles x) < W32" "parent_ok (length (v_handles x)) p"
  shows "\<exists>i x'. comp_context_intern_par x p = Some (i, x') \<and> places_ok x' \<and> h_par (v_handles x' ! i) = p
    \<and> i < length (v_handles x') \<and> (x' = x \<or> i = length (v_handles x) \<and> p \<notin> set (pars_of x)
       \<and> (\<exists>t. x' = x\<lparr>v_handles := v_handles x @ [fresh_handle p], v_table := t\<rparr>))
    \<and> (length (v_handles x') < W32 \<longrightarrow> comp_context_intern_par x' p = Some (i, x'))"
proof -
  have inv: "pt_inv (v_table x)" "numbers (pt_map (v_table x)) (pars_of x)" using assms(1) by (auto simp: places_ok_def)
  from pars.intern_numbers [OF inv, of p] obtain i t ps where
    i: "intern_with par_idx_table_get par_idx_table_put p (v_table x, pars_of x) = Some (i, t, ps)"
    and t: "pt_inv t" "numbers (pt_map t) ps" "i < length ps" "ps ! i = p"
    and ps: "ps = pars_of x \<or> p \<notin> set (pars_of x) \<and> i = length (pars_of x) \<and> ps = pars_of x @ [p]"
    by blast
  define x' where "x' = (if length ps = length (v_handles x) then x else x\<lparr>v_handles := v_handles x @ [fresh_handle p], v_table := t\<rparr>)"
  have eq: "comp_context_intern_par x p = Some (i, x')" using intern_par_intern [OF assms(2)] i by (simp add: x'_def)
  from ps have "places_ok x' \<and> h_par (v_handles x' ! i) = p \<and> i < length (v_handles x') \<and>
    (x' = x \<or> i = length (v_handles x) \<and> p \<notin> set (pars_of x) \<and> (\<exists>t. x' = x\<lparr>v_handles := v_handles x @ [fresh_handle p], v_table := t\<rparr>))"
  proof
    assume same: "ps = pars_of x"
    then have "x' = x" by (simp add: x'_def)
    moreover have "h_par (v_handles x ! i) = p" "i < length (v_handles x)" using t(3,4) same by simp_all
    ultimately show ?thesis using assms(1) by simp
  next
    assume new: "p \<notin> set (pars_of x) \<and> i = length (pars_of x) \<and> ps = pars_of x @ [p]"
    then have x': "x' = x\<lparr>v_handles := v_handles x @ [fresh_handle p], v_table := t\<rparr>" by (simp add: x'_def)
    have "parent_ok j (h_par ((v_handles x @ [fresh_handle p]) ! j))" if "j < Suc (length (v_handles x))" for j
      using that assms(1,3) by (cases "j = length (v_handles x)") (auto simp: places_ok_def nth_append fresh_handle_def)
    then have "places_ok x'" using t(1,2) new by (simp add: places_ok_def x' fresh_handle_def)
    then show ?thesis using x' new by (auto simp: nth_append fresh_handle_def)
  qed
  moreover have "comp_context_intern_par x' p = Some (i, x')" if "length (v_handles x') < W32" "places_ok x'" "h_par (v_handles x' ! i) = p" "i < length (v_handles x')"
  proof -
    have "pt_map (v_table x') p = Some i" using that(2-4) by (simp add: places_ok_def numbers_def)
    then show ?thesis using that(2) by (simp add: comp_context_intern_par_def places_ok_def par_idx_table_get_ok)
  qed
  ultimately show ?thesis using eq by blast
qed

text \<open>
  C34.  Interning a place gives the position of a handle for it: an old one if there is one, and
  otherwise a new one at the end.  Old numbers stay, equal places get equal numbers, different
  places different ones.
\<close>

theorem intern_par_ok:
  assumes "places_ok x" "length (v_handles x) < W32" "parent_ok (length (v_handles x)) p"
  shows "\<exists>i x'. comp_context_intern_par x p = Some (i, x') \<and> places_ok x' \<and> h_par (v_handles x' ! i) = p
    \<and> i < length (v_handles x') \<and> (x' = x \<or> i = length (v_handles x) \<and> p \<notin> set (pars_of x)
       \<and> (\<exists>t. x' = x\<lparr>v_handles := v_handles x @ [fresh_handle p], v_table := t\<rparr>))
    \<and> (length (v_handles x') < W32 \<longrightarrow> comp_context_intern_par x' p = Some (i, x'))"
  by (rule intern_par_facts [OF assms])

text \<open>Two locals and a field of the first, interned one after the other.\<close>

definition local_par :: "nat \<Rightarrow> par" where "local_par i = \<lparr>par_kind = PAR_LOCAL, par_i = i, par_parent = 0\<rparr>"

definition empty_cctx :: cctx where
  "empty_cctx = \<lparr>x_globals = [], x_funcs = [], x_code = [], x_code_cap = 0, x_placed = 0, x_place = (\<lambda>i. 4096), v_globals_cap = 0,
     v_handles = [], v_holds = [], v_table = \<lparr>pt_slots = [], pt_len = 0\<rparr>, v_pars = []\<rparr>"

lemma places_ok_empty: "v_handles x = [] \<Longrightarrow> pt_slots (v_table x) = [] \<Longrightarrow> pt_len (v_table x) = 0 \<Longrightarrow> places_ok x"
proof -
  assume e: "v_handles x = []" "pt_slots (v_table x) = []" "pt_len (v_table x) = 0"
  have "pt_map (v_table x) = Map.empty" using e(2) by (simp add: fun_eq_iff)
  then show ?thesis using e numbers_Nil by (simp add: places_ok_def pt_inv_def)
qed

theorem intern_par_ok_witness:
  "\<exists>x'. comp_context_intern_par empty_cctx (local_par 5) = Some (0, x') \<and> comp_context_intern_par x' (local_par 5) = Some (0, x')"
proof -
  have p: "places_ok empty_cctx" by (rule places_ok_empty) (simp_all add: empty_cctx_def)
  from intern_par_ok [OF p, of "local_par 5"] obtain i x' where
    "comp_context_intern_par empty_cctx (local_par 5) = Some (i, x')" "i < length (v_handles x')"
    "x' = empty_cctx \<or> i = 0 \<and> (\<exists>t. x' = empty_cctx\<lparr>v_handles := [fresh_handle (local_par 5)], v_table := t\<rparr>)"
    "length (v_handles x') < W32 \<longrightarrow> comp_context_intern_par x' (local_par 5) = Some (i, x')"
    by (auto simp: empty_cctx_def parent_ok_def is_projection_def local_par_def)
  then show ?thesis by (auto simp: empty_cctx_def)
qed

section \<open>Walking to the root\<close>

lemma par_type_fuel_ok:
  assumes "places_ok x" "idx < n"
  shows "par_type_fuel n x f idx = par_type_fuel (Suc idx) x f idx \<and> (\<exists>t. par_type_fuel n x f idx = Some t)"
  using assms(2)
proof (induction idx arbitrary: n rule: less_induct)
  case (less idx)
  obtain m where m: "n = Suc m" using less.prems by (cases n) auto
  show ?case
  proof (cases "idx < length (v_handles x) \<and> is_projection (h_par (v_handles x ! idx))")
    case False
    then show ?thesis unfolding m by (auto simp: Let_def is_projection_def split: par_kind.split)
  next
    case True
    then have p: "par_parent (h_par (v_handles x ! idx)) < idx" using assms(1) by (auto simp: places_ok_def parent_ok_def)
    let ?q = "par_parent (h_par (v_handles x ! idx))"
    have "?q < m" using p less.prems m by simp
    from less.IH [OF p this] less.IH [OF p p]
    obtain t where "par_type_fuel m x f ?q = Some t" "par_type_fuel idx x f ?q = Some t" by metis
    then show ?thesis unfolding m using True by (auto simp: Let_def is_projection_def split: par_kind.split)
  qed
qed

lemma par_type_total:
  assumes "places_ok x" shows "\<exists>t. par_type x f idx = Some t"
proof (cases "idx < Suc (length (v_handles x))")
  case True
  show ?thesis using par_type_fuel_ok [OF assms True, of f] unfolding par_type_def by blast
qed (simp add: par_type_def)

text \<open>The type of a place depends on the handles up to it and on the globals.\<close>

lemma par_type_fuel_cong:
  assumes "places_ok x" "x_globals x' = x_globals x" "length (v_handles x) \<le> length (v_handles x')"
    and "\<And>i. i < length (v_handles x) \<Longrightarrow> h_par (v_handles x' ! i) = h_par (v_handles x ! i)"
  shows "idx < length (v_handles x) \<Longrightarrow> idx < n \<Longrightarrow> par_type_fuel n x' f idx = par_type_fuel n x f idx"
proof (induction n arbitrary: idx)
  case (Suc n)
  have p: "h_par (v_handles x' ! idx) = h_par (v_handles x ! idx)" "\<not> length (v_handles x') \<le> idx" using assms(3,4) Suc.prems by auto
  show ?case
  proof (cases "is_projection (h_par (v_handles x ! idx))")
    case False
    then show ?thesis using p Suc.prems assms(2) by (auto simp: Let_def is_projection_def split: par_kind.split)
  next
    case True
    then have "par_parent (h_par (v_handles x ! idx)) < idx" using assms(1) Suc.prems by (auto simp: places_ok_def parent_ok_def)
    then have "par_type_fuel n x' f (par_parent (h_par (v_handles x ! idx))) = par_type_fuel n x f (par_parent (h_par (v_handles x ! idx)))"
      using Suc by simp
    then show ?thesis using p Suc.prems assms(2) by (auto simp: Let_def split: par_kind.split)
  qed
qed simp

lemma par_type_own:
  assumes "places_ok x" "idx < length (v_handles x)"
  shows "par_type x f idx = par_type_fuel (Suc idx) x f idx"
proof -
  have "idx < Suc (length (v_handles x))" using assms(2) by simp
  from par_type_fuel_ok [OF assms(1) this, of f] show ?thesis unfolding par_type_def by (rule conjunct1)
qed

lemma par_type_cong:
  assumes "places_ok x" "x_globals x' = x_globals x" "length (v_handles x) \<le> length (v_handles x')"
    and "\<And>i. i < length (v_handles x) \<Longrightarrow> h_par (v_handles x' ! i) = h_par (v_handles x ! i)"
    and "places_ok x'" "idx < length (v_handles x)"
  shows "par_type x' f idx = par_type x f idx"
proof -
  have "idx < length (v_handles x')" using assms(3,6) by simp
  then show ?thesis
    using par_type_own [OF assms(5)] par_type_own [OF assms(1,6)] par_type_fuel_cong [OF assms(1-4,6), of "Suc idx" f] by (metis lessI)
qed

end
