(* ===== verification/Lexer.thy ===== *)
theory Lexer
  imports Prelude "HOL-Library.Char_ord"
begin

text \<open>
  The tokens of \<^verbatim>\<open>frontend.c\<close>.  A C string is the list of the bytes before its terminator, a
  pointer into it the rest of the list from there on; reading the byte after the last one gives
  the terminator.
\<close>

section \<open>Whitespace\<close>

definition byte_at :: "string \<Rightarrow> nat \<Rightarrow> nat" where
  "byte_at s i = (if i < length s then of_char (s ! i) else 0)"

text \<open>The length in bytes of the whitespace character at the front, 0 if there is none.\<close>

definition frontend_whitespace_len :: "string \<Rightarrow> nat" where
  "frontend_whitespace_len s =
     (let p0 = byte_at s 0; p1 = byte_at s 1; p2 = byte_at s 2 in
      if p0 = 32 \<or> 9 \<le> p0 \<and> p0 \<le> 13 then 1
      else if p0 = 194 \<and> (p1 = 133 \<or> p1 = 160) then 2
      else if p0 = 225 \<and> p1 = 154 \<and> p2 = 128 then 3
      else if p0 = 226 \<and> p1 = 128 \<and> (128 \<le> p2 \<and> p2 \<le> 138 \<or> p2 = 168 \<or> p2 = 169 \<or> p2 = 175) then 3
      else if p0 = 226 \<and> p1 = 129 \<and> p2 = 159 then 3
      else if p0 = 227 \<and> p1 = 128 \<and> p2 = 128 then 3
      else 0)"

lemma whitespace_len_le: "frontend_whitespace_len s \<le> length s"
  by (cases s; cases "tl s"; cases "tl (tl s)") (auto simp: frontend_whitespace_len_def byte_at_def Let_def)

lemma whitespace_len_Nil [simp]: "frontend_whitespace_len [] = 0"
  using whitespace_len_le [of "[]"] by simp

function skip_whitespace :: "string \<Rightarrow> string" where
  "skip_whitespace s = (let n = frontend_whitespace_len s in if n = 0 then s else skip_whitespace (drop n s))"
  by pat_completeness auto
termination
proof (relation "measure length")
  fix s n
  assume "n = frontend_whitespace_len s" "n \<noteq> 0"
  then show "(drop n s, s) \<in> measure length" using whitespace_len_le [of s] by (cases s) auto
qed simp

declare skip_whitespace.simps [simp del]

lemma skip_whitespace_length: "length (skip_whitespace s) \<le> length s"
  by (induction s rule: skip_whitespace.induct) (subst skip_whitespace.simps, auto simp: Let_def)

lemma skip_whitespace_done [simp]: "frontend_whitespace_len (skip_whitespace s) = 0"
  by (induction s rule: skip_whitespace.induct) (subst skip_whitespace.simps, auto simp: Let_def)

section \<open>Tokens\<close>

definition is_paren :: "char \<Rightarrow> bool" where
  "is_paren c \<longleftrightarrow> c = CHR ''('' \<or> c = CHR '')''"

fun word_len :: "string \<Rightarrow> nat" where
  "word_len [] = 0"
| "word_len (c # cs) = (if frontend_whitespace_len (c # cs) \<noteq> 0 \<or> is_paren c then 0 else Suc (word_len cs))"

text \<open>A name is a pointer into the source and a length.\<close>

record parsed_name =
  pn_text :: string
  pn_len :: nat

abbreviation pn_string :: "parsed_name \<Rightarrow> string" where "pn_string t \<equiv> take (pn_len t) (pn_text t)"

text \<open>The next token and the cursor behind it; at the end of the source the cursor stays.\<close>

definition lex_token :: "string \<Rightarrow> (parsed_name \<times> string) option" where
  "lex_token cursor = (case skip_whitespace cursor of
     [] \<Rightarrow> None
   | c # cs \<Rightarrow>
       let n = (if is_paren c then 1 else word_len (c # cs)) in
       Some (\<lparr>pn_text = c # cs, pn_len = n\<rparr>, drop n (c # cs)))"

lemma lex_token_shorter: "lex_token s = Some (t, rest) \<Longrightarrow> length rest < length s"
proof -
  assume l: "lex_token s = Some (t, rest)"
  then obtain c cs where c: "skip_whitespace s = c # cs" by (auto simp: lex_token_def split: list.splits)
  have "frontend_whitespace_len (c # cs) = 0" using skip_whitespace_done [of s] c by simp
  then show ?thesis using l c skip_whitespace_length [of s] by (auto simp: lex_token_def Let_def split: if_splits)
qed

definition is_delimiter :: "parsed_name \<Rightarrow> bool" where
  "is_delimiter t \<longleftrightarrow> pn_len t = 1 \<and> pn_text t \<noteq> [] \<and> is_paren (hd (pn_text t))"

definition token_eq :: "parsed_name \<Rightarrow> string \<Rightarrow> bool" where
  "token_eq t name \<longleftrightarrow> length name = pn_len t \<and> pn_string t = name"

section \<open>Numbers\<close>

definition is_digit :: "char \<Rightarrow> bool" where
  "is_digit c \<longleftrightarrow> 48 \<le> (of_char c :: nat) \<and> (of_char c :: nat) \<le> 57"

definition digit_value :: "char \<Rightarrow> nat" where "digit_value c = of_char c - 48"

text \<open>
  \<^verbatim>\<open>strtoll\<close> with base ten, from the C standard: whitespace, a sign, digits.  The result is the
  value, the number of bytes read (none without a digit) and whether the value was clamped.
\<close>

definition is_space :: "char \<Rightarrow> bool" where
  "is_space c \<longleftrightarrow> of_char c = (32::nat) \<or> 9 \<le> (of_char c :: nat) \<and> (of_char c :: nat) \<le> 13"

definition digits_value :: "string \<Rightarrow> nat" where
  "digits_value ds = foldl (\<lambda>n c. 10 * n + digit_value c) 0 ds"

definition LLONG_MAX :: int where "LLONG_MAX = 9223372036854775807"
definition LLONG_MIN :: int where "LLONG_MIN = - 9223372036854775808"

definition strtoll :: "string \<Rightarrow> int \<times> nat \<times> bool" where
  "strtoll s =
     (let blank = takeWhile is_space s;
          s1 = drop (length blank) s;
          signed = (s1 \<noteq> [] \<and> (hd s1 = CHR ''-'' \<or> hd s1 = CHR ''+''));
          s2 = (if signed then tl s1 else s1);
          ds = takeWhile is_digit s2;
          v = (if signed \<and> hd s1 = CHR ''-'' then - int (digits_value ds) else int (digits_value ds)) in
      if ds = [] then (0, 0, False)
      else (max LLONG_MIN (min LLONG_MAX v), length blank + (if signed then 1 else 0) + length ds, v < LLONG_MIN \<or> LLONG_MAX < v))"

end
