(* ===== verification/Lexer_Props.thy ===== *)
theory Lexer_Props
  imports Lexer
begin

text \<open>
  The lexer against two printers: the words of a text joined by blanks, and the decimal spelling of
  an integer.
\<close>

section \<open>Words\<close>

function lex_all :: "string \<Rightarrow> string list" where
  "lex_all s = (case lex_token s of None \<Rightarrow> [] | Some (t, rest) \<Rightarrow> pn_string t # lex_all rest)"
  by pat_completeness auto
termination by (relation "measure length") (auto dest: lex_token_shorter)

declare lex_all.simps [simp del]

definition is_word :: "string \<Rightarrow> bool" where
  "is_word w \<longleftrightarrow> w \<noteq> [] \<and> (w = [hd w] \<and> is_paren (hd w) \<or> word_len (w @ '' '') = length w)"

lemma blank_whitespace [simp]: "frontend_whitespace_len (CHR '' '' # s) = 1"
  by (simp add: frontend_whitespace_len_def byte_at_def)

lemma whitespace_before_blank: "w \<noteq> [] \<Longrightarrow> frontend_whitespace_len (w @ CHR '' '' # s) = frontend_whitespace_len (w @ '' '')"
  by (cases w; cases "tl w"; cases "tl (tl w)") (auto simp: frontend_whitespace_len_def byte_at_def Let_def)

lemma word_len_before_blank: "word_len (w @ CHR '' '' # s) = word_len (w @ '' '')"
proof (induction w)
  case (Cons c w)
  have "frontend_whitespace_len (c # w @ CHR '' '' # s) = frontend_whitespace_len (c # w @ '' '')"
    using whitespace_before_blank [of "c # w" s] by simp
  then show ?case using Cons.IH by (simp only: append_Cons word_len.simps)
qed simp

lemma paren_whitespace: "is_paren c \<Longrightarrow> frontend_whitespace_len (c # s) = 0"
  unfolding is_paren_def by (elim disjE) (simp_all add: frontend_whitespace_len_def byte_at_def)

lemma word_starts: "is_word w \<Longrightarrow> frontend_whitespace_len (w @ CHR '' '' # s) = 0"
proof (cases w)
  case (Cons c cs)
  assume w: "is_word w"
  show ?thesis
  proof (cases "is_paren c")
    case True
    then show ?thesis unfolding Cons using paren_whitespace [of c] by simp
  next
    case False
    then have "word_len (w @ '' '') = length w" using w Cons by (auto simp: is_word_def)
    then have "frontend_whitespace_len (c # cs @ '' '') = 0" unfolding Cons by (simp split: if_splits)
    then show ?thesis using whitespace_before_blank [of w s] Cons by simp
  qed
qed (simp add: is_word_def)

lemma skip_none: "frontend_whitespace_len s = 0 \<Longrightarrow> skip_whitespace s = s"
  by (subst skip_whitespace.simps) simp

lemma skip_blank [simp]: "skip_whitespace (CHR '' '' # s) = skip_whitespace s"
  by (subst skip_whitespace.simps) simp

lemma lex_blank [simp]: "lex_token (CHR '' '' # s) = lex_token s"
  by (simp add: lex_token_def)

lemma lex_all_blank [simp]: "lex_all (CHR '' '' # s) = lex_all s"
  by (subst (1 2) lex_all.simps) simp

lemma lex_all_Nil [simp]: "lex_all [] = []"
  by (subst lex_all.simps) (simp add: lex_token_def skip_none)

lemma lex_word:
  assumes "is_word w"
  shows "lex_token (w @ CHR '' '' # s) = Some (\<lparr>pn_text = w @ CHR '' '' # s, pn_len = length w\<rparr>, CHR '' '' # s)"
proof -
  have ne: "w \<noteq> []" "\<not> is_paren (hd w) \<Longrightarrow> word_len (w @ CHR '' '' # s) = length w" "is_paren (hd w) \<Longrightarrow> length w = 1"
    using assms word_len_before_blank [of w s] by (auto simp: is_word_def) (cases w; auto split: if_splits)+
  then show ?thesis using skip_none [OF word_starts [OF assms, of s]] by (cases w) (auto simp: lex_token_def)
qed

text \<open>
  C36.  A text made of words and single parentheses with a blank after each is read back as exactly
  those words: tokens are neither split, nor joined, nor lost.
\<close>

theorem lex_words:
  assumes "\<forall>w\<in>set ws. is_word w"
  shows "lex_all (concat (map (\<lambda>w. w @ '' '') ws)) = ws"
  using assms
proof (induction ws)
  case (Cons w ws)
  then show ?case by (subst lex_all.simps) (simp add: lex_word)
qed simp

theorem lex_words_witness: "lex_all ''Loop If ( 1 ) Break Done Again '' = [''Loop'', ''If'', ''('', ''1'', '')'', ''Break'', ''Done'', ''Again'']"
  using lex_words [of "[''Loop'', ''If'', ''('', ''1'', '')'', ''Break'', ''Done'', ''Again'']"]
  by (simp add: is_word_def is_paren_def frontend_whitespace_len_def byte_at_def)

section \<open>Numbers\<close>

definition digit_char :: "nat \<Rightarrow> char" where "digit_char d = char_of (48 + d)"

fun show_nat :: "nat \<Rightarrow> string" where
  "show_nat n = (if n < 10 then [digit_char n] else show_nat (n div 10) @ [digit_char (n mod 10)])"

declare show_nat.simps [simp del]

definition show_int :: "int \<Rightarrow> string" where
  "show_int v = (if v < 0 then CHR ''-'' # show_nat (nat (- v)) else show_nat (nat v))"

lemma digit_char [simp]: "d < 10 \<Longrightarrow> is_digit (digit_char d)" "d < 10 \<Longrightarrow> digit_value (digit_char d) = d"
  by (simp_all add: is_digit_def digit_value_def digit_char_def)

lemma show_nat_digits: "c \<in> set (show_nat n) \<Longrightarrow> is_digit c"
  by (induction n rule: show_nat.induct) (subst (asm) show_nat.simps, auto split: if_splits)

lemma show_nat_value: "digits_value (show_nat n) = n"
proof (induction n rule: show_nat.induct)
  case (1 n)
  show ?case
  proof (cases "n < 10")
    case False
    then have "digits_value (show_nat n) = 10 * digits_value (show_nat (n div 10)) + n mod 10"
      by (subst show_nat.simps) (simp add: digits_value_def)
    then show ?thesis using 1 False by simp
  qed (subst show_nat.simps, simp add: digits_value_def)
qed

lemma show_nat_ne [simp]: "show_nat n \<noteq> []"
  by (subst show_nat.simps) simp

text \<open>What a number may be followed by: the end of the text, whitespace or a parenthesis.\<close>

definition ends_token :: "string \<Rightarrow> bool" where
  "ends_token s \<longleftrightarrow> s = [] \<or> frontend_whitespace_len s \<noteq> 0 \<or> is_paren (hd s)"

lemma is_digit_whitespace: "is_digit c \<Longrightarrow> frontend_whitespace_len (c # s) = 0" "is_digit c \<Longrightarrow> \<not> is_paren c" "is_digit c \<Longrightarrow> \<not> is_space c"
  "is_digit c \<Longrightarrow> c \<noteq> CHR ''-'' \<and> c \<noteq> CHR ''+''"
  by (auto simp: is_digit_def frontend_whitespace_len_def byte_at_def is_paren_def is_space_def Let_def)

lemma ends_token_hd: "ends_token s \<Longrightarrow> s = [] \<or> \<not> is_digit (hd s)"
  using is_digit_whitespace(1) [of "hd s" "tl s"] is_digit_whitespace(2) [of "hd s"] by (cases s) (auto simp: ends_token_def)

lemma word_len_digits: "\<forall>c\<in>set ds. is_digit c \<Longrightarrow> ends_token s \<Longrightarrow> word_len (ds @ s) = length ds"
proof (induction ds)
  case Nil
  then show ?case by (cases s) (auto simp: ends_token_def)
next
  case (Cons d ds)
  then show ?case using is_digit_whitespace(1,2) [of d] by simp
qed

lemma takeWhile_digits: "\<forall>c\<in>set ds. is_digit c \<Longrightarrow> ends_token s \<Longrightarrow> takeWhile is_digit (ds @ s) = ds"
  using ends_token_hd [of s] by (induction ds) (cases s; auto)+

lemma strtoll_nat:
  assumes "ends_token s"
  shows "strtoll (show_nat n @ s) = (min LLONG_MAX (int n), length (show_nat n), LLONG_MAX < int n)"
proof -
  obtain d ds where d: "show_nat n = d # ds" by (cases "show_nat n") auto
  then have "is_digit d" using show_nat_digits [of d n] by simp
  then show ?thesis using takeWhile_digits [of "show_nat n" s] assms show_nat_digits [of _ n] show_nat_value [of n] is_digit_whitespace(3,4) [of d]
    by (simp add: strtoll_def d Let_def LLONG_MIN_def LLONG_MAX_def)
qed

lemma strtoll_neg:
  assumes "ends_token s"
  shows "strtoll (CHR ''-'' # show_nat n @ s) = (max LLONG_MIN (- int n), Suc (length (show_nat n)), - int n < LLONG_MIN)"
proof -
  have "takeWhile is_digit (show_nat n @ s) = show_nat n" using takeWhile_digits assms show_nat_digits [of _ n] by blast
  then show ?thesis using show_nat_value [of n] by (simp add: strtoll_def Let_def is_space_def LLONG_MIN_def LLONG_MAX_def)
qed

text \<open>
  C35.  The decimal spelling of an integer is one token, and its number is that integer: the value is
  clamped, and reported as out of range, exactly when it does not fit 64 bits.
\<close>

theorem literal_round_trip:
  assumes "ends_token rest"
  shows "\<exists>t. lex_token (show_int v @ rest) = Some (t, rest) \<and> pn_string t = show_int v
    \<and> strtoll (pn_text t) = (max LLONG_MIN (min LLONG_MAX v), pn_len t, v < LLONG_MIN \<or> LLONG_MAX < v)"
proof -
  have digits: "\<forall>c\<in>set (show_nat n). is_digit c" for n using show_nat_digits by blast
  obtain d ds where d: "show_nat (nat v) = d # ds" by (cases "show_nat (nat v)") auto
  have "lex_token (show_int v @ rest) = Some (\<lparr>pn_text = show_int v @ rest, pn_len = length (show_int v)\<rparr>, rest)"
  proof (cases "v < 0")
    case True
    have "frontend_whitespace_len (CHR ''-'' # s) = 0" for s by (simp add: frontend_whitespace_len_def byte_at_def)
    then show ?thesis using True word_len_digits [OF digits assms]
      by (simp add: show_int_def lex_token_def skip_none is_paren_def)
  next
    case False
    have "is_digit d" using digits [of "nat v"] d by simp
    then show ?thesis using False word_len_digits [OF digits assms, of "nat v"] is_digit_whitespace(1,2) [of d] d
      by (simp add: show_int_def lex_token_def skip_none)
  qed
  moreover have "strtoll (show_int v @ rest) = (max LLONG_MIN (min LLONG_MAX v), length (show_int v), v < LLONG_MIN \<or> LLONG_MAX < v)"
    using strtoll_nat [OF assms, of "nat v"] strtoll_neg [OF assms, of "nat (- v)"]
    by (auto simp: show_int_def LLONG_MIN_def LLONG_MAX_def)
  ultimately show ?thesis by simp
qed

theorem literal_round_trip_witness:
  "\<exists>t. lex_token ''-42)'' = Some (t, '')'') \<and> strtoll (pn_text t) = (-42, pn_len t, False)"
proof -
  have "show_int (-42) = ''-42''" by code_simp
  moreover have "ends_token '')''" by (simp add: ends_token_def is_paren_def)
  ultimately show ?thesis using literal_round_trip [of "'')''" "-42"] by (auto simp: LLONG_MIN_def LLONG_MAX_def)
qed

end
