(* ===== verification/Frontend.thy ===== *)
theory Frontend
  imports Lexer Context Machine
begin

text \<open>
  The frontend of \<^verbatim>\<open>frontend.c\<close>: its state, the word table, and the operations that build a
  function's operations, variables, types and block tree from the source.

  An operation that returns true yields \<^verbatim>\<open>FOk\<close>, one that returns false \<^verbatim>\<open>FFail\<close> with the state it
  leaves behind; \<^verbatim>\<open>FUndef\<close> is a run that does not return or has no defined behaviour.  The function
  being built is a part of the state (the C code holds a pointer to it), the context it is compiled
  against another.
\<close>

section \<open>State\<close>

datatype frontend_error =
    FRONTEND_OK
  | FRONTEND_OOM
  | FRONTEND_UNKNOWN_WORD
  | FRONTEND_BAD_TOKEN
  | FRONTEND_EXPECTED_NAME
  | FRONTEND_BAD_NUMBER
  | FRONTEND_UNKNOWN_TYPE
  | FRONTEND_DUPLICATE_VAR
  | FRONTEND_MACRO_COMPILE_FAILED
  | FRONTEND_MACRO_RUNTIME_FAILED
  | FRONTEND_INTERPRETER_COMPILE_FAILED
  | FRONTEND_INTERPRETER_RUNTIME_FAILED
  | FRONTEND_BAD_CONTROL_FLOW

datatype immediate_kind =
    FRONTEND_IMMEDIATE_FUNC
  | FRONTEND_IMMEDIATE_VAR
  | FRONTEND_IMMEDIATE_LOOP
  | FRONTEND_IMMEDIATE_AGAIN
  | FRONTEND_IMMEDIATE_IF
  | FRONTEND_IMMEDIATE_ELSE
  | FRONTEND_IMMEDIATE_DONE
  | FRONTEND_IMMEDIATE_BREAK
  | FRONTEND_IMMEDIATE_CONTINUE
  | FRONTEND_IMMEDIATE_START
  | FRONTEND_IMMEDIATE_FINALLY
  | FRONTEND_IMMEDIATE_END
  | FRONTEND_IMMEDIATE_DEFER

text \<open>The kind of a word with the member of the union it selects.\<close>

datatype word_data =
    FRONTEND_WORD_OP op
  | FRONTEND_WORD_FUNC nat
  | FRONTEND_WORD_NATIVE nat
  | FRONTEND_WORD_IMMEDIATE immediate_kind nat

record frontend_word =
  w_name :: string
  w_data :: word_data

datatype scope_kind = FRONTEND_SCOPE_LOOP | FRONTEND_SCOPE_IF | FRONTEND_SCOPE_EPILOGUE

datatype scope_phase =
    FRONTEND_SCOPE_BODY
  | FRONTEND_SCOPE_WAIT_OPEN
  | FRONTEND_SCOPE_CONDITION
  | FRONTEND_SCOPE_ELSE_BODY
  | FRONTEND_SCOPE_CLEANUP
  | FRONTEND_SCOPE_CLEANUP_WAIT_OPEN

record frontend_scope =
  fs_kind :: scope_kind
  fs_phase :: scope_phase
  fs_block :: nat
  fs_first :: nat
  fs_second :: nat
  fs_after :: nat
  fs_parent_depth :: nat
  fs_break_depth :: nat
  fs_continue_depth :: nat
  fs_delimiter_depth :: nat
  fs_implicit_end :: bool

text \<open>
  Each growable vector has its capacity beside it.  \<open>fe_mem\<close> is the heap shared with the two
  machines, whose own part of the state is their stacks.  The scopes have the outermost first.
\<close>

record frontend =
  fe_ctx :: cctx
  fe_func :: func
  fe_words :: "frontend_word list"
  fe_words_cap :: nat
  fe_macro_vm :: "unit vm"
  fe_interpreter_vm :: "unit vm"
  fe_source :: string
  fe_cursor :: string
  fe_current_token :: "parsed_name option"
  fe_owned_names :: "string list"
  fe_owned_names_cap :: nat
  fe_owned_globals :: "nat list"
  fe_owned_globals_cap :: nat
  fe_scopes :: "frontend_scope list"
  fe_scopes_cap :: nat
  fe_op_cap :: nat
  fe_block_cap :: nat
  fe_var_cap :: nat
  fe_type_cap :: nat
  fe_current_basic :: nat
  fe_scope_depth :: nat
  fe_error :: frontend_error
  fe_error_word :: "string option"
  fe_macro_result :: vm_result
  fe_interpreter_result :: vm_result
  fe_mem :: mem

datatype 'v fres = FOk 'v frontend | FFail frontend | FUndef

fun fbind :: "'v fres \<Rightarrow> ('v \<Rightarrow> frontend \<Rightarrow> 'w fres) \<Rightarrow> 'w fres" where
  "fbind (FOk x fe) f = f x fe"
| "fbind (FFail fe) f = FFail fe"
| "fbind FUndef f = FUndef"

text \<open>
  What the frontend relies on: which allocations succeed and where they are placed; the natives a
  macro may call; the addresses of the interpreter's native functions and of the static cells that
  hold them; where code buffers go; and the bounds on nested compilations, block depth and machine
  steps.
\<close>

record fe_env =
  en_alloc :: "nat \<Rightarrow> bool"
  en_place :: "mem \<Rightarrow> nat \<Rightarrow> nat"
  en_macro :: "nat \<Rightarrow> frontend vm \<Rightarrow> (vm_result \<times> frontend vm) option"
  en_entry :: "nat \<Rightarrow> nat"
  en_static :: "nat \<Rightarrow> nat"
  en_code_place :: "nat \<Rightarrow> nat"
  en_depth :: nat
  en_blocks :: nat
  en_steps :: nat

definition fail_with :: "frontend_error \<Rightarrow> frontend \<Rightarrow> 'v fres" where
  "fail_with e fe = FFail (fe\<lparr>fe_error := e\<rparr>)"

definition fail_at :: "frontend_error \<Rightarrow> parsed_name \<Rightarrow> frontend \<Rightarrow> 'v fres" where
  "fail_at e t fe = FFail (fe\<lparr>fe_error := e, fe_error_word := Some (pn_text t)\<rparr>)"

text \<open>The capacity a vector of \<open>n\<close> elements has after room for one more was made.\<close>

definition next_cap :: "(nat \<Rightarrow> bool) \<Rightarrow> nat \<Rightarrow> nat \<Rightarrow> nat \<Rightarrow> nat \<Rightarrow> nat option" where
  "next_cap can_alloc initial width n cap =
     (if n < cap then Some cap
      else let new = (if cap = 0 then initial else cap * 2) in if can_alloc (new * width) then Some new else None)"

text \<open>The vectors of the function start out in memory the frontend does not own and are copied first.\<close>

definition own_cap :: "(nat \<Rightarrow> bool) \<Rightarrow> nat \<Rightarrow> nat \<Rightarrow> nat \<Rightarrow> nat option" where
  "own_cap can_alloc width n cap =
     (if cap = 0 then (let new = (if n = 0 then 4 else n * 2) in if can_alloc (new * width) then Some new else None)
      else next_cap can_alloc 4 width n cap)"

text \<open>\<^verbatim>\<open>frontend_init\<close>: everything else is null.\<close>

definition fresh_vm :: "unit vm" where
  "fresh_vm = \<lparr>vm_mem = (\<lambda>a. None), vm_storage = 0, vm_storage_len = 0, vm_storage_cap = 0, vm_params = [],
     vm_params_cap = 0, vm_crashes = [], vm_crashes_cap = 0, vm_user = ()\<rparr>"

definition frontend_init :: "cctx \<Rightarrow> func \<Rightarrow> mem \<Rightarrow> frontend" where
  "frontend_init x f m = \<lparr>fe_ctx = x, fe_func = f, fe_words = [], fe_words_cap = 0, fe_macro_vm = fresh_vm,
     fe_interpreter_vm = fresh_vm, fe_source = [], fe_cursor = [], fe_current_token = None,
     fe_owned_names = [], fe_owned_names_cap = 0, fe_owned_globals = [], fe_owned_globals_cap = 0,
     fe_scopes = [], fe_scopes_cap = 0, fe_op_cap = 0, fe_block_cap = 0, fe_var_cap = 0, fe_type_cap = 0,
     fe_current_basic = 0, fe_scope_depth = 0, fe_error = FRONTEND_OK, fe_error_word = None,
     fe_macro_result = VM_OK, fe_interpreter_result = VM_OK, fe_mem = m\<rparr>"

text \<open>The literals are freed and their globals nulled; their slots stay in the table.\<close>

definition unmap :: "nat \<Rightarrow> nat \<Rightarrow> mem \<Rightarrow> mem" where
  "unmap a n m = (\<lambda>i. if a \<le> i \<and> i < a + n then None else m i)"

definition free_global :: "nat \<Rightarrow> frontend \<Rightarrow> frontend" where
  "free_global idx fe =
     (if idx < length (x_globals (fe_ctx fe))
      then let g = x_globals (fe_ctx fe) ! idx in
        fe\<lparr>fe_ctx := (fe_ctx fe)\<lparr>x_globals := (x_globals (fe_ctx fe))[idx := g\<lparr>g_mem := 0, g_owned := False\<rparr>]\<rparr>,
           fe_mem := (if g_owned g then unmap (g_mem g) 8 (fe_mem fe) else fe_mem fe)\<rparr>
      else fe)"

definition frontend_free :: "frontend \<Rightarrow> cctx \<times> mem" where
  "frontend_free fe = (let fe' = fold free_global (fe_owned_globals fe) fe;
       m = unmap (vm_storage (fe_macro_vm fe)) (vm_storage_cap (fe_macro_vm fe)) (fe_mem fe');
       m = unmap (vm_storage (fe_interpreter_vm fe)) (vm_storage_cap (fe_interpreter_vm fe)) m in
     (fe_ctx fe', m))"

section \<open>Words\<close>

definition frontend_add_word :: "fe_env \<Rightarrow> frontend_word \<Rightarrow> frontend \<Rightarrow> unit fres" where
  "frontend_add_word E w fe = (case next_cap (en_alloc E) 16 24 (length (fe_words fe)) (fe_words_cap fe) of
     None \<Rightarrow> fail_with FRONTEND_OOM fe
   | Some cap \<Rightarrow> FOk () (fe\<lparr>fe_words := fe_words fe @ [w], fe_words_cap := cap\<rparr>))"

definition frontend_add_word_op :: "fe_env \<Rightarrow> string \<Rightarrow> op \<Rightarrow> frontend \<Rightarrow> unit fres" where
  "frontend_add_word_op E name o' = frontend_add_word E \<lparr>w_name = name, w_data = FRONTEND_WORD_OP o'\<rparr>"

definition frontend_add_word_func :: "fe_env \<Rightarrow> string \<Rightarrow> nat \<Rightarrow> frontend \<Rightarrow> unit fres" where
  "frontend_add_word_func E name idx = frontend_add_word E \<lparr>w_name = name, w_data = FRONTEND_WORD_FUNC idx\<rparr>"

definition frontend_add_word_native :: "fe_env \<Rightarrow> string \<Rightarrow> nat \<Rightarrow> frontend \<Rightarrow> unit fres" where
  "frontend_add_word_native E name g = frontend_add_word E \<lparr>w_name = name, w_data = FRONTEND_WORD_NATIVE g\<rparr>"

definition frontend_add_word_immediate :: "fe_env \<Rightarrow> string \<Rightarrow> nat \<Rightarrow> frontend \<Rightarrow> unit fres" where
  "frontend_add_word_immediate E name idx =
     frontend_add_word E \<lparr>w_name = name, w_data = FRONTEND_WORD_IMMEDIATE FRONTEND_IMMEDIATE_FUNC idx\<rparr>"

definition plain_op :: "op_kind \<Rightarrow> op" where "plain_op k = \<lparr>o_kind = k, o_extra = 0\<rparr>"

definition core_words :: "(string \<times> word_data) list" where
  "core_words =
     (''Var'', FRONTEND_WORD_IMMEDIATE FRONTEND_IMMEDIATE_VAR 0) #
     map (\<lambda>(n, k). (n, FRONTEND_WORD_OP (plain_op k)))
       [(''Assign'', OP_ASSIGN), (''Add'', OP_ADD_ASSIGN), (''Sub'', OP_SUB_ASSIGN), (''Mul'', OP_MUL_ASSIGN),
        (''Div'', OP_DIV_ASSIGN), (''And'', OP_AND_ASSIGN), (''Or'', OP_OR_ASSIGN), (''Xor'', OP_XOR_ASSIGN),
        (''BitNot'', OP_BIT_NOT_ASSIGN), (''CallNative'', OP_CALL_NATIVE_ON_STACK)] @
     map (\<lambda>(n, k). (n, FRONTEND_WORD_IMMEDIATE k 0))
       [(''Loop'', FRONTEND_IMMEDIATE_LOOP), (''Again'', FRONTEND_IMMEDIATE_AGAIN), (''If'', FRONTEND_IMMEDIATE_IF),
        (''Else'', FRONTEND_IMMEDIATE_ELSE), (''Done'', FRONTEND_IMMEDIATE_DONE), (''Break'', FRONTEND_IMMEDIATE_BREAK),
        (''Continue'', FRONTEND_IMMEDIATE_CONTINUE), (''Start'', FRONTEND_IMMEDIATE_START),
        (''Finally'', FRONTEND_IMMEDIATE_FINALLY), (''End'', FRONTEND_IMMEDIATE_END), (''Defer'', FRONTEND_IMMEDIATE_DEFER)]"

fun add_words :: "fe_env \<Rightarrow> (string \<times> word_data) list \<Rightarrow> frontend \<Rightarrow> unit fres" where
  "add_words E [] fe = FOk () fe"
| "add_words E ((n, d) # ws) fe = fbind (frontend_add_word E \<lparr>w_name = n, w_data = d\<rparr> fe) (\<lambda>_. add_words E ws)"

definition frontend_add_core_words :: "fe_env \<Rightarrow> frontend \<Rightarrow> unit fres" where
  "frontend_add_core_words E = add_words E core_words"

text \<open>The first word of that name wins.\<close>

primrec find_name :: "parsed_name \<Rightarrow> nat \<Rightarrow> string option list \<Rightarrow> nat option" where
  "find_name t i [] = None"
| "find_name t i (n # ns) = (if n \<noteq> None \<and> token_eq t (the n) then Some i else find_name t (Suc i) ns)"

definition find_word :: "frontend \<Rightarrow> parsed_name \<Rightarrow> nat option" where
  "find_word fe t = find_name t 0 (map (\<lambda>w. Some (w_name w)) (fe_words fe))"

end
