(* ===== verification/Frontend_Build.thy ===== *)
theory Frontend_Build
  imports Frontend
begin

text \<open>
  The operations of \<^verbatim>\<open>frontend.c\<close> that extend the function under construction: operations,
  literals, types, the block tree with its open control structures, and variables.
\<close>

section \<open>Operations\<close>

abbreviation fe_blocks :: "frontend \<Rightarrow> block list" where "fe_blocks fe \<equiv> fn_blocks (fe_func fe)"
abbreviation op_count :: "frontend \<Rightarrow> nat" where "op_count fe \<equiv> length (fn_ops (fe_func fe))"
abbreviation block_count :: "frontend \<Rightarrow> nat" where "block_count fe \<equiv> length (fe_blocks fe)"
abbreviation top_scope :: "frontend \<Rightarrow> frontend_scope" where "top_scope fe \<equiv> last (fe_scopes fe)"

definition set_blocks :: "block list \<Rightarrow> frontend \<Rightarrow> frontend" where
  "set_blocks bs fe = fe\<lparr>fe_func := (fe_func fe)\<lparr>fn_blocks := bs\<rparr>\<rparr>"

definition pop_scope :: "frontend \<Rightarrow> frontend" where
  "pop_scope fe = fe\<lparr>fe_scopes := butlast (fe_scopes fe)\<rparr>"

definition set_top_scope :: "frontend_scope \<Rightarrow> frontend \<Rightarrow> frontend" where
  "set_top_scope s fe = fe\<lparr>fe_scopes := butlast (fe_scopes fe) @ [s]\<rparr>"

fun is_basic :: "block \<Rightarrow> bool" where
  "is_basic (BLOCK_BASIC r) = True"
| "is_basic _ = False"

definition frontend_prepare_func :: "fe_env \<Rightarrow> frontend \<Rightarrow> unit fres" where
  "frontend_prepare_func E fe = (case fe_blocks fe of
     [] \<Rightarrow> if en_alloc E 20
       then FOk () (set_blocks [BLOCK_BASIC \<lparr>r_start = 0, r_len = 0\<rparr>] (fe\<lparr>fe_block_cap := 1, fe_current_basic := 0\<rparr>))
       else fail_with FRONTEND_OOM fe
   | b # bs \<Rightarrow>
       if fe_current_basic fe < block_count fe \<and> is_basic (fe_blocks fe ! fe_current_basic fe) then FOk () fe
       else if \<not> is_basic b then FFail fe
       else FOk () (fe\<lparr>fe_current_basic := 0\<rparr>))"

text \<open>
  The first two words of the union in \<^verbatim>\<open>Block\<close>.  The code writes the start of a basic block
  without a look at its kind; on another kind the same bytes are another member.
\<close>

fun set_word0 :: "nat \<Rightarrow> block \<Rightarrow> block" where
  "set_word0 n (BLOCK_BASIC r) = BLOCK_BASIC (r\<lparr>r_start := n\<rparr>)"
| "set_word0 n (BLOCK_DEFER a b) = BLOCK_DEFER n b"
| "set_word0 n (BLOCK_MANY a b) = BLOCK_MANY n b"
| "set_word0 n (BLOCK_CHAIN a b) = BLOCK_CHAIN n b"
| "set_word0 n BLOCK_CRASH = BLOCK_CRASH"
| "set_word0 n BLOCK_HARD_CRASH = BLOCK_HARD_CRASH"
| "set_word0 n (BLOCK_CRASH_PAD a b) = BLOCK_CRASH_PAD n b"
| "set_word0 n (BLOCK_BRANCH c y e) = BLOCK_BRANCH (c\<lparr>r_start := n\<rparr>) y e"
| "set_word0 n (BLOCK_LOOP a) = BLOCK_LOOP n"
| "set_word0 n (BLOCK_BREAK l) = BLOCK_BREAK n"
| "set_word0 n (BLOCK_VAR v b) = BLOCK_VAR (u16 n) b"

fun close_condition :: "nat \<Rightarrow> block \<Rightarrow> block" where
  "close_condition n (BLOCK_BRANCH c y e) = BLOCK_BRANCH (c\<lparr>r_len := u32_of_int (int n - int (r_start c))\<rparr>) y e"
| "close_condition n b = b"

text \<open>\<^verbatim>\<open>blocks.data[i].data.basic.start = (op_idx)ops.len\<close>\<close>

definition start_block :: "nat \<Rightarrow> frontend \<Rightarrow> frontend" where
  "start_block i fe = set_blocks ((fe_blocks fe)[i := set_word0 (u32 (op_count fe)) (fe_blocks fe ! i)]) fe"

definition close_basic :: "nat \<Rightarrow> block \<Rightarrow> block" where
  "close_basic n b = (case b of BLOCK_BASIC r \<Rightarrow> BLOCK_BASIC (r\<lparr>r_len := u32_of_int (int n - int (r_start r))\<rparr>) | _ \<Rightarrow> b)"

definition in_condition :: "frontend \<Rightarrow> bool" where
  "in_condition fe \<longleftrightarrow> fe_scopes fe \<noteq> [] \<and> fs_kind (top_scope fe) = FRONTEND_SCOPE_IF
     \<and> fs_phase (top_scope fe) = FRONTEND_SCOPE_CONDITION"

definition frontend_emit_op :: "fe_env \<Rightarrow> op \<Rightarrow> frontend \<Rightarrow> unit fres" where
  "frontend_emit_op E x fe = fbind (frontend_prepare_func E fe) (\<lambda>_ fe.
     case next_cap (en_alloc E) 16 4 (op_count fe) (fe_op_cap fe) of
       None \<Rightarrow> fail_with FRONTEND_OOM fe
     | Some cap \<Rightarrow>
         let fe = fe\<lparr>fe_op_cap := cap, fe_func := (fe_func fe)\<lparr>fn_ops := fn_ops (fe_func fe) @ [x]\<rparr>\<rparr> in
         if in_condition fe then FOk () fe
         else FOk () (set_blocks ((fe_blocks fe)[fe_current_basic fe :=
             close_basic (op_count fe) (fe_blocks fe ! fe_current_basic fe)]) fe))"

definition emit_named_var :: "fe_env \<Rightarrow> parsed_name \<Rightarrow> frontend \<Rightarrow> unit fres" where
  "emit_named_var E t fe = (case find_name t 0 (map v_name (fn_vars (fe_func fe))) of
     None \<Rightarrow> FFail fe
   | Some i \<Rightarrow> frontend_emit_op E
       \<lparr>o_kind = (if i < sig_len (fn_sig (fe_func fe)) then OP_PUSH_ARG else OP_PUSH_VAR), o_extra = u16 i\<rparr> fe)"

section \<open>Parsing\<close>

definition next_token :: "frontend \<Rightarrow> parsed_name option \<times> frontend" where
  "next_token fe = (case lex_token (fe_cursor fe) of
     None \<Rightarrow> (None, fe)
   | Some (t, rest) \<Rightarrow> (Some t, fe\<lparr>fe_cursor := rest\<rparr>))"

definition frontend_parse_name :: "frontend \<Rightarrow> parsed_name fres" where
  "frontend_parse_name fe = (case next_token fe of
     (None, fe) \<Rightarrow> fail_with FRONTEND_EXPECTED_NAME fe
   | (Some t, fe) \<Rightarrow> if is_delimiter t then fail_with FRONTEND_EXPECTED_NAME fe else FOk t fe)"

definition frontend_parse_number :: "frontend \<Rightarrow> int fres" where
  "frontend_parse_number fe = (case next_token fe of
     (None, fe) \<Rightarrow> fail_with FRONTEND_BAD_NUMBER fe
   | (Some t, fe) \<Rightarrow>
       if is_delimiter t then fail_with FRONTEND_BAD_NUMBER fe
       else case strtoll (pn_text t) of (v, n, erange) \<Rightarrow>
         if erange \<or> n \<noteq> pn_len t then fail_at FRONTEND_BAD_NUMBER t fe else FOk v fe)"

section \<open>Literals\<close>

definition append_owned_global :: "fe_env \<Rightarrow> global \<Rightarrow> frontend \<Rightarrow> nat fres" where
  "append_owned_global E g fe =
     (let x = fe_ctx fe; n = length (x_globals x) in
      if 65535 < n then fail_with FRONTEND_OOM fe
      else case next_cap (en_alloc E) 8 40 n (v_globals_cap x) of
        None \<Rightarrow> fail_with FRONTEND_OOM fe
      | Some gcap \<Rightarrow>
          let fe = fe\<lparr>fe_ctx := x\<lparr>v_globals_cap := gcap\<rparr>\<rparr> in
          case next_cap (en_alloc E) 4 2 (length (fe_owned_globals fe)) (fe_owned_globals_cap fe) of
            None \<Rightarrow> fail_with FRONTEND_OOM fe
          | Some ocap \<Rightarrow> FOk n (fe\<lparr>fe_ctx := x\<lparr>v_globals_cap := gcap, x_globals := x_globals x @ [g]\<rparr>,
              fe_owned_globals := fe_owned_globals fe @ [n], fe_owned_globals_cap := ocap\<rparr>))"

text \<open>The bytes of the new cell are mapped by \<^verbatim>\<open>malloc\<close> and written by the assignment.\<close>

definition map_bytes :: "nat \<Rightarrow> byte list \<Rightarrow> mem \<Rightarrow> mem" where
  "map_bytes a bs m = (\<lambda>i. if a \<le> i \<and> i < a + length bs then Some (bs ! (i - a)) else m i)"

definition emit_number :: "fe_env \<Rightarrow> parsed_name \<Rightarrow> frontend \<Rightarrow> unit fres" where
  "emit_number E t fe = (case strtoll (pn_text t) of (v, n, erange) \<Rightarrow>
     if n = 0 then FFail fe
     else if erange \<or> n \<noteq> pn_len t then fail_at FRONTEND_BAD_NUMBER t fe
     else if \<not> en_alloc E 8 then fail_with FRONTEND_OOM fe
     else let a = en_place E (fe_mem fe) 8;
              fe = fe\<lparr>fe_mem := map_bytes a (bytes_of_nat 8 (u64_of_int v)) (fe_mem fe)\<rparr> in
       case append_owned_global E \<lparr>g_var = \<lparr>v_tid = TYPE_INT_ID, v_name = Some ''literal''\<rparr>, g_mem = a, g_owned = True, g_mut = False\<rparr> fe of
         FOk g fe \<Rightarrow> frontend_emit_op E \<lparr>o_kind = OP_PUSH_GLOBAL, o_extra = g\<rparr> fe
       | FFail fe \<Rightarrow> FFail (fe\<lparr>fe_mem := unmap a 8 (fe_mem fe)\<rparr>)
       | FUndef \<Rightarrow> FUndef)"

section \<open>Types\<close>

definition append_type :: "fe_env \<Rightarrow> ctype \<Rightarrow> frontend \<Rightarrow> nat fres" where
  "append_type E ty fe =
     (let types = fn_types (fe_func fe) in
      case own_cap (en_alloc E) 80 (length types) (fe_type_cap fe) of
        None \<Rightarrow> fail_with FRONTEND_OOM fe
      | Some cap \<Rightarrow> FOk (u32 (length types))
          (fe\<lparr>fe_type_cap := cap, fe_func := (fe_func fe)\<lparr>fn_types := types @ [ty]\<rparr>\<rparr>))"

text \<open>The kinds a composite type is written with; the data offset is derived and not compared.\<close>

fun type_matches :: "type_kind \<Rightarrow> type_kind \<Rightarrow> bool" where
  "type_matches (TYPE_ARRAY e c d) (TYPE_ARRAY e' c' d') = (e = e' \<and> c = c')"
| "type_matches (TYPE_SLICE e) (TYPE_SLICE e') = (e = e')"
| "type_matches (TYPE_VIEW e) (TYPE_VIEW e') = (e = e')"
| "type_matches _ _ = False"

primrec find_first :: "('a \<Rightarrow> bool) \<Rightarrow> nat \<Rightarrow> 'a list \<Rightarrow> nat option" where
  "find_first P i [] = None"
| "find_first P i (x # xs) = (if P x then Some i else find_first P (Suc i) xs)"

definition intern_type :: "fe_env \<Rightarrow> ctype \<Rightarrow> frontend \<Rightarrow> nat fres" where
  "intern_type E ty fe = (case find_first (\<lambda>t. type_matches (t_kind t) (t_kind ty)) 0 (fn_types (fe_func fe)) of
     Some i \<Rightarrow> FOk i fe
   | None \<Rightarrow> append_type E ty fe)"

text \<open>The recursion consumes a token each time, so the length of the source bounds it.\<close>

primrec parse_type_fuel :: "nat \<Rightarrow> fe_env \<Rightarrow> frontend \<Rightarrow> nat fres" where
  "parse_type_fuel 0 E fe = FUndef"
| "parse_type_fuel (Suc n) E fe = fbind (frontend_parse_name fe) (\<lambda>t fe.
     if token_eq t ''Int'' \<or> token_eq t ''int'' then FOk TYPE_INT_ID fe
     else if token_eq t ''Byte'' \<or> token_eq t ''byte'' then FOk TYPE_BYTE_ID fe
     else if token_eq t ''Slice'' then fbind (parse_type_fuel n E fe) (\<lambda>e. intern_type E (type_slice e))
     else if token_eq t ''View'' then fbind (parse_type_fuel n E fe) (\<lambda>e. intern_type E (type_view e))
     else if token_eq t ''Array'' then fbind (frontend_parse_number fe) (\<lambda>c fe.
       if c < 0 \<or> 4294967295 < c then fail_with FRONTEND_BAD_NUMBER fe
       else fbind (parse_type_fuel n E fe) (\<lambda>e. intern_type E (type_array e (nat c))))
     else case find_name t 0 (map t_name (fn_types (fe_func fe))) of
       Some i \<Rightarrow> FOk i fe
     | None \<Rightarrow> fail_at FRONTEND_UNKNOWN_TYPE t fe)"

definition frontend_parse_type :: "fe_env \<Rightarrow> frontend \<Rightarrow> nat fres" where
  "frontend_parse_type E fe = parse_type_fuel (Suc (length (fe_cursor fe))) E fe"

section \<open>Blocks\<close>

definition grow_blocks :: "fe_env \<Rightarrow> nat \<Rightarrow> frontend \<Rightarrow> unit fres" where
  "grow_blocks E add fe =
     (if block_count fe + add \<le> fe_block_cap fe then FOk () fe
      else let cap = grow_cap (if fe_block_cap fe \<noteq> 0 then fe_block_cap fe * 2
                               else if block_count fe \<noteq> 0 then block_count fe * 2 else 4) (block_count fe + add) in
        if en_alloc E (cap * 20) then FOk () (fe\<lparr>fe_block_cap := cap\<rparr>) else fail_with FRONTEND_OOM fe)"

definition push_scope :: "fe_env \<Rightarrow> frontend_scope \<Rightarrow> frontend \<Rightarrow> unit fres" where
  "push_scope E s fe = (case next_cap (en_alloc E) 8 44 (length (fe_scopes fe)) (fe_scopes_cap fe) of
     None \<Rightarrow> fail_with FRONTEND_OOM fe
   | Some cap \<Rightarrow> FOk () (fe\<lparr>fe_scopes := fe_scopes fe @ [s], fe_scopes_cap := cap\<rparr>))"

definition basic_here :: "frontend \<Rightarrow> block" where
  "basic_here fe = BLOCK_BASIC \<lparr>r_start = u32 (op_count fe), r_len = 0\<rparr>"

text \<open>The current block becomes the sequence of its old contents, \<open>middle\<close> and a new basic block.\<close>

definition wrap_current :: "fe_env \<Rightarrow> block \<Rightarrow> frontend \<Rightarrow> (nat \<times> nat) fres" where
  "wrap_current E middle fe =
     (if BLOCK_INVALID \<le> block_count fe + 5 then FFail fe
      else fbind (grow_blocks E 5 fe) (\<lambda>_ fe.
        let n = block_count fe; slot = fe_current_basic fe in
        FOk (n + 1, n + 3) (set_blocks ((fe_blocks fe)[slot := BLOCK_MANY n (n + 2)] @
          [fe_blocks fe ! slot, middle, BLOCK_CHAIN (n + 1) (n + 4), basic_here fe, BLOCK_CHAIN (n + 3) BLOCK_INVALID]) fe)))"

definition append_basic_block :: "fe_env \<Rightarrow> frontend \<Rightarrow> nat fres" where
  "append_basic_block E fe =
     (if BLOCK_INVALID \<le> block_count fe + 1 then FFail fe
      else fbind (grow_blocks E 1 fe) (\<lambda>_ fe. FOk (block_count fe) (set_blocks (fe_blocks fe @ [basic_here fe]) fe)))"

definition bad_control :: "frontend \<Rightarrow> 'v fres" where
  "bad_control fe = FFail (fe\<lparr>fe_error := FRONTEND_BAD_CONTROL_FLOW,
     fe_error_word := map_option pn_text (fe_current_token fe)\<rparr>)"

text \<open>A scope with the fields the code leaves out of its initialiser.\<close>

definition null_scope :: "scope_kind \<Rightarrow> scope_phase \<Rightarrow> frontend_scope" where
  "null_scope k p = \<lparr>fs_kind = k, fs_phase = p, fs_block = 0, fs_first = 0, fs_second = 0, fs_after = 0,
     fs_parent_depth = 0, fs_break_depth = 0, fs_continue_depth = 0, fs_delimiter_depth = 0, fs_implicit_end = False\<rparr>"

section \<open>Control flow\<close>

definition begin_loop :: "fe_env \<Rightarrow> frontend \<Rightarrow> unit fres" where
  "begin_loop E fe = fbind (append_basic_block E fe) (\<lambda>body fe.
     if BLOCK_INVALID \<le> block_count fe + 1 then FFail fe
     else fbind (grow_blocks E 1 fe) (\<lambda>_ fe.
       let loop_body = block_count fe; fe = set_blocks (fe_blocks fe @ [BLOCK_MANY body BLOCK_INVALID]) fe;
           d = fe_scope_depth fe in
       fbind (wrap_current E (BLOCK_LOOP loop_body) fe) (\<lambda>(loop, after) fe.
       fbind (push_scope E ((null_scope FRONTEND_SCOPE_LOOP FRONTEND_SCOPE_BODY)
           \<lparr>fs_block := loop, fs_first := loop_body, fs_after := after, fs_parent_depth := d,
            fs_break_depth := u32 (d + 2), fs_continue_depth := u32 (d + 3)\<rparr>) fe) (\<lambda>_ fe.
       FOk () (fe\<lparr>fe_current_basic := body, fe_scope_depth := u32 (d + 3)\<rparr>)))))"

text \<open>Leaving a structure: building goes on in the block behind it.\<close>

definition resume_at :: "nat \<Rightarrow> nat \<Rightarrow> frontend \<Rightarrow> frontend" where
  "resume_at i d fe = start_block i (fe\<lparr>fe_current_basic := i, fe_scope_depth := d\<rparr>)"

definition leave_scope_of :: "frontend \<Rightarrow> frontend" where
  "leave_scope_of fe = (let s = top_scope fe in resume_at (fs_after s) (u32 (fs_parent_depth s + 1)) (pop_scope fe))"

definition end_loop :: "frontend \<Rightarrow> unit fres" where
  "end_loop fe = (if fe_scopes fe = [] \<or> fs_kind (top_scope fe) \<noteq> FRONTEND_SCOPE_LOOP then bad_control fe
     else FOk () (leave_scope_of fe))"

definition begin_if :: "fe_env \<Rightarrow> frontend \<Rightarrow> unit fres" where
  "begin_if E fe = fbind (append_basic_block E fe) (\<lambda>yes fe. fbind (append_basic_block E fe) (\<lambda>no fe.
     let d = fe_scope_depth fe in
     fbind (wrap_current E (BLOCK_BRANCH \<lparr>r_start = u32 (op_count fe), r_len = 0\<rparr> yes no) fe) (\<lambda>(branch, after) fe.
     fbind (push_scope E ((null_scope FRONTEND_SCOPE_IF FRONTEND_SCOPE_WAIT_OPEN)
         \<lparr>fs_block := branch, fs_first := yes, fs_second := no, fs_after := after, fs_parent_depth := d\<rparr>) fe) (\<lambda>_ fe.
     FOk () (fe\<lparr>fe_current_basic := yes, fe_scope_depth := u32 (d + 1)\<rparr>)))))"

definition begin_else :: "frontend \<Rightarrow> unit fres" where
  "begin_else fe =
     (if fe_scopes fe = [] \<or> fs_kind (top_scope fe) \<noteq> FRONTEND_SCOPE_IF \<or> fs_phase (top_scope fe) \<noteq> FRONTEND_SCOPE_BODY
      then bad_control fe
      else let s = top_scope fe in
        FOk () (resume_at (fs_second s) (u32 (fs_parent_depth s + 1)) (set_top_scope (s\<lparr>fs_phase := FRONTEND_SCOPE_ELSE_BODY\<rparr>) fe)))"

definition end_if :: "frontend \<Rightarrow> unit fres" where
  "end_if fe =
     (if fe_scopes fe = [] \<or> fs_kind (top_scope fe) \<noteq> FRONTEND_SCOPE_IF
         \<or> (fs_phase (top_scope fe) \<noteq> FRONTEND_SCOPE_BODY \<and> fs_phase (top_scope fe) \<noteq> FRONTEND_SCOPE_ELSE_BODY)
      then bad_control fe
      else let s = top_scope fe in
        FOk () (leave_scope_of (if fs_phase s = FRONTEND_SCOPE_BODY then start_block (fs_second s) fe else fe)))"

definition begin_epilogue :: "fe_env \<Rightarrow> bool \<Rightarrow> frontend \<Rightarrow> unit fres" where
  "begin_epilogue E implicit_end fe = fbind (append_basic_block E fe) (\<lambda>nxt fe. fbind (append_basic_block E fe) (\<lambda>cleanup fe.
     let d = fe_scope_depth fe in
     fbind (wrap_current E (BLOCK_DEFER nxt cleanup) fe) (\<lambda>(defer, after) fe.
     fbind (push_scope E ((null_scope FRONTEND_SCOPE_EPILOGUE
           (if implicit_end then FRONTEND_SCOPE_CLEANUP_WAIT_OPEN else FRONTEND_SCOPE_BODY))
         \<lparr>fs_block := defer, fs_first := nxt, fs_second := cleanup, fs_after := after, fs_parent_depth := d,
          fs_implicit_end := implicit_end\<rparr>) fe) (\<lambda>_ fe.
     FOk () (fe\<lparr>fe_current_basic := (if implicit_end then cleanup else nxt), fe_scope_depth := u32 (d + 2)\<rparr>)))))"

definition begin_cleanup :: "frontend \<Rightarrow> unit fres" where
  "begin_cleanup fe =
     (if fe_scopes fe = [] \<or> fs_kind (top_scope fe) \<noteq> FRONTEND_SCOPE_EPILOGUE
         \<or> fs_implicit_end (top_scope fe) \<or> fs_phase (top_scope fe) \<noteq> FRONTEND_SCOPE_BODY
      then bad_control fe
      else let s = top_scope fe in
        FOk () (resume_at (fs_second s) (u32 (fs_parent_depth s + 2)) (set_top_scope (s\<lparr>fs_phase := FRONTEND_SCOPE_CLEANUP\<rparr>) fe)))"

definition finish_epilogue :: "frontend \<Rightarrow> unit fres" where
  "finish_epilogue fe =
     (if fe_scopes fe = [] \<or> fs_kind (top_scope fe) \<noteq> FRONTEND_SCOPE_EPILOGUE
         \<or> fs_implicit_end (top_scope fe) \<or> fs_phase (top_scope fe) \<noteq> FRONTEND_SCOPE_CLEANUP
      then bad_control fe
      else FOk () (leave_scope_of fe))"

definition implicit_on_top :: "frontend \<Rightarrow> bool" where
  "implicit_on_top fe \<longleftrightarrow> fe_scopes fe \<noteq> [] \<and> fs_kind (top_scope fe) = FRONTEND_SCOPE_EPILOGUE
     \<and> fs_implicit_end (top_scope fe) \<and> fs_phase (top_scope fe) = FRONTEND_SCOPE_BODY"

lemma leave_scope_scopes [simp]: "fe_scopes (leave_scope_of fe) = butlast (fe_scopes fe)"
  by (simp add: leave_scope_of_def resume_at_def start_block_def set_blocks_def pop_scope_def Let_def)

function finish_implicit_epilogues :: "frontend \<Rightarrow> frontend" where
  "finish_implicit_epilogues fe =
     (if implicit_on_top fe then finish_implicit_epilogues (leave_scope_of fe) else fe)"
  by pat_completeness auto
termination
  by (relation "measure (\<lambda>fe. length (fe_scopes fe))") (auto simp: implicit_on_top_def)

declare finish_implicit_epilogues.simps [simp del]

text \<open>The scopes inside the innermost loop, and whether a jump may leave them.\<close>

definition is_loop :: "frontend_scope \<Rightarrow> bool" where
  "is_loop s \<longleftrightarrow> fs_kind s = FRONTEND_SCOPE_LOOP"

definition in_cleanup :: "frontend_scope \<Rightarrow> bool" where
  "in_cleanup s \<longleftrightarrow> fs_kind s = FRONTEND_SCOPE_EPILOGUE \<and> fs_phase s = FRONTEND_SCOPE_CLEANUP"

definition loop_index :: "frontend \<Rightarrow> nat" where
  "loop_index fe = length (dropWhile (\<lambda>s. \<not> is_loop s) (rev (fe_scopes fe)))"

definition cleanup_exit_is_legal :: "frontend \<Rightarrow> nat \<Rightarrow> bool" where
  "cleanup_exit_is_legal fe i \<longleftrightarrow> \<not> list_ex in_cleanup (drop i (fe_scopes fe))"

definition emit_loop_exit :: "fe_env \<Rightarrow> bool \<Rightarrow> frontend \<Rightarrow> unit fres" where
  "emit_loop_exit E is_continue fe =
     (let i = loop_index fe in
      if i = 0 \<or> \<not> cleanup_exit_is_legal fe i then bad_control fe
      else
        let loop = fe_scopes fe ! (i - 1);
            target = (if is_continue then fs_continue_depth loop else fs_break_depth loop);
            d = u32 (fe_scope_depth fe + 1) in
        if d < target then bad_control fe
        else fbind (wrap_current E (BLOCK_BREAK (u32 (d - target + 1))) fe) (\<lambda>(jump, after) fe.
          FOk () (fe\<lparr>fe_current_basic := after, fe_scope_depth := u32 (fe_scope_depth fe + 1)\<rparr>)))"

definition handle_delimiter :: "bool \<Rightarrow> frontend \<Rightarrow> unit fres" where
  "handle_delimiter opening fe =
     (if fe_scopes fe = [] then FOk () fe
      else let s = top_scope fe in
        if fs_phase s = FRONTEND_SCOPE_WAIT_OPEN \<or> fs_phase s = FRONTEND_SCOPE_CLEANUP_WAIT_OPEN then
          (if \<not> opening then bad_control fe
           else FOk () (set_top_scope (s\<lparr>fs_delimiter_depth := 1,
             fs_phase := (if fs_kind s = FRONTEND_SCOPE_IF then FRONTEND_SCOPE_CONDITION else FRONTEND_SCOPE_CLEANUP)\<rparr>) fe))
        else if fs_delimiter_depth s = 0 then FOk () fe
        else if opening then FOk () (set_top_scope (s\<lparr>fs_delimiter_depth := u32 (fs_delimiter_depth s + 1)\<rparr>) fe)
        else if fs_delimiter_depth s \<noteq> 1
        then FOk () (set_top_scope (s\<lparr>fs_delimiter_depth := fs_delimiter_depth s - 1\<rparr>) fe)
        else
          let fe = (if fs_kind s = FRONTEND_SCOPE_IF
                then set_blocks ((fe_blocks fe)[fs_block s := close_condition (op_count fe) (fe_blocks fe ! fs_block s)]) fe
                else fe) in
          FOk () (start_block (fs_first s) ((set_top_scope (s\<lparr>fs_delimiter_depth := 0, fs_phase := FRONTEND_SCOPE_BODY\<rparr>) fe)
            \<lparr>fe_current_basic := fs_first s\<rparr>)))"

section \<open>Variables\<close>

definition append_var :: "fe_env \<Rightarrow> var \<Rightarrow> frontend \<Rightarrow> nat fres" where
  "append_var E v fe =
     (let vars = fn_vars (fe_func fe) in
      case own_cap (en_alloc E) 16 (length vars) (fe_var_cap fe) of
        None \<Rightarrow> fail_with FRONTEND_OOM fe
      | Some cap \<Rightarrow> FOk (u16 (length vars))
          (fe\<lparr>fe_var_cap := cap, fe_func := (fe_func fe)\<lparr>fn_vars := vars @ [v]\<rparr>\<rparr>))"

text \<open>The current block becomes the sequence of its old contents and the scope of the variable.\<close>

definition open_var_block :: "fe_env \<Rightarrow> nat \<Rightarrow> frontend \<Rightarrow> unit fres" where
  "open_var_block E v fe = fbind (grow_blocks E 4 fe) (\<lambda>_ fe.
     let n = block_count fe; slot = fe_current_basic fe in
     FOk () ((set_blocks ((fe_blocks fe)[slot := BLOCK_MANY (u32 n) (u32 (n + 2))] @
         [fe_blocks fe ! slot, BLOCK_VAR v (u32 (n + 3)), BLOCK_CHAIN (u32 (n + 1)) BLOCK_INVALID, basic_here fe]) fe)
       \<lparr>fe_current_basic := u32 (n + 3), fe_scope_depth := u32 (fe_scope_depth fe + 2)\<rparr>))"

definition frontend_declare_var :: "fe_env \<Rightarrow> nat \<Rightarrow> parsed_name \<Rightarrow> frontend \<Rightarrow> unit fres" where
  "frontend_declare_var E tid t fe =
     (if \<not> type_idx_valid (fn_types (fe_func fe)) tid then FFail fe
      else if 65535 < length (fn_vars (fe_func fe)) then fail_with FRONTEND_OOM fe
      else if find_name t 0 (map v_name (fn_vars (fe_func fe))) \<noteq> None then fail_with FRONTEND_DUPLICATE_VAR fe
      else if \<not> en_alloc E (pn_len t + 1) then fail_with FRONTEND_OOM fe
      else case next_cap (en_alloc E) 4 8 (length (fe_owned_names fe)) (fe_owned_names_cap fe) of
        None \<Rightarrow> fail_with FRONTEND_OOM fe
      | Some cap \<Rightarrow> fbind (append_var E \<lparr>v_tid = tid, v_name = Some (pn_string t)\<rparr> (fe\<lparr>fe_owned_names_cap := cap\<rparr>)) (\<lambda>v fe.
          open_var_block E v (fe\<lparr>fe_owned_names := fe_owned_names fe @ [pn_string t]\<rparr>)))"

definition run_var :: "fe_env \<Rightarrow> frontend \<Rightarrow> unit fres" where
  "run_var E fe = fbind (frontend_parse_type E fe) (\<lambda>tid fe. fbind (frontend_parse_name fe) (\<lambda>t. frontend_declare_var E tid t))"

section \<open>Control words\<close>

text \<open>The two words that are not control flow never get here; the code answers false.\<close>

fun control_step :: "fe_env \<Rightarrow> immediate_kind \<Rightarrow> frontend \<Rightarrow> unit fres" where
  "control_step E FRONTEND_IMMEDIATE_LOOP fe = begin_loop E fe"
| "control_step E FRONTEND_IMMEDIATE_AGAIN fe = end_loop fe"
| "control_step E FRONTEND_IMMEDIATE_IF fe = begin_if E fe"
| "control_step E FRONTEND_IMMEDIATE_ELSE fe = begin_else fe"
| "control_step E FRONTEND_IMMEDIATE_DONE fe = end_if fe"
| "control_step E FRONTEND_IMMEDIATE_BREAK fe = emit_loop_exit E False fe"
| "control_step E FRONTEND_IMMEDIATE_CONTINUE fe = emit_loop_exit E True fe"
| "control_step E FRONTEND_IMMEDIATE_START fe = begin_epilogue E False fe"
| "control_step E FRONTEND_IMMEDIATE_FINALLY fe = begin_cleanup fe"
| "control_step E FRONTEND_IMMEDIATE_END fe = finish_epilogue fe"
| "control_step E FRONTEND_IMMEDIATE_DEFER fe = begin_epilogue E True fe"
| "control_step E FRONTEND_IMMEDIATE_FUNC fe = FFail fe"
| "control_step E FRONTEND_IMMEDIATE_VAR fe = FFail fe"

definition closes_epilogues :: "immediate_kind \<Rightarrow> bool" where
  "closes_epilogues k \<longleftrightarrow> k \<in> {FRONTEND_IMMEDIATE_AGAIN, FRONTEND_IMMEDIATE_ELSE, FRONTEND_IMMEDIATE_DONE,
     FRONTEND_IMMEDIATE_FINALLY, FRONTEND_IMMEDIATE_END}"

definition run_control :: "fe_env \<Rightarrow> immediate_kind \<Rightarrow> frontend \<Rightarrow> unit fres" where
  "run_control E k fe =
     (if fe_scopes fe \<noteq> [] \<and> fs_phase (top_scope fe) \<in> {FRONTEND_SCOPE_WAIT_OPEN, FRONTEND_SCOPE_CONDITION, FRONTEND_SCOPE_CLEANUP_WAIT_OPEN}
      then bad_control fe
      else control_step E k (if closes_epilogues k then finish_implicit_epilogues fe else fe))"

definition ready_for_word :: "frontend \<Rightarrow> bool" where
  "ready_for_word fe \<longleftrightarrow> fe_scopes fe = []
     \<or> fs_phase (top_scope fe) \<noteq> FRONTEND_SCOPE_WAIT_OPEN \<and> fs_phase (top_scope fe) \<noteq> FRONTEND_SCOPE_CLEANUP_WAIT_OPEN"

end
