(* ===== verification/Frontend_Inv.thy ===== *)
theory Frontend_Inv
  imports Frontend_Build
begin

text \<open>
  The block tree under construction: where the current block is in it, and that the depth the
  frontend counts is the number of scopes around it.
\<close>

section \<open>Paths in the block array\<close>

text \<open>
  \<open>inside bs i p\<close>: block \<open>i\<close> is reached from the root, and \<open>p\<close> lists the blocks around it that are
  scopes for a break, the innermost first.  A defer counts as one because its lowering makes it a
  sequence.  \<open>on_chain bs k p\<close>: link \<open>k\<close> continues the sequence at the front of \<open>p\<close>.
\<close>

inductive inside :: "block list \<Rightarrow> nat \<Rightarrow> nat list \<Rightarrow> bool"
  and on_chain :: "block list \<Rightarrow> nat \<Rightarrow> nat list \<Rightarrow> bool" where
  inside_root: "inside bs 0 []"
| inside_many: "inside bs i p \<Longrightarrow> i < length bs \<Longrightarrow> bs ! i = BLOCK_MANY c n \<Longrightarrow> inside bs c (i # p)"
| inside_loop: "inside bs i p \<Longrightarrow> i < length bs \<Longrightarrow> bs ! i = BLOCK_LOOP b \<Longrightarrow> inside bs b (i # p)"
| inside_var: "inside bs i p \<Longrightarrow> i < length bs \<Longrightarrow> bs ! i = BLOCK_VAR v b \<Longrightarrow> inside bs b (i # p)"
| inside_next: "inside bs i p \<Longrightarrow> i < length bs \<Longrightarrow> bs ! i = BLOCK_DEFER n d \<Longrightarrow> inside bs n (i # p)"
| inside_defer: "inside bs i p \<Longrightarrow> i < length bs \<Longrightarrow> bs ! i = BLOCK_DEFER n d \<Longrightarrow> inside bs d (i # p)"
| inside_yes: "inside bs i p \<Longrightarrow> i < length bs \<Longrightarrow> bs ! i = BLOCK_BRANCH c y n \<Longrightarrow> inside bs y p"
| inside_no: "inside bs i p \<Longrightarrow> i < length bs \<Longrightarrow> bs ! i = BLOCK_BRANCH c y n \<Longrightarrow> inside bs n p"
| inside_body: "inside bs i p \<Longrightarrow> i < length bs \<Longrightarrow> bs ! i = BLOCK_CRASH_PAD b d \<Longrightarrow> inside bs b p"
| inside_pad: "inside bs i p \<Longrightarrow> i < length bs \<Longrightarrow> bs ! i = BLOCK_CRASH_PAD b d \<Longrightarrow> inside bs d p"
| inside_link: "on_chain bs k p \<Longrightarrow> k < length bs \<Longrightarrow> bs ! k = BLOCK_CHAIN c n \<Longrightarrow> inside bs c p"
| chain_first: "inside bs i p \<Longrightarrow> i < length bs \<Longrightarrow> bs ! i = BLOCK_MANY c n \<Longrightarrow> n < BLOCK_INVALID \<Longrightarrow> on_chain bs n (i # p)"
| chain_next: "on_chain bs k p \<Longrightarrow> k < length bs \<Longrightarrow> bs ! k = BLOCK_CHAIN c n \<Longrightarrow> n < BLOCK_INVALID \<Longrightarrow> on_chain bs n p"

text \<open>Building only replaces basic blocks, moves the condition of a branch, and adds blocks.\<close>

definition same_node :: "block \<Rightarrow> block \<Rightarrow> bool" where
  "same_node b b' \<longleftrightarrow> b' = b \<or> (\<exists>c c' y n. b = BLOCK_BRANCH c y n \<and> b' = BLOCK_BRANCH c' y n)"

definition evolves :: "block list \<Rightarrow> block list \<Rightarrow> bool" where
  "evolves bs bs' \<longleftrightarrow> length bs \<le> length bs' \<and> (\<forall>i<length bs. is_basic (bs ! i) \<or> same_node (bs ! i) (bs' ! i))"

lemma evolves_refl [simp]: "evolves bs bs"
  by (simp add: evolves_def same_node_def)

lemma evolves_same: "evolves bs bs' \<Longrightarrow> i < length bs \<Longrightarrow> bs ! i = b \<Longrightarrow> \<not> is_basic b \<Longrightarrow>
    i < length bs' \<and> (bs' ! i = b \<or> (\<exists>c c' y n. b = BLOCK_BRANCH c y n \<and> bs' ! i = BLOCK_BRANCH c' y n))"
  by (fastforce simp: evolves_def same_node_def)

lemma inside_evolves:
  "inside bs i p \<Longrightarrow> evolves bs bs' \<Longrightarrow> inside bs' i p"
  "on_chain bs k p \<Longrightarrow> evolves bs bs' \<Longrightarrow> on_chain bs' k p"
  by (induction rule: inside_on_chain.inducts)
    (auto intro: inside_on_chain.intros dest!: evolves_same)

lemma evolves_upd:
  assumes "i < length bs" "is_basic (bs ! i) \<or> same_node (bs ! i) b"
  shows "evolves bs (bs[i := b] @ cs)"
  using assms by (auto simp: evolves_def nth_append nth_list_update same_node_def)

lemma evolves_append: "evolves bs (bs @ cs)"
  by (simp add: evolves_def nth_append same_node_def)

text \<open>
  \<open>shaped bs D i d\<close>: block \<open>i\<close>, inside \<open>d\<close> scopes, is the root of a finite tree within the array, no break in it
  leaves more scopes than there are, and \<open>D\<close> has the number of scopes around each basic block.
\<close>

inductive shaped :: "block list \<Rightarrow> (nat \<Rightarrow> nat) \<Rightarrow> nat \<Rightarrow> nat \<Rightarrow> bool"
  and shaped_chain :: "block list \<Rightarrow> (nat \<Rightarrow> nat) \<Rightarrow> nat \<Rightarrow> nat \<Rightarrow> nat \<Rightarrow> bool"
  for bs :: "block list" and D :: "nat \<Rightarrow> nat"
where
  shaped_basic: "i < length bs \<Longrightarrow> bs ! i = BLOCK_BASIC r \<Longrightarrow> D i = d \<Longrightarrow> shaped bs D i d"
| shaped_defer: "i < length bs \<Longrightarrow> bs ! i = BLOCK_DEFER j k \<Longrightarrow> shaped bs D j (Suc d) \<Longrightarrow> shaped bs D k (Suc d) \<Longrightarrow> shaped bs D i d"
| shaped_many: "i < length bs \<Longrightarrow> bs ! i = BLOCK_MANY j k \<Longrightarrow> shaped_chain bs D j k (Suc d) \<Longrightarrow> shaped bs D i d"
| shaped_branch: "i < length bs \<Longrightarrow> bs ! i = BLOCK_BRANCH c j k \<Longrightarrow> shaped bs D j d \<Longrightarrow> shaped bs D k d \<Longrightarrow> shaped bs D i d"
| shaped_loop: "i < length bs \<Longrightarrow> bs ! i = BLOCK_LOOP j \<Longrightarrow> shaped bs D j (Suc d) \<Longrightarrow> shaped bs D i d"
| shaped_break: "i < length bs \<Longrightarrow> bs ! i = BLOCK_BREAK l \<Longrightarrow> 0 < l \<Longrightarrow> l \<le> d \<Longrightarrow> shaped bs D i d"
| shaped_var: "i < length bs \<Longrightarrow> bs ! i = BLOCK_VAR v j \<Longrightarrow> shaped bs D j (Suc d) \<Longrightarrow> shaped bs D i d"
| shaped_last: "j \<noteq> BLOCK_INVALID \<Longrightarrow> shaped bs D j d \<Longrightarrow> shaped_chain bs D j BLOCK_INVALID d"
| shaped_link: "j \<noteq> BLOCK_INVALID \<Longrightarrow> shaped bs D j d \<Longrightarrow> k \<noteq> BLOCK_INVALID \<Longrightarrow> k < length bs \<Longrightarrow> bs ! k = BLOCK_CHAIN j' k'
    \<Longrightarrow> shaped_chain bs D j' k' d \<Longrightarrow> shaped_chain bs D j k d"

inductive_cases shaped_cases: "shaped bs D i d"
inductive_cases shaped_chain_cases: "shaped_chain bs D j k d"

lemma shaped_chainD:
  assumes "shaped_chain bs D j k d"
  shows "shaped bs D j d" "k < BLOCK_INVALID \<Longrightarrow> \<exists>j' k'. k < length bs \<and> bs ! k = BLOCK_CHAIN j' k' \<and> shaped_chain bs D j' k' d"
  using assms by (auto elim: shaped_chain_cases)

lemma shapedD:
  assumes "shaped bs D i d"
  shows "bs ! i = BLOCK_BASIC r \<Longrightarrow> D i = d" "bs ! i = BLOCK_MANY j k \<Longrightarrow> shaped_chain bs D j k (Suc d)"
    "bs ! i = BLOCK_DEFER j k \<Longrightarrow> shaped bs D j (Suc d) \<and> shaped bs D k (Suc d)"
    "bs ! i = BLOCK_BRANCH c j k \<Longrightarrow> shaped bs D j d \<and> shaped bs D k d" "bs ! i = BLOCK_LOOP j \<Longrightarrow> shaped bs D j (Suc d)"
    "bs ! i = BLOCK_VAR v j \<Longrightarrow> shaped bs D j (Suc d)" "bs ! i \<noteq> BLOCK_CRASH_PAD j k"
  using assms by (auto elim: shaped_cases)

lemma inside_shaped:
  "inside bs i p \<Longrightarrow> shaped bs D 0 0 \<Longrightarrow> shaped bs D i (length p)"
  "on_chain bs k p \<Longrightarrow> shaped bs D 0 0 \<Longrightarrow> \<exists>j k'. k < length bs \<and> bs ! k = BLOCK_CHAIN j k' \<and> shaped_chain bs D j k' (length p)"
proof (induction rule: inside_on_chain.inducts)
  case inside_many then show ?case using shapedD(2) shaped_chainD(1) by fastforce
next
  case inside_link then show ?case using shaped_chainD(1) by fastforce
next
  case chain_first then show ?case using shapedD(2) shaped_chainD(2) by fastforce
next
  case chain_next then show ?case using shaped_chainD(2) by fastforce
qed (auto dest: shapedD)

lemma shaped_evolves:
  assumes e: "evolves bs bs'" and leaf: "\<And>i. i < length bs \<Longrightarrow> is_basic (bs ! i) \<Longrightarrow> shaped bs' D' i (D i)"
  shows "shaped bs D i d \<Longrightarrow> shaped bs' D' i d" "shaped_chain bs D j k d \<Longrightarrow> shaped_chain bs' D' j k d"
proof (induction rule: shaped_shaped_chain.inducts)
  case (shaped_basic i r d) then show ?case using leaf [of i] by simp
next
  case (shaped_defer i j k d) then show ?case using evolves_same [OF e, of i] by (auto intro: shaped_shaped_chain.shaped_defer)
next
  case (shaped_many i j k d) then show ?case using evolves_same [OF e, of i] by (auto intro: shaped_shaped_chain.shaped_many)
next
  case (shaped_branch i c j k d) then show ?case using evolves_same [OF e, of i] by (auto intro: shaped_shaped_chain.shaped_branch)
next
  case (shaped_loop i j d) then show ?case using evolves_same [OF e, of i] by (auto intro: shaped_shaped_chain.shaped_loop)
next
  case (shaped_break i l d) then show ?case using evolves_same [OF e, of i] by (auto intro: shaped_shaped_chain.shaped_break)
next
  case (shaped_var i v j d) then show ?case using evolves_same [OF e, of i] by (auto intro: shaped_shaped_chain.shaped_var)
next
  case (shaped_last j d) then show ?case by (auto intro: shaped_shaped_chain.shaped_last)
next
  case (shaped_link j d k j' k') then show ?case using evolves_same [OF e, of k] by (auto intro: shaped_shaped_chain.shaped_link)
qed

lemma shaped_leaf: "i < length bs \<Longrightarrow> is_basic (bs ! i) \<Longrightarrow> D i = d \<Longrightarrow> shaped bs D i d"
  by (cases "bs ! i") (auto intro: shaped_basic)

section \<open>Open control structures\<close>

text \<open>Blocks that a later word will make current, with their paths; \<open>q\<close> is the path of the block behind the structure.\<close>

definition pending :: "frontend_scope \<Rightarrow> nat list \<Rightarrow> (nat \<times> nat list) list" where
  "pending s q = (fs_after s, q) # (case fs_kind s of
       FRONTEND_SCOPE_LOOP \<Rightarrow> []
     | FRONTEND_SCOPE_IF \<Rightarrow> if fs_phase s = FRONTEND_SCOPE_ELSE_BODY then [] else [(fs_second s, q)]
     | FRONTEND_SCOPE_EPILOGUE \<Rightarrow>
         if fs_implicit_end s then if fs_phase s = FRONTEND_SCOPE_BODY then [] else [(fs_first s, fs_block s # q)]
         else if fs_phase s = FRONTEND_SCOPE_BODY then [(fs_second s, fs_block s # q)] else [])"

text \<open>The path every block within the structure ends with.\<close>

definition inner :: "frontend_scope \<Rightarrow> nat list \<Rightarrow> nat list" where
  "inner s q = (case fs_kind s of
     FRONTEND_SCOPE_LOOP \<Rightarrow> fs_first s # fs_block s # q
   | FRONTEND_SCOPE_IF \<Rightarrow> q
   | FRONTEND_SCOPE_EPILOGUE \<Rightarrow> fs_block s # q)"

text \<open>The phases a structure goes through, and the parentheses it counts.\<close>

definition waiting :: "frontend_scope \<Rightarrow> bool" where
  "waiting s \<longleftrightarrow> fs_phase s \<in> {FRONTEND_SCOPE_WAIT_OPEN, FRONTEND_SCOPE_CONDITION, FRONTEND_SCOPE_CLEANUP_WAIT_OPEN}"

definition phase_ok :: "frontend_scope \<Rightarrow> bool" where
  "phase_ok s \<longleftrightarrow> (case fs_kind s of
       FRONTEND_SCOPE_LOOP \<Rightarrow> fs_phase s = FRONTEND_SCOPE_BODY
     | FRONTEND_SCOPE_IF \<Rightarrow> fs_phase s \<in> {FRONTEND_SCOPE_WAIT_OPEN, FRONTEND_SCOPE_CONDITION, FRONTEND_SCOPE_BODY, FRONTEND_SCOPE_ELSE_BODY}
     | FRONTEND_SCOPE_EPILOGUE \<Rightarrow> fs_phase s \<in> {FRONTEND_SCOPE_BODY, FRONTEND_SCOPE_CLEANUP}
         \<or> fs_implicit_end s \<and> fs_phase s = FRONTEND_SCOPE_CLEANUP_WAIT_OPEN)
   \<and> (fs_delimiter_depth s \<noteq> 0 \<longrightarrow> fs_phase s = FRONTEND_SCOPE_CONDITION \<or> fs_phase s = FRONTEND_SCOPE_CLEANUP \<and> fs_implicit_end s)"

definition scope_ok :: "block list \<Rightarrow> frontend_scope \<Rightarrow> nat list \<Rightarrow> bool" where
  "scope_ok bs s q \<longleftrightarrow> q \<noteq> [] \<and> length q = fs_parent_depth s + 1 \<and> phase_ok s
     \<and> (\<forall>(i, p)\<in>set (pending s q). i < length bs \<and> is_basic (bs ! i) \<and> inside bs i p)
     \<and> (is_loop s \<longrightarrow> fs_block s < length bs \<and> bs ! fs_block s = BLOCK_LOOP (fs_first s)
          \<and> fs_break_depth s = fs_parent_depth s + 2 \<and> fs_continue_depth s = fs_parent_depth s + 3)"

fun scopes_ok :: "block list \<Rightarrow> frontend_scope list \<Rightarrow> nat list \<Rightarrow> bool" where
  "scopes_ok bs [] p = True"
| "scopes_ok bs (s # ss) p = (\<exists>q r. p = r @ inner s q \<and> scope_ok bs s q \<and> scopes_ok bs ss (tl q))"

definition pending_blocks :: "frontend_scope list \<Rightarrow> nat list" where
  "pending_blocks ss = concat (map (\<lambda>s. map fst (pending s [])) ss)"

definition tree_ok :: "block list \<Rightarrow> nat \<Rightarrow> nat \<Rightarrow> frontend_scope list \<Rightarrow> nat list \<Rightarrow> bool" where
  "tree_ok bs cur d ss p \<longleftrightarrow> cur < length bs \<and> is_basic (bs ! cur) \<and> inside bs cur p \<and> d = length p
     \<and> length p < length bs \<and> length bs < BLOCK_INVALID
     \<and> scopes_ok bs (rev ss) p \<and> distinct (cur # pending_blocks ss)
     \<and> (\<forall>s\<in>set (butlast ss). \<not> waiting s) \<and> (\<exists>D. shaped bs D 0 0)
     \<and> (ss \<noteq> [] \<and> fs_kind (last ss) = FRONTEND_SCOPE_IF \<and> waiting (last ss) \<longrightarrow> cur = fs_first (last ss))"

abbreviation tree_at :: "frontend \<Rightarrow> nat list \<Rightarrow> bool" where
  "tree_at fe p \<equiv> tree_ok (fe_blocks fe) (fe_current_basic fe) (fe_scope_depth fe) (fe_scopes fe) p"

definition tree_inv :: "frontend \<Rightarrow> bool" where
  "tree_inv fe \<longleftrightarrow> (\<exists>p. tree_at fe p)"

lemma scopes_ok_extend: "scopes_ok bs ss p \<Longrightarrow> scopes_ok bs ss (r @ p)"
  by (cases ss) (simp, metis scopes_ok.simps(2) append_assoc)

lemma scopes_ok_Cons: "scopes_ok bs ss p \<Longrightarrow> scopes_ok bs ss (i # p)"
  using scopes_ok_extend [of bs ss p "[i]"] by simp

lemma fst_pending: "map fst (pending s q) = map fst (pending s [])"
  by (auto simp: pending_def split: scope_kind.split)

lemma scope_ok_evolves:
  assumes "scope_ok bs s q" "evolves bs bs'" "\<forall>i\<in>set (map fst (pending s [])). is_basic (bs' ! i)"
  shows "scope_ok bs' s q"
proof -
  have l: "length bs \<le> length bs'" using assms(2) by (simp add: evolves_def)
  have "i < length bs' \<and> is_basic (bs' ! i) \<and> inside bs' i p" if "(i, p) \<in> set (pending s q)" for i p
  proof -
    have "i \<in> set (map fst (pending s []))" using that by (force simp: fst_pending [of s q, symmetric])
    then show ?thesis using assms that l inside_evolves(1) [of bs i p bs'] by (fastforce simp: scope_ok_def)
  qed
  moreover have "is_loop s \<Longrightarrow> bs' ! fs_block s = BLOCK_LOOP (fs_first s)"
    using assms(1) evolves_same [OF assms(2), of "fs_block s"] by (auto simp: scope_ok_def)
  ultimately show ?thesis using assms(1) l by (auto simp: scope_ok_def)
qed

lemma scopes_ok_evolves:
  "scopes_ok bs ss p \<Longrightarrow> evolves bs bs' \<Longrightarrow> \<forall>i\<in>set (pending_blocks ss). is_basic (bs' ! i) \<Longrightarrow> scopes_ok bs' ss p"
proof (induction ss arbitrary: p)
  case (Cons s ss)
  then obtain q r where q: "p = r @ inner s q" "scope_ok bs s q" "scopes_ok bs ss (tl q)" by auto
  have "scope_ok bs' s q" using scope_ok_evolves [OF q(2) Cons.prems(2)] Cons.prems(3) by (simp add: pending_blocks_def)
  moreover have "scopes_ok bs' ss (tl q)" using Cons.IH [OF q(3) Cons.prems(2)] Cons.prems(3) by (simp add: pending_blocks_def)
  ultimately show ?case unfolding scopes_ok.simps using q(1) by blast
qed simp

lemma scopes_ok_basic: "scopes_ok bs ss p \<Longrightarrow> i \<in> set (pending_blocks ss) \<Longrightarrow> i < length bs \<and> is_basic (bs ! i)"
proof (induction ss arbitrary: p)
  case (Cons s ss)
  then obtain q r where q: "p = r @ inner s q" "scope_ok bs s q" "scopes_ok bs ss (tl q)" by auto
  from Cons.prems(2) consider "i \<in> set (map fst (pending s q))" | "i \<in> set (pending_blocks ss)"
    by (auto simp: pending_blocks_def fst_pending [of s q])
  then show ?case using Cons.IH [OF q(3)] q(2) by cases (fastforce simp: scope_ok_def)+
qed (simp add: pending_blocks_def)

lemma set_pending_rev [simp]: "set (pending_blocks (rev ss)) = set (pending_blocks ss)"
  by (auto simp: pending_blocks_def)

lemma pending_blocks_simps [simp]:
  "pending_blocks [] = []" "pending_blocks (s # ss) = map fst (pending s []) @ pending_blocks ss"
  "pending_blocks (ss @ ss') = pending_blocks ss @ pending_blocks ss'"
  by (simp_all add: pending_blocks_def)

section \<open>Opening a structure\<close>

lemma wrapped:
  assumes t: "tree_ok bs cur d ss p" and n: "n = length bs + length xs" "n + 5 < BLOCK_INVALID"
    and bs2: "bs2 = (bs @ xs)[cur := BLOCK_MANY n (n + 2)] @
      [bs ! cur, middle, BLOCK_CHAIN (n + 1) (n + 4), b, BLOCK_CHAIN (n + 3) BLOCK_INVALID]"
    and b: "is_basic b"
  shows "evolves bs bs2" "length bs2 = n + 5" "bs2 ! (n + 1) = middle" "bs2 ! (n + 3) = b"
    "inside bs2 (n + 1) (cur # p)" "inside bs2 (n + 3) (cur # p)"
    "\<forall>i<length xs. bs2 ! (length bs + i) = xs ! i"
    "scopes_ok bs2 (rev ss) p"
    "\<And>i. i \<in> set (pending_blocks ss) \<Longrightarrow> i < length bs"
proof -
  have cur: "cur < length bs" "is_basic (bs ! cur)" "inside bs cur p" "scopes_ok bs (rev ss) p" "cur \<notin> set (pending_blocks ss)"
    using t by (auto simp: tree_ok_def)
  have nth: "bs2 ! cur = BLOCK_MANY n (n + 2)" "bs2 ! (n + 1) = middle" "bs2 ! (n + 2) = BLOCK_CHAIN (n + 1) (n + 4)"
    "bs2 ! (n + 3) = b" "bs2 ! (n + 4) = BLOCK_CHAIN (n + 3) BLOCK_INVALID" "length bs2 = n + 5"
    using cur(1) n(1) by (simp_all add: bs2 nth_append)
  then show "length bs2 = n + 5" "bs2 ! (n + 1) = middle" "bs2 ! (n + 3) = b" by blast+
  show e: "evolves bs bs2" using cur(1,2) by (simp add: bs2 list_update_append evolves_upd)
  have i: "inside bs2 cur p" using inside_evolves(1) [OF cur(3) e] .
  have c: "on_chain bs2 (n + 2) (cur # p)" by (rule chain_first [OF i _ nth(1)]) (use cur(1) n nth(6) in auto)
  show "inside bs2 (n + 1) (cur # p)" by (rule inside_link [OF c _ nth(3)]) (simp add: nth(6))
  have c: "on_chain bs2 (n + 4) (cur # p)" by (rule chain_next [OF c _ nth(3)]) (use n nth(6) in auto)
  show "inside bs2 (n + 3) (cur # p)" by (rule inside_link [OF c _ nth(5)]) (simp add: nth(6))
  show xs: "\<forall>i<length xs. bs2 ! (length bs + i) = xs ! i" using cur(1) n(1) by (simp add: bs2 nth_append)
  show p: "i < length bs" if "i \<in> set (pending_blocks ss)" for i using scopes_ok_basic [OF cur(4), of i] that by simp
  have "is_basic (bs2 ! i)" if "i \<in> set (pending_blocks ss)" for i
  proof -
    have "i \<noteq> cur" using that cur(5) by blast
    then have "bs2 ! i = bs ! i" using p [OF that] n(1) by (simp add: bs2 nth_append)
    then show ?thesis using scopes_ok_basic [OF cur(4), of i] that by simp
  qed
  then show "scopes_ok bs2 (rev ss) p" using scopes_ok_evolves [OF cur(4) e] by simp
qed

text \<open>The middle is shaped once the blocks it was given are, \<open>e\<close> scopes further in.\<close>

definition middle_ok :: "block list \<Rightarrow> block list \<Rightarrow> nat \<Rightarrow> nat \<Rightarrow> nat \<Rightarrow> nat \<Rightarrow> bool" where
  "middle_ok xs bs2 l n d e \<longleftrightarrow> (\<forall>D. (\<forall>i<length xs. is_basic (xs ! i) \<longrightarrow> D (l + i) = d + e) \<longrightarrow> shaped bs2 D (n + 1) (d + 1))"

lemma all_less_two: "(\<forall>i<Suc (Suc 0). P i) \<longleftrightarrow> P 0 \<and> P (Suc 0)"
  by (auto simp: less_Suc_eq)

lemma wrapped_shape:
  assumes t: "tree_ok bs cur d ss p" and n: "n = length bs + length xs" "n + 5 < BLOCK_INVALID"
    and bs2: "bs2 = (bs @ xs)[cur := BLOCK_MANY n (n + 2)] @
      [bs ! cur, middle, BLOCK_CHAIN (n + 1) (n + 4), b, BLOCK_CHAIN (n + 3) BLOCK_INVALID]"
    and b: "is_basic b" and mid: "middle_ok xs bs2 (length bs) n (length p) e"
  shows "\<exists>D. shaped bs2 D 0 0"
proof -
  have cur: "cur < length bs" "is_basic (bs ! cur)" "inside bs cur p" using t by (auto simp: tree_ok_def)
  have nth: "bs2 ! cur = BLOCK_MANY n (n + 2)" "bs2 ! (n + 2) = BLOCK_CHAIN (n + 1) (n + 4)" "bs2 ! (n + 3) = b"
    "bs2 ! (n + 4) = BLOCK_CHAIN (n + 3) BLOCK_INVALID" "length bs2 = n + 5"
    using cur(1) n(1) by (simp_all add: bs2 nth_append)
  have e: "evolves bs bs2" using cur(1,2) by (simp add: bs2 list_update_append evolves_upd)
  obtain D where D: "shaped bs D 0 0" using t by (auto simp: tree_ok_def)
  then have "D cur = length p" using shapedD(1) [OF inside_shaped(1) [OF cur(3) D]] cur(2) by (cases "bs ! cur") auto
  define D' where "D' = (\<lambda>j. if j < length bs \<and> j \<noteq> cur then D j else if j < n then length p + e else length p + 1)"
  have D': "D' n = length p + 1" "D' (n + 3) = length p + 1" using n(1) cur(1) by (simp_all add: D'_def)
  have at: "bs2 ! n = bs ! cur" using cur(1) n(1) by (simp add: bs2 nth_append)
  have "\<forall>i<length xs. is_basic (xs ! i) \<longrightarrow> D' (length bs + i) = length p + e" using n(1) cur(1) by (simp add: D'_def)
  then have "shaped bs2 D' (n + 1) (length p + 1)" using mid by (simp add: middle_ok_def)
  moreover have "shaped bs2 D' n (length p + 1)" "shaped bs2 D' (n + 3) (length p + 1)"
    by (intro shaped_leaf; use at nth b cur(2) D' in simp)+
  ultimately have "shaped_chain bs2 D' n (n + 2) (length p + 1)"
    using nth n(2) by (intro shaped_link [OF _ _ _ _ nth(2)] shaped_link [OF _ _ _ _ nth(4)] shaped_last) simp_all
  then have "shaped bs2 D' cur (length p)" using shaped_many [OF _ nth(1), of D' "length p"] cur(1) n(1) nth(5) by simp
  moreover have "shaped bs2 D' i (D i)" if "i < length bs" "is_basic (bs ! i)" "i \<noteq> cur" for i
    using that n(1) nth(5) by (intro shaped_leaf) (simp_all add: D'_def bs2 nth_append)
  ultimately have "shaped bs2 D' i (D i)" if "i < length bs" "is_basic (bs ! i)" for i
    using that \<open>D cur = length p\<close> by (cases "i = cur") simp_all
  from shaped_evolves(1) [OF e this D] have "shaped bs2 D' 0 0" .
  then show ?thesis by blast
qed

lemma tree_ok_push:
  assumes "tree_ok bs cur d ss p" "scopes_ok bs2 (rev ss) p" "scope_ok bs2 s (cur # p)"
    and "cur' < length bs2" "is_basic (bs2 ! cur')" "inside bs2 cur' (r @ inner s (cur # p))"
    and "d' = length (r @ inner s (cur # p))" "d' < length bs2" "length bs2 < BLOCK_INVALID"
    and "distinct (cur' # map fst (pending s []))" "\<forall>i\<in>set (cur' # map fst (pending s [])). length bs \<le> i"
    and "ss \<noteq> [] \<Longrightarrow> \<not> waiting (last ss)" "fs_kind s = FRONTEND_SCOPE_IF \<Longrightarrow> waiting s \<Longrightarrow> cur' = fs_first s"
    and "\<exists>D. shaped bs2 D 0 0"
  shows "tree_ok bs2 cur' d' (ss @ [s]) (r @ inner s (cur # p))"
proof -
  have p: "i < length bs" if "i \<in> set (pending_blocks ss)" for i
    using assms(1) scopes_ok_basic [of bs "rev ss" p i] that by (simp add: tree_ok_def)
  have "distinct (cur' # pending_blocks (ss @ [s]))"
    using assms(1,10,11) p by (fastforce simp: tree_ok_def dest: leD)
  moreover have "\<forall>s'\<in>set ss. \<not> waiting s'" using assms(1,12) by (cases ss rule: rev_cases) (auto simp: tree_ok_def)
  moreover have "scopes_ok bs2 (rev (ss @ [s])) (r @ inner s (cur # p))" using assms(2,3) by auto
  ultimately show ?thesis using assms(4-9,13,14) by (simp add: tree_ok_def)
qed

section \<open>The operations on blocks\<close>

lemma fbind_FOk: "fbind m f = FOk x fe \<longleftrightarrow> (\<exists>y fe'. m = FOk y fe' \<and> f y fe' = FOk x fe)"
  by (cases m) auto

lemma grow_blocks_FOk: "grow_blocks E n fe = FOk u fe' \<Longrightarrow> \<exists>cap. fe' = fe\<lparr>fe_block_cap := cap\<rparr>"
  by (auto simp: grow_blocks_def Let_def fail_with_def split: if_splits) (metis frontend.surjective frontend.update_convs(17))

lemma push_scope_FOk: "push_scope E s fe = FOk u fe' \<Longrightarrow> \<exists>cap. fe' = fe\<lparr>fe_scopes := fe_scopes fe @ [s], fe_scopes_cap := cap\<rparr>"
  by (auto simp: push_scope_def fail_with_def split: option.splits)

lemma append_basic_FOk:
  "append_basic_block E fe = FOk i fe' \<Longrightarrow> i = block_count fe \<and> (\<exists>cap. fe' = set_blocks (fe_blocks fe @ [basic_here fe]) (fe\<lparr>fe_block_cap := cap\<rparr>))"
  by (auto simp: append_basic_block_def fbind_FOk basic_here_def split: if_splits dest!: grow_blocks_FOk)

lemma wrap_current_FOk:
  "wrap_current E middle fe = FOk r fe' \<Longrightarrow> block_count fe + 5 < BLOCK_INVALID \<and> r = (block_count fe + 1, block_count fe + 3)
    \<and> (\<exists>cap. fe' = set_blocks ((fe_blocks fe)[fe_current_basic fe := BLOCK_MANY (block_count fe) (block_count fe + 2)] @
        [fe_blocks fe ! fe_current_basic fe, middle, BLOCK_CHAIN (block_count fe + 1) (block_count fe + 4), basic_here fe,
         BLOCK_CHAIN (block_count fe + 3) BLOCK_INVALID]) (fe\<lparr>fe_block_cap := cap\<rparr>))"
  by (auto simp: wrap_current_def fbind_FOk basic_here_def Let_def split: if_splits dest!: grow_blocks_FOk)

lemma basic_here [simp]: "is_basic (basic_here fe)"
  by (simp add: basic_here_def)

lemma set_blocks_sel [simp]:
  "fe_blocks (set_blocks bs fe) = bs" "fe_current_basic (set_blocks bs fe) = fe_current_basic fe"
  "fe_scopes (set_blocks bs fe) = fe_scopes fe" "fe_scope_depth (set_blocks bs fe) = fe_scope_depth fe"
  by (simp_all add: set_blocks_def)

lemma tree_ok_bounds: "tree_ok bs cur d ss p \<Longrightarrow> cur < length bs \<and> d = length p \<and> d < length bs \<and> length bs < BLOCK_INVALID"
  by (auto simp: tree_ok_def)

lemma u32_depth [simp]: "d < BLOCK_INVALID \<Longrightarrow> u32 d = d"
  by (simp add: BLOCK_INVALID_def)

lemma begin_loop_tree:
  assumes t: "tree_at fe p" and w: "fe_scopes fe \<noteq> [] \<Longrightarrow> \<not> waiting (top_scope fe)" and f: "begin_loop E fe = FOk u fe'"
  shows "tree_inv fe'"
proof -
  define bs where "bs = fe_blocks fe"
  define cur where "cur = fe_current_basic fe"
  define n where "n = length bs + 2"
  define bs2 where "bs2 = (bs @ [basic_here fe, BLOCK_MANY (length bs) BLOCK_INVALID])[cur := BLOCK_MANY n (n + 2)] @
      [bs ! cur, BLOCK_LOOP (length bs + 1), BLOCK_CHAIN (n + 1) (n + 4), basic_here fe, BLOCK_CHAIN (n + 3) BLOCK_INVALID]"
  define s where "s = (null_scope FRONTEND_SCOPE_LOOP FRONTEND_SCOPE_BODY)\<lparr>fs_block := n + 1, fs_first := length bs + 1, fs_after := n + 3,
      fs_parent_depth := fe_scope_depth fe, fs_break_depth := u32 (fe_scope_depth fe + 2), fs_continue_depth := u32 (fe_scope_depth fe + 3)\<rparr>"
  have cur: "cur < length bs" using t by (simp add: tree_ok_def cur_def bs_def)
  from f have v: "fe_blocks fe' = bs2" "fe_scopes fe' = fe_scopes fe @ [s]" "fe_current_basic fe' = length bs"
    "fe_scope_depth fe' = u32 (fe_scope_depth fe + 3)" and n5: "n + 5 < BLOCK_INVALID"
    using cur by (auto simp: begin_loop_def fbind_FOk Let_def s_def n_def bs2_def bs_def cur_def nth_append basic_here_def set_blocks_def
        split: if_splits dest!: append_basic_FOk grow_blocks_FOk wrap_current_FOk push_scope_FOk)
  have d: "fe_scope_depth fe = length p" "fe_scope_depth fe < length bs" "fe_scope_depth fe + 8 < BLOCK_INVALID"
    using t n5 by (auto simp: tree_ok_def bs_def n_def)
  have n: "n = length bs + length [basic_here fe, BLOCK_MANY (length bs) BLOCK_INVALID]" by (simp add: n_def)
  note W = wrapped [OF t [folded bs_def cur_def] n n5 bs2_def basic_here]
  have at: "bs2 ! length bs = basic_here fe" "bs2 ! (length bs + 1) = BLOCK_MANY (length bs) BLOCK_INVALID"
    using spec [OF W(7), of 0] spec [OF W(7), of 1] by simp_all
  have "shaped bs2 D (n + 1) (length p + 1)" if "D (length bs) = length p + 3" for D
  proof -
    have "shaped_chain bs2 D (length bs) BLOCK_INVALID (Suc (length p + 2))" using at that W(2) n n5 by (intro shaped_last shaped_leaf) simp_all
    then have "shaped bs2 D (length bs + 1) (length p + 2)" using W(2) n by (intro shaped_many [OF _ at(2)]) simp_all
    then show ?thesis using shaped_loop [OF _ W(3), of D "length p + 1"] W(2) by simp
  qed
  then have "middle_ok [basic_here fe, BLOCK_MANY (length bs) BLOCK_INVALID] bs2 (length bs) n (length p) 3" by (simp add: middle_ok_def all_less_two)
  note W10 = wrapped_shape [OF t [folded bs_def cur_def] n n5 bs2_def basic_here this]
  have "inside bs2 (length bs + 1) ((n + 1) # cur # p)" by (rule inside_loop [OF W(5) _ W(3)]) (simp add: W(2))
  then have body: "inside bs2 (length bs) ((length bs + 1) # (n + 1) # cur # p)" by (rule inside_many [OF _ _ at(2)]) (simp add: W(2) n_def)
  have s: "fs_kind s = FRONTEND_SCOPE_LOOP" "pending s q = [(n + 3, q)]" "inner s q = (length bs + 1) # (n + 1) # q" for q
    by (simp_all add: s_def null_scope_def pending_def inner_def)
  have "scope_ok bs2 s (cur # p)" using W(2-6) d
    by (auto simp: scope_ok_def s is_loop_def) (simp_all add: s_def null_scope_def phase_ok_def)
  then have "tree_ok bs2 (length bs) (fe_scope_depth fe + 3) (fe_scopes fe @ [s]) ([] @ inner s (cur # p))"
    using body at W(2) n5 d w by (intro tree_ok_push [OF t [folded bs_def cur_def] W(8)] W10) (auto simp: s n_def)
  then show ?thesis using v d unfolding tree_inv_def by auto
qed

lemma begin_if_tree:
  assumes t: "tree_at fe p" and w: "fe_scopes fe \<noteq> [] \<Longrightarrow> \<not> waiting (top_scope fe)" and f: "begin_if E fe = FOk u fe'"
  shows "tree_inv fe'"
proof -
  define bs where "bs = fe_blocks fe"
  define cur where "cur = fe_current_basic fe"
  define n where "n = length bs + 2"
  define branch where "branch = BLOCK_BRANCH \<lparr>r_start = u32 (op_count fe), r_len = 0\<rparr> (length bs) (length bs + 1)"
  define bs2 where "bs2 = (bs @ [basic_here fe, basic_here fe])[cur := BLOCK_MANY n (n + 2)] @
      [bs ! cur, branch, BLOCK_CHAIN (n + 1) (n + 4), basic_here fe, BLOCK_CHAIN (n + 3) BLOCK_INVALID]"
  define s where "s = (null_scope FRONTEND_SCOPE_IF FRONTEND_SCOPE_WAIT_OPEN)\<lparr>fs_block := n + 1, fs_first := length bs,
      fs_second := length bs + 1, fs_after := n + 3, fs_parent_depth := fe_scope_depth fe\<rparr>"
  have cur: "cur < length bs" using t by (simp add: tree_ok_def cur_def bs_def)
  from f have v: "fe_blocks fe' = bs2" "fe_scopes fe' = fe_scopes fe @ [s]" "fe_current_basic fe' = length bs"
    "fe_scope_depth fe' = u32 (fe_scope_depth fe + 1)" and n5: "n + 5 < BLOCK_INVALID"
    using cur by (auto simp: begin_if_def fbind_FOk Let_def s_def n_def bs2_def bs_def cur_def branch_def nth_append basic_here_def set_blocks_def
        split: if_splits dest!: append_basic_FOk grow_blocks_FOk wrap_current_FOk push_scope_FOk)
  have d: "fe_scope_depth fe = length p" "fe_scope_depth fe < length bs" "fe_scope_depth fe + 8 < BLOCK_INVALID"
    using t n5 by (auto simp: tree_ok_def bs_def n_def)
  have n: "n = length bs + length [basic_here fe, basic_here fe]" by (simp add: n_def)
  note W = wrapped [OF t [folded bs_def cur_def] n n5 bs2_def basic_here]
  have at: "bs2 ! length bs = basic_here fe" "bs2 ! (length bs + 1) = basic_here fe" using spec [OF W(7), of 0] spec [OF W(7), of 1] by simp_all
  have "shaped bs2 D (n + 1) (length p + 1)" if "D (length bs) = length p + 1" "D (length bs + 1) = length p + 1" for D
    using at that W(2) n by (intro shaped_branch [OF _ W(3) [unfolded branch_def]] shaped_leaf) simp_all
  then have "middle_ok [basic_here fe, basic_here fe] bs2 (length bs) n (length p) 1" by (simp add: middle_ok_def all_less_two)
  note W10 = wrapped_shape [OF t [folded bs_def cur_def] n n5 bs2_def basic_here this]
  have arms: "inside bs2 (length bs) (cur # p)" "inside bs2 (length bs + 1) (cur # p)"
    by (rule inside_yes [OF W(5) _ W(3) [unfolded branch_def]], simp add: W(2),
        rule inside_no [OF W(5) _ W(3) [unfolded branch_def]], simp add: W(2))
  have s: "fs_kind s = FRONTEND_SCOPE_IF" "pending s q = [(n + 3, q), (length bs + 1, q)]" "inner s q = q" "fs_first s = length bs" for q
    by (simp_all add: s_def null_scope_def pending_def inner_def)
  have "scope_ok bs2 s (cur # p)" using W(2,4,6) d at arms
    by (auto simp: scope_ok_def s is_loop_def n_def) (simp_all add: s_def null_scope_def phase_ok_def)
  then have "tree_ok bs2 (length bs) (fe_scope_depth fe + 1) (fe_scopes fe @ [s]) ([] @ inner s (cur # p))"
    using arms at W(2) n5 d w by (intro tree_ok_push [OF t [folded bs_def cur_def] W(8)] W10) (auto simp: s n_def)
  then show ?thesis using v d unfolding tree_inv_def by auto
qed

lemma begin_epilogue_tree:
  assumes t: "tree_at fe p" and w: "fe_scopes fe \<noteq> [] \<Longrightarrow> \<not> waiting (top_scope fe)" and f: "begin_epilogue E im fe = FOk u fe'"
  shows "tree_inv fe'"
proof -
  define bs where "bs = fe_blocks fe"
  define cur where "cur = fe_current_basic fe"
  define n where "n = length bs + 2"
  define bs2 where "bs2 = (bs @ [basic_here fe, basic_here fe])[cur := BLOCK_MANY n (n + 2)] @
      [bs ! cur, BLOCK_DEFER (length bs) (length bs + 1), BLOCK_CHAIN (n + 1) (n + 4), basic_here fe, BLOCK_CHAIN (n + 3) BLOCK_INVALID]"
  define s where "s = (null_scope FRONTEND_SCOPE_EPILOGUE (if im then FRONTEND_SCOPE_CLEANUP_WAIT_OPEN else FRONTEND_SCOPE_BODY))
    \<lparr>fs_block := n + 1, fs_first := length bs, fs_second := length bs + 1, fs_after := n + 3,
     fs_parent_depth := fe_scope_depth fe, fs_implicit_end := im\<rparr>"
  define cur' where "cur' = (if im then length bs + 1 else length bs)"
  have cur: "cur < length bs" using t by (simp add: tree_ok_def cur_def bs_def)
  from f have v: "fe_blocks fe' = bs2" "fe_scopes fe' = fe_scopes fe @ [s]" "fe_current_basic fe' = cur'"
    "fe_scope_depth fe' = u32 (fe_scope_depth fe + 2)" and n5: "n + 5 < BLOCK_INVALID"
    using cur by (auto simp: begin_epilogue_def fbind_FOk Let_def s_def n_def bs2_def bs_def cur_def cur'_def nth_append basic_here_def set_blocks_def
        split: if_splits dest!: append_basic_FOk grow_blocks_FOk wrap_current_FOk push_scope_FOk)
  have d: "fe_scope_depth fe = length p" "fe_scope_depth fe < length bs" "fe_scope_depth fe + 8 < BLOCK_INVALID"
    using t n5 by (auto simp: tree_ok_def bs_def n_def)
  have n: "n = length bs + length [basic_here fe, basic_here fe]" by (simp add: n_def)
  note W = wrapped [OF t [folded bs_def cur_def] n n5 bs2_def basic_here]
  have at: "bs2 ! length bs = basic_here fe" "bs2 ! (length bs + 1) = basic_here fe" using spec [OF W(7), of 0] spec [OF W(7), of 1] by simp_all
  have "shaped bs2 D (n + 1) (length p + 1)" if "D (length bs) = length p + 2" "D (length bs + 1) = length p + 2" for D
    using at that W(2) n by (intro shaped_defer [OF _ W(3)] shaped_leaf) simp_all
  then have "middle_ok [basic_here fe, basic_here fe] bs2 (length bs) n (length p) 2" by (simp add: middle_ok_def all_less_two)
  note W10 = wrapped_shape [OF t [folded bs_def cur_def] n n5 bs2_def basic_here this]
  have parts: "inside bs2 (length bs) ((n + 1) # cur # p)" "inside bs2 (length bs + 1) ((n + 1) # cur # p)"
    by (rule inside_next [OF W(5) _ W(3)], simp add: W(2), rule inside_defer [OF W(5) _ W(3)], simp add: W(2))
  have s: "fs_kind s = FRONTEND_SCOPE_EPILOGUE" "pending s q = [(n + 3, q), (if im then length bs else length bs + 1, (n + 1) # q)]"
    "inner s q = (n + 1) # q" for q
    by (simp_all add: s_def null_scope_def pending_def inner_def)
  have "scope_ok bs2 s (cur # p)" using W(2,4,6) d at parts
    by (auto simp: scope_ok_def s is_loop_def n_def) (simp_all add: s_def null_scope_def phase_ok_def)
  then have "tree_ok bs2 cur' (fe_scope_depth fe + 2) (fe_scopes fe @ [s]) ([] @ inner s (cur # p))"
    using parts at W(2) n5 d w by (intro tree_ok_push [OF t [folded bs_def cur_def] W(8)] W10) (auto simp: s n_def cur'_def)
  then show ?thesis using v d unfolding tree_inv_def by auto
qed

text \<open>Moving on inside the open structures.\<close>

lemma tree_ok_move:
  assumes "tree_ok bs cur d ss p" "scopes_ok bs2 (rev ss) p" "\<And>i. i \<in> set (pending_blocks ss) \<Longrightarrow> i < length bs"
    and "cur' < length bs2" "is_basic (bs2 ! cur')" "inside bs2 cur' (r @ p)" "d' = length (r @ p)" "d' < length bs2"
    and "length bs2 < BLOCK_INVALID" "length bs \<le> cur'" "ss \<noteq> [] \<Longrightarrow> fs_kind (last ss) = FRONTEND_SCOPE_IF \<Longrightarrow> \<not> waiting (last ss)"
    and "\<exists>D. shaped bs2 D 0 0"
  shows "tree_ok bs2 cur' d' ss (r @ p)"
  using assms scopes_ok_extend [OF assms(2)] by (fastforce simp: tree_ok_def dest: leD)

lemma open_var_tree:
  assumes t: "tree_at fe p" and w: "fe_scopes fe \<noteq> [] \<Longrightarrow> \<not> waiting (top_scope fe)" and len: "block_count fe + 4 < BLOCK_INVALID"
    and f: "open_var_block E v fe = FOk u fe'"
  shows "tree_inv fe'"
proof -
  define bs where "bs = fe_blocks fe"
  define cur where "cur = fe_current_basic fe"
  define n where "n = length bs"
  define bs2 where "bs2 = bs[cur := BLOCK_MANY n (n + 2)] @ [bs ! cur, BLOCK_VAR v (n + 3), BLOCK_CHAIN (n + 1) BLOCK_INVALID, basic_here fe]"
  have b: "n + 4 < BLOCK_INVALID" using len by (simp add: n_def bs_def)
  then have n: "u32 n = n" "u32 (n + 1) = n + 1" "u32 (n + 2) = n + 2" "u32 (n + 3) = n + 3" by (simp_all add: BLOCK_INVALID_def)
  have v: "fe_blocks fe' = bs2" "fe_scopes fe' = fe_scopes fe" "fe_current_basic fe' = n + 3" "fe_scope_depth fe' = u32 (fe_scope_depth fe + 2)"
    using f n by (auto simp: open_var_block_def fbind_FOk Let_def bs2_def bs_def cur_def n_def basic_here_def set_blocks_def dest!: grow_blocks_FOk)
  have c: "cur < length bs" "is_basic (bs ! cur)" "inside bs cur p" "scopes_ok bs (rev (fe_scopes fe)) p" "cur \<notin> set (pending_blocks (fe_scopes fe))"
    "fe_scope_depth fe = length p" "length p < length bs"
    using t by (auto simp: tree_ok_def bs_def cur_def)
  have nth: "bs2 ! cur = BLOCK_MANY n (n + 2)" "bs2 ! (n + 1) = BLOCK_VAR v (n + 3)" "bs2 ! (n + 2) = BLOCK_CHAIN (n + 1) BLOCK_INVALID"
    "bs2 ! (n + 3) = basic_here fe" "length bs2 = n + 4"
    using c(1) by (simp_all add: bs2_def nth_append n_def)
  have e: "evolves bs bs2" using c(1,2) by (simp add: bs2_def evolves_upd)
  have i: "inside bs2 cur p" using inside_evolves(1) [OF c(3) e] .
  have ch: "on_chain bs2 (n + 2) (cur # p)" by (rule chain_first [OF i _ nth(1)]) (use c(1) b nth(5) n_def in auto)
  have "inside bs2 (n + 1) (cur # p)" by (rule inside_link [OF ch _ nth(3)]) (simp add: nth(5))
  then have body: "inside bs2 (n + 3) ([n + 1, cur] @ p)" using inside_var [OF _ _ nth(2)] nth(5) by simp
  have pb: "i < length bs \<and> is_basic (bs ! i)" if "i \<in> set (pending_blocks (fe_scopes fe))" for i using scopes_ok_basic [OF c(4), of i] that by simp
  have "is_basic (bs2 ! i)" if "i \<in> set (pending_blocks (fe_scopes fe))" for i
  proof -
    have "i \<noteq> cur" using that c(5) by blast
    then show ?thesis using pb [OF that] by (simp add: bs2_def nth_append)
  qed
  then have so: "scopes_ok bs2 (rev (fe_scopes fe)) p" using scopes_ok_evolves [OF c(4) e] by simp
  obtain D where D: "shaped bs D 0 0" using t by (auto simp: tree_ok_def bs_def)
  have Dc: "D cur = length p" using shapedD(1) [OF inside_shaped(1) [OF c(3) D]] c(2) by (cases "bs ! cur") auto
  define D' where "D' = (\<lambda>j. if j < n \<and> j \<noteq> cur then D j else if j = n then length p + 1 else length p + 2)"
  have "shaped bs2 D' (n + 3) (length p + 2)" "shaped bs2 D' n (length p + 1)"
    by (intro shaped_leaf; use nth c(1,2) in \<open>simp add: D'_def bs2_def n_def nth_append\<close>)+
  then have "shaped_chain bs2 D' n (n + 2) (length p + 1)"
    using nth b by (intro shaped_link [OF _ _ _ _ nth(3)] shaped_last shaped_var [OF _ nth(2)]) simp_all
  then have "shaped bs2 D' cur (D cur)" using shaped_many [OF _ nth(1), of D' "length p"] c(1) nth(5) Dc by (simp add: n_def)
  moreover have "shaped bs2 D' i (D i)" if "i < length bs" "is_basic (bs ! i)" "i \<noteq> cur" for i
    using that nth(5) by (intro shaped_leaf) (simp_all add: D'_def bs2_def n_def nth_append)
  ultimately have "shaped bs2 D' i (D i)" if "i < length bs" "is_basic (bs ! i)" for i using that by (cases "i = cur") simp_all
  from shaped_evolves(1) [OF e this D] have "shaped bs2 D' 0 0" .
  then have "tree_ok bs2 (n + 3) (fe_scope_depth fe + 2) (fe_scopes fe) ([n + 1, cur] @ p)"
    using body nth c b w pb so by (intro tree_ok_move [OF t [folded bs_def cur_def]]) (auto simp: n_def)
  then show ?thesis using v b c(6,7) unfolding tree_inv_def by (auto simp: n_def)
qed


section \<open>Closing and continuing a structure\<close>

lemma tree_ok_same:
  assumes "tree_ok bs cur d ss p" "evolves bs bs'" "length bs' = length bs" "\<And>i. i < length bs \<Longrightarrow> is_basic (bs ! i) \<Longrightarrow> is_basic (bs' ! i)"
  shows "tree_ok bs' cur d ss p"
proof -
  have b: "\<forall>i\<in>set (pending_blocks (rev ss)). is_basic (bs' ! i)"
    using assms(1,4) scopes_ok_basic [of bs "rev ss" p] by (auto simp: tree_ok_def)
  have "scopes_ok bs' (rev ss) p" using assms(1,2) scopes_ok_evolves [OF _ assms(2) b] by (simp add: tree_ok_def)
  moreover obtain D where D: "shaped bs D 0 0" using assms(1) by (auto simp: tree_ok_def)
  have "shaped bs' D i (D i)" if "i < length bs" "is_basic (bs ! i)" for i using assms(3,4) that by (intro shaped_leaf) simp_all
  from shaped_evolves(1) [OF assms(2) this D] have "\<exists>D. shaped bs' D 0 0" by blast
  ultimately show ?thesis using assms inside_evolves(1) [OF _ assms(2)] by (simp add: tree_ok_def)
qed

lemma basic_set_word0 [simp]: "is_basic (set_word0 n b) = is_basic b" "is_basic (close_condition n b) = is_basic b" "is_basic (close_basic n b) = is_basic b"
  by (cases b; simp add: close_basic_def)+

lemma same_close_condition: "same_node b (close_condition n b)"
  by (cases b) (auto simp: same_node_def)

lemma tree_ok_touch: "tree_ok bs cur d ss p \<Longrightarrow> i < length bs \<Longrightarrow> is_basic (bs ! i) \<Longrightarrow> is_basic b \<Longrightarrow> tree_ok (bs[i := b]) cur d ss p"
  using evolves_upd [of i bs b "[]"] by (auto elim!: tree_ok_same simp: nth_list_update)

lemma tree_ok_condition: "tree_ok bs cur d ss p \<Longrightarrow> tree_ok (bs[i := close_condition n (bs ! i)]) cur d ss p"
proof (cases "i < length bs")
  case True
  then show "tree_ok bs cur d ss p \<Longrightarrow> ?thesis"
    using evolves_upd [of i bs "close_condition n (bs ! i)" "[]"] same_close_condition
    by (auto elim!: tree_ok_same simp: nth_list_update)
qed (simp add: list_update_beyond)

text \<open>What the invariant says of the innermost structure.\<close>

lemma tree_ok_top:
  assumes "tree_ok bs cur d ss p" "ss \<noteq> []"
  obtains q r where "p = r @ inner (last ss) q" "scope_ok bs (last ss) q" "scopes_ok bs (rev (butlast ss)) (tl q)"
    "distinct (cur # pending_blocks (butlast ss) @ map fst (pending (last ss) []))" "\<forall>s\<in>set (butlast ss). \<not> waiting s"
    "length p < length bs" "length bs < BLOCK_INVALID"
proof -
  obtain ss' s where ss: "ss = ss' @ [s]" using assms(2) by (cases ss rule: rev_cases) auto
  have "scopes_ok bs (rev ss) p" "distinct (cur # pending_blocks ss)" "\<forall>s\<in>set (butlast ss). \<not> waiting s" "length p < length bs" "length bs < BLOCK_INVALID"
    using assms(1) by (simp_all add: tree_ok_def)
  moreover from this(1) obtain q r where "p = r @ inner s q" "scope_ok bs s q" "scopes_ok bs (rev ss') (tl q)" unfolding ss by auto
  ultimately show ?thesis using that [of r q] unfolding ss by simp
qed

lemma pendingD: "scope_ok bs s q \<Longrightarrow> (i, p) \<in> set (pending s q) \<Longrightarrow> i < length bs \<and> is_basic (bs ! i) \<and> inside bs i p"
  by (fastforce simp: scope_ok_def)

lemma length_inner: "length q \<le> length (inner s q)"
  by (auto simp: inner_def split: scope_kind.split)

lemma not_waiting_last: "\<forall>s\<in>set ss. \<not> waiting s \<Longrightarrow> ss \<noteq> [] \<Longrightarrow> \<not> waiting (last ss)"
  by simp

lemma tree_ok_shape: "tree_ok bs cur d ss p \<Longrightarrow> \<exists>D. shaped bs D 0 0"
  by (simp add: tree_ok_def)

lemma tree_ok_leave:
  assumes t: "tree_ok bs cur d ss p" and ss: "ss \<noteq> []"
  shows "\<exists>q. tree_ok bs (fs_after (last ss)) (fs_parent_depth (last ss) + 1) (butlast ss) q"
    "fs_after (last ss) < length bs" "is_basic (bs ! fs_after (last ss))" "fs_parent_depth (last ss) + 1 < BLOCK_INVALID"
proof -
  obtain q r where q: "p = r @ inner (last ss) q" "scope_ok bs (last ss) q" "scopes_ok bs (rev (butlast ss)) (tl q)"
    "distinct (cur # pending_blocks (butlast ss) @ map fst (pending (last ss) []))" "\<forall>s\<in>set (butlast ss). \<not> waiting s"
    "length p < length bs" "length bs < BLOCK_INVALID"
    using tree_ok_top [OF t ss] .
  have a: "fs_after (last ss) < length bs" "is_basic (bs ! fs_after (last ss))" "inside bs (fs_after (last ss)) q"
    using pendingD [OF q(2), of "fs_after (last ss)" q] by (simp_all add: pending_def)
  have l: "length q = fs_parent_depth (last ss) + 1" "q \<noteq> []" using q(2) by (simp_all add: scope_ok_def)
  have b: "length q < length bs" using length_inner [of q "last ss"] q(1,6) by simp
  have s: "scopes_ok bs (rev (butlast ss)) q" using scopes_ok_Cons [OF q(3), of "hd q"] l(2) by simp
  have w: "\<forall>s\<in>set (butlast (butlast ss)). \<not> waiting s" "butlast ss \<noteq> [] \<Longrightarrow> \<not> waiting (last (butlast ss))"
    using q(5) in_set_butlastD [of _ "butlast ss"] by auto
  have "distinct (fs_after (last ss) # pending_blocks (butlast ss))" using q(4) by (auto simp: pending_def)
  then have "tree_ok bs (fs_after (last ss)) (fs_parent_depth (last ss) + 1) (butlast ss) q"
    unfolding tree_ok_def using a l b s w q(7) tree_ok_shape [OF t] by (intro conjI impI) auto
  then show "\<exists>q. tree_ok bs (fs_after (last ss)) (fs_parent_depth (last ss) + 1) (butlast ss) q" ..
  show "fs_after (last ss) < length bs" "is_basic (bs ! fs_after (last ss))" "fs_parent_depth (last ss) + 1 < BLOCK_INVALID"
    using a l b q(7) by simp_all
qed

lemma resume_sel [simp]:
  "fe_blocks (resume_at i d fe) = (fe_blocks fe)[i := set_word0 (u32 (op_count fe)) (fe_blocks fe ! i)]"
  "fe_current_basic (resume_at i d fe) = i" "fe_scopes (resume_at i d fe) = fe_scopes fe" "fe_scope_depth (resume_at i d fe) = d"
  by (simp_all add: resume_at_def start_block_def set_blocks_def)

lemma scopes_sel [simp]:
  "fe_blocks (pop_scope fe) = fe_blocks fe" "fe_scopes (pop_scope fe) = butlast (fe_scopes fe)"
  "fe_blocks (set_top_scope s fe) = fe_blocks fe" "fe_scopes (set_top_scope s fe) = butlast (fe_scopes fe) @ [s]"
  "fe_current_basic (set_top_scope s fe) = fe_current_basic fe" "fe_scope_depth (set_top_scope s fe) = fe_scope_depth fe"
  "op_count (set_top_scope s fe) = op_count fe"
  by (simp_all add: pop_scope_def set_top_scope_def)

lemma leave_scope_tree:
  assumes t: "tree_at fe p" and ss: "fe_scopes fe \<noteq> []" shows "tree_inv (leave_scope_of fe)"
proof -
  note l = tree_ok_leave [OF t ss]
  from l(1) obtain q where "tree_ok (fe_blocks fe) (fs_after (top_scope fe)) (fs_parent_depth (top_scope fe) + 1) (butlast (fe_scopes fe)) q" ..
  from tree_ok_touch [OF this l(2,3)] l show ?thesis
    unfolding tree_inv_def leave_scope_of_def Let_def by (intro exI [of _ q]) (simp add: tree_ok_def)
qed

text \<open>Another phase of the innermost structure, in another block of it.\<close>

lemma tree_ok_phase:
  assumes t: "tree_ok bs cur d ss p" and ss: "ss \<noteq> []" and q: "p = r @ inner (last ss) q" "scope_ok bs (last ss) q" "scopes_ok bs (rev (butlast ss)) (tl q)"
    and s: "scope_ok bs s q" "inner s q = inner (last ss) q"
    and c: "cur' < length bs" "is_basic (bs ! cur')" "inside bs cur' (r' @ inner s q)" "d' = length (r' @ inner s q)" "d' < length bs"
    and dis: "distinct (cur' # map fst (pending s []))" "set (cur' # map fst (pending s [])) \<subseteq> set (cur # map fst (pending (last ss) []))"
    and w: "fs_kind s = FRONTEND_SCOPE_IF \<Longrightarrow> waiting s \<Longrightarrow> cur' = fs_first s"
  shows "tree_ok bs cur' d' (butlast ss @ [s]) (r' @ inner s q)"
proof -
  obtain ss' s' where e: "ss = ss' @ [s']" using ss by (cases ss rule: rev_cases) auto
  have d: "distinct (cur # pending_blocks ss' @ map fst (pending s' []))" "\<forall>s\<in>set ss'. \<not> waiting s" "length bs < BLOCK_INVALID"
    using t by (auto simp: tree_ok_def e)
  have "set (cur # map fst (pending s' [])) \<inter> set (pending_blocks ss') = {}" using d(1) by auto
  moreover have "set (cur' # map fst (pending s [])) \<subseteq> set (cur # map fst (pending s' []))" using dis(2) by (simp add: e)
  ultimately have "set (cur' # map fst (pending s [])) \<inter> set (pending_blocks ss') = {}" by blast
  then have "distinct (cur' # pending_blocks ss' @ map fst (pending s []))" using d(1) dis(1) by auto
  moreover have "scopes_ok bs (rev (butlast ss @ [s])) (r' @ inner s q)" using s(1) q(3) by (simp add: e) blast
  ultimately show ?thesis using c d w tree_ok_shape [OF t] by (simp add: tree_ok_def e)
qed

lemma waiting_iff: "phase_ok s \<Longrightarrow> waiting s \<longleftrightarrow> fs_kind s = FRONTEND_SCOPE_IF \<and> fs_phase s \<in> {FRONTEND_SCOPE_WAIT_OPEN, FRONTEND_SCOPE_CONDITION}
    \<or> fs_kind s = FRONTEND_SCOPE_EPILOGUE \<and> fs_implicit_end s \<and> fs_phase s = FRONTEND_SCOPE_CLEANUP_WAIT_OPEN"
  by (cases "fs_kind s") (auto simp: phase_ok_def waiting_def)

text \<open>The switch to the second arm, or to the cleanup: its block is the current one from there on.\<close>

lemma tree_ok_second:
  assumes t: "tree_ok bs cur d ss p" and ss: "ss \<noteq> []" and k: "fs_phase (last ss) = FRONTEND_SCOPE_BODY"
    "fs_kind (last ss) = FRONTEND_SCOPE_IF \<and> ph = FRONTEND_SCOPE_ELSE_BODY
     \<or> fs_kind (last ss) = FRONTEND_SCOPE_EPILOGUE \<and> \<not> fs_implicit_end (last ss) \<and> ph = FRONTEND_SCOPE_CLEANUP"
  shows "\<exists>q. tree_ok bs (fs_second (last ss)) (fs_parent_depth (last ss) + (if fs_kind (last ss) = FRONTEND_SCOPE_IF then 1 else 2))
      (butlast ss @ [(last ss)\<lparr>fs_phase := ph\<rparr>]) q"
    "fs_second (last ss) < length bs" "is_basic (bs ! fs_second (last ss))"
    "fs_parent_depth (last ss) + (if fs_kind (last ss) = FRONTEND_SCOPE_IF then 1 else 2) < BLOCK_INVALID"
proof -
  obtain q r where q: "p = r @ inner (last ss) q" "scope_ok bs (last ss) q" "scopes_ok bs (rev (butlast ss)) (tl q)"
    "distinct (cur # pending_blocks (butlast ss) @ map fst (pending (last ss) []))" "\<forall>s\<in>set (butlast ss). \<not> waiting s"
    "length p < length bs" "length bs < BLOCK_INVALID"
    using tree_ok_top [OF t ss] .
  let ?s = "(last ss)\<lparr>fs_phase := ph\<rparr>"
  let ?d = "fs_parent_depth (last ss) + (if fs_kind (last ss) = FRONTEND_SCOPE_IF then 1 else 2)"
  have i: "inner ?s q = inner (last ss) q" by (simp add: inner_def split: scope_kind.split)
  have c: "fs_second (last ss) < length bs" "is_basic (bs ! fs_second (last ss))" "inside bs (fs_second (last ss)) (inner ?s q)"
    using pendingD [OF q(2), of "fs_second (last ss)" "inner ?s q"] k by (auto simp: pending_def inner_def)
  have s: "scope_ok bs ?s q" using q(2) k by (auto simp: scope_ok_def pending_def phase_ok_def is_loop_def)
  have d: "?d = length (inner ?s q)" "?d < length bs" using q(1,2,6) k by (auto simp: scope_ok_def inner_def)
  have "tree_ok bs (fs_second (last ss)) ?d (butlast ss @ [?s]) ([] @ inner ?s q)"
    using c d q(4) k by (intro tree_ok_phase [OF t ss q(1-3) s i]) (auto simp: pending_def waiting_def)
  then show "\<exists>q. tree_ok bs (fs_second (last ss)) ?d (butlast ss @ [?s]) q" by blast
  show "fs_second (last ss) < length bs" "is_basic (bs ! fs_second (last ss))" "?d < BLOCK_INVALID" using c d q(7) by simp_all
qed

lemma resume_second:
  assumes t: "tree_at fe p" and ss: "fe_scopes fe \<noteq> []" and k: "fs_phase (top_scope fe) = FRONTEND_SCOPE_BODY"
    "fs_kind (top_scope fe) = FRONTEND_SCOPE_IF \<and> ph = FRONTEND_SCOPE_ELSE_BODY
     \<or> fs_kind (top_scope fe) = FRONTEND_SCOPE_EPILOGUE \<and> \<not> fs_implicit_end (top_scope fe) \<and> ph = FRONTEND_SCOPE_CLEANUP"
    and d: "d = u32 (fs_parent_depth (top_scope fe) + (if fs_kind (top_scope fe) = FRONTEND_SCOPE_IF then 1 else 2))"
  shows "tree_inv (resume_at (fs_second (top_scope fe)) d (set_top_scope ((top_scope fe)\<lparr>fs_phase := ph\<rparr>) fe))"
proof -
  note r = tree_ok_second [OF t ss k]
  from r(1) obtain q where "tree_ok (fe_blocks fe) (fs_second (top_scope fe))
      (fs_parent_depth (top_scope fe) + (if fs_kind (top_scope fe) = FRONTEND_SCOPE_IF then 1 else 2))
      (butlast (fe_scopes fe) @ [(top_scope fe)\<lparr>fs_phase := ph\<rparr>]) q" ..
  from tree_ok_touch [OF this r(2,3)] r(3,4) d show ?thesis unfolding tree_inv_def by (intro exI [of _ q]) simp
qed

lemma begin_else_tree: "tree_at fe p \<Longrightarrow> begin_else fe = FOk u fe' \<Longrightarrow> tree_inv fe'"
  using resume_second [of fe p FRONTEND_SCOPE_ELSE_BODY] by (auto simp: begin_else_def bad_control_def Let_def split: if_splits)

lemma begin_cleanup_tree: "tree_at fe p \<Longrightarrow> begin_cleanup fe = FOk u fe' \<Longrightarrow> tree_inv fe'"
  using resume_second [of fe p FRONTEND_SCOPE_CLEANUP] by (auto simp: begin_cleanup_def bad_control_def Let_def split: if_splits)

lemma end_loop_tree: "tree_at fe p \<Longrightarrow> end_loop fe = FOk u fe' \<Longrightarrow> tree_inv fe'"
  using leave_scope_tree by (auto simp: end_loop_def bad_control_def split: if_splits)

lemma finish_epilogue_tree: "tree_at fe p \<Longrightarrow> finish_epilogue fe = FOk u fe' \<Longrightarrow> tree_inv fe'"
  using leave_scope_tree by (auto simp: finish_epilogue_def bad_control_def split: if_splits)

lemma start_block_sel [simp]:
  "fe_blocks (start_block i fe) = (fe_blocks fe)[i := set_word0 (u32 (op_count fe)) (fe_blocks fe ! i)]"
  "fe_current_basic (start_block i fe) = fe_current_basic fe" "fe_scopes (start_block i fe) = fe_scopes fe"
  "fe_scope_depth (start_block i fe) = fe_scope_depth fe"
  by (simp_all add: start_block_def set_blocks_def)

lemma end_if_tree:
  assumes t: "tree_at fe p" and f: "end_if fe = FOk u fe'" shows "tree_inv fe'"
proof -
  from f have k: "fe_scopes fe \<noteq> []" "fs_kind (top_scope fe) = FRONTEND_SCOPE_IF"
    "fs_phase (top_scope fe) = FRONTEND_SCOPE_BODY \<or> fs_phase (top_scope fe) = FRONTEND_SCOPE_ELSE_BODY"
    "fe' = leave_scope_of (if fs_phase (top_scope fe) = FRONTEND_SCOPE_BODY then start_block (fs_second (top_scope fe)) fe else fe)"
    by (auto simp: end_if_def bad_control_def Let_def split: if_splits)
  show ?thesis
  proof (cases "fs_phase (top_scope fe) = FRONTEND_SCOPE_BODY")
    case True
    note r = tree_ok_second [OF t k(1) True, of FRONTEND_SCOPE_ELSE_BODY]
    have "tree_at (start_block (fs_second (top_scope fe)) fe) p" using tree_ok_touch [OF t, of "fs_second (top_scope fe)"] r k(2) by simp
    from leave_scope_tree [OF this] k True show ?thesis by simp
  qed (use leave_scope_tree [OF t] k in simp)
qed

lemma finish_implicit_tree: "tree_inv fe \<Longrightarrow> tree_inv (finish_implicit_epilogues fe)"
proof (induction fe rule: finish_implicit_epilogues.induct)
  case (1 fe)
  then show ?case using leave_scope_tree [of fe]
    by (subst finish_implicit_epilogues.simps) (auto simp: implicit_on_top_def tree_inv_def)
qed

section \<open>Parentheses\<close>

text \<open>The cleanup of a prefix defer must end at the depth it started at.\<close>

definition closes_cleanup :: "frontend \<Rightarrow> bool" where
  "closes_cleanup fe \<longleftrightarrow> fe_scopes fe \<noteq> [] \<and> in_cleanup (top_scope fe) \<and> fs_delimiter_depth (top_scope fe) = 1"

lemma delimiter_tree:
  assumes t: "tree_at fe p" and f: "handle_delimiter opened fe = FOk u fe'"
    and c: "closes_cleanup fe \<Longrightarrow> \<not> opened \<Longrightarrow> fe_scope_depth fe = fs_parent_depth (top_scope fe) + 2"
  shows "tree_inv fe'"
proof (cases "fe_scopes fe = []")
  case True
  then show ?thesis using t f by (auto simp: handle_delimiter_def tree_inv_def)
next
  case ss: False
  define s where "s = top_scope fe"
  obtain q r where q: "p = r @ inner s q" "scope_ok (fe_blocks fe) s q" "scopes_ok (fe_blocks fe) (rev (butlast (fe_scopes fe))) (tl q)"
    "distinct (fe_current_basic fe # pending_blocks (butlast (fe_scopes fe)) @ map fst (pending s []))"
    "length p < block_count fe"
    using tree_ok_top [OF t ss] unfolding s_def .
  have ph: "phase_ok s" using q(2) by (simp add: scope_ok_def)
  have cur: "fe_current_basic fe < block_count fe" "is_basic (fe_blocks fe ! fe_current_basic fe)" "inside (fe_blocks fe) (fe_current_basic fe) p"
    "fe_scope_depth fe = length p" "fs_kind s = FRONTEND_SCOPE_IF \<Longrightarrow> waiting s \<Longrightarrow> fe_current_basic fe = fs_first s"
    using t ss by (auto simp: tree_ok_def s_def)
  have keep: "tree_at (set_top_scope s' fe) p"
    if "scope_ok (fe_blocks fe) s' q" "inner s' q = inner s q" "pending s' [] = pending s []" "fs_kind s' = fs_kind s" "fs_first s' = fs_first s"
      "fs_kind s = FRONTEND_SCOPE_IF \<Longrightarrow> waiting s' \<Longrightarrow> waiting s" for s'
    using tree_ok_phase [OF t ss q(1-3) [unfolded s_def] that(1) that(2) [unfolded s_def], of "fe_current_basic fe" r "fe_scope_depth fe"]
      q(1,4,5) cur that s_def by (auto simp: subset_iff)
  have same: "pending (s\<lparr>fs_delimiter_depth := n\<rparr>) x = pending s x" "inner (s\<lparr>fs_delimiter_depth := n\<rparr>) x = inner s x"
    "waiting (s\<lparr>fs_delimiter_depth := n\<rparr>) = waiting s" for n x
    by (simp_all add: pending_def inner_def waiting_def split: scope_kind.split)
  have count: "tree_at (set_top_scope (s\<lparr>fs_delimiter_depth := n\<rparr>) fe) p" if "fs_delimiter_depth s \<noteq> 0" for n
  proof (rule keep)
    show "scope_ok (fe_blocks fe) (s\<lparr>fs_delimiter_depth := n\<rparr>) q"
      using q(2) that unfolding scope_ok_def same by (simp add: phase_ok_def is_loop_def split: scope_kind.splits)
  qed (simp_all add: same)
  consider (wait) "fs_phase s = FRONTEND_SCOPE_WAIT_OPEN \<or> fs_phase s = FRONTEND_SCOPE_CLEANUP_WAIT_OPEN" opened
    | (same) "fe' = fe" | (count) n where "fs_delimiter_depth s \<noteq> 0" "fe' = set_top_scope (s\<lparr>fs_delimiter_depth := n\<rparr>) fe"
    | (close) "fs_delimiter_depth s = 1" "\<not> opened"
    using f ss by (auto simp: handle_delimiter_def Let_def bad_control_def s_def split: if_splits)
  then show ?thesis
  proof cases
    case wait
    let ?s = "s\<lparr>fs_delimiter_depth := 1, fs_phase := (if fs_kind s = FRONTEND_SCOPE_IF then FRONTEND_SCOPE_CONDITION else FRONTEND_SCOPE_CLEANUP)\<rparr>"
    have k: "fs_kind s = FRONTEND_SCOPE_IF \<and> fs_phase s = FRONTEND_SCOPE_WAIT_OPEN
        \<or> fs_kind s = FRONTEND_SCOPE_EPILOGUE \<and> fs_implicit_end s \<and> fs_phase s = FRONTEND_SCOPE_CLEANUP_WAIT_OPEN"
      using ph wait(1) by (auto simp: phase_ok_def split: scope_kind.splits)
    have "pending ?s x = pending s x" "inner ?s x = inner s x" for x using k by (auto simp: pending_def inner_def)
    moreover from this have "scope_ok (fe_blocks fe) ?s q" using q(2) k by (auto simp: scope_ok_def phase_ok_def is_loop_def)
    ultimately have "tree_at (set_top_scope ?s fe) p" using k by (intro keep) (auto simp: waiting_def)
    moreover have "fe' = set_top_scope ?s fe" using f ss wait by (auto simp: handle_delimiter_def Let_def s_def split: if_splits)
    ultimately show ?thesis by (auto simp: tree_inv_def)
  next
    case close
    let ?s = "s\<lparr>fs_delimiter_depth := 0, fs_phase := FRONTEND_SCOPE_BODY\<rparr>"
    have k: "fs_kind s = FRONTEND_SCOPE_IF \<and> fs_phase s = FRONTEND_SCOPE_CONDITION
        \<or> fs_kind s = FRONTEND_SCOPE_EPILOGUE \<and> fs_implicit_end s \<and> fs_phase s = FRONTEND_SCOPE_CLEANUP"
      using ph close(1) by (auto simp: phase_ok_def split: scope_kind.splits)
    have i: "inner ?s q = inner s q" by (simp add: inner_def split: scope_kind.split)
    have so: "scope_ok (fe_blocks fe) ?s q" using q(2) k by (auto simp: scope_ok_def phase_ok_def is_loop_def pending_def)
    define r' where "r' = (if fs_kind s = FRONTEND_SCOPE_IF then r else [])"
    have c1: "fs_first s < block_count fe \<and> is_basic (fe_blocks fe ! fs_first s) \<and> inside (fe_blocks fe) (fs_first s) (r' @ inner ?s q)"
      using pendingD [OF q(2), of "fs_first s" "inner ?s q"] cur k q(1) i
      by (auto simp: r'_def waiting_def pending_def inner_def)
    have c2: "fe_scope_depth fe = length (r' @ inner ?s q)"
      using c close k cur(4) q(1,2) ss i by (auto simp: closes_cleanup_def in_cleanup_def s_def [symmetric] r'_def scope_ok_def inner_def)
    have "tree_ok (fe_blocks fe) (fs_first s) (fe_scope_depth fe) (butlast (fe_scopes fe) @ [?s]) (r' @ inner ?s q)"
      using c1 c2 q(4,5) cur k so i q(1) unfolding s_def
      by (intro tree_ok_phase [OF t ss q(1-3) [unfolded s_def]]) (auto simp: pending_def waiting_def r'_def)
    note T0 = this
    define fe2 where "fe2 = (set_top_scope ?s (if fs_kind s = FRONTEND_SCOPE_IF
        then set_blocks ((fe_blocks fe)[fs_block s := close_condition (op_count fe) (fe_blocks fe ! fs_block s)]) fe else fe))
        \<lparr>fe_current_basic := fs_first s\<rparr>"
    have v: "fe_current_basic fe2 = fs_first s" "fe_scope_depth fe2 = fe_scope_depth fe" "fe_scopes fe2 = butlast (fe_scopes fe) @ [?s]"
      "fe_blocks fe2 = (if fs_kind s = FRONTEND_SCOPE_IF
          then (fe_blocks fe)[fs_block s := close_condition (op_count fe) (fe_blocks fe ! fs_block s)] else fe_blocks fe)"
      by (simp_all add: fe2_def set_blocks_def set_top_scope_def)
    have T: "tree_at fe2 (r' @ inner ?s q)" using T0 tree_ok_condition [OF T0] by (simp add: v)
    have "tree_at (start_block (fs_first s) fe2) (r' @ inner ?s q)"
      using tree_ok_touch [OF T, of "fs_first s"] T by (simp add: tree_ok_def v(1))
    moreover have "fe' = start_block (fs_first s) fe2"
      using f ss close k by (auto simp: handle_delimiter_def Let_def s_def fe2_def split: if_splits)
    ultimately show ?thesis by (auto simp: tree_inv_def)
  qed (use t count in \<open>auto simp: tree_inv_def\<close>)
qed

section \<open>Operations, variables, exits\<close>

lemma prepare_tree: "tree_at fe p \<Longrightarrow> frontend_prepare_func E fe = FOk () fe"
proof -
  assume t: "tree_at fe p"
  have "fe_current_basic fe < block_count fe" "is_basic (fe_blocks fe ! fe_current_basic fe)" using t by (simp_all add: tree_ok_def)
  then show ?thesis by (cases "fe_blocks fe") (simp_all add: frontend_prepare_func_def)
qed

lemma emit_op_tree: "tree_at fe p \<Longrightarrow> frontend_emit_op E x fe = FOk u fe' \<Longrightarrow> tree_at fe' p"
proof -
  assume t: "tree_at fe p" and f: "frontend_emit_op E x fe = FOk u fe'"
  have c: "fe_current_basic fe < block_count fe" "is_basic (fe_blocks fe ! fe_current_basic fe)" using t by (simp_all add: tree_ok_def)
  show ?thesis using f tree_ok_touch [OF t c] t c prepare_tree [OF t, of E]
    by (auto simp: frontend_emit_op_def fbind_FOk Let_def fail_with_def set_blocks_def split: option.splits if_splits)
qed

lemma append_var_FOk:
  "append_var E v fe = FOk i fe' \<Longrightarrow> fe_blocks fe' = fe_blocks fe \<and> fe_scopes fe' = fe_scopes fe \<and> fe_current_basic fe' = fe_current_basic fe
    \<and> fe_scope_depth fe' = fe_scope_depth fe"
  by (auto simp: append_var_def Let_def fail_with_def split: option.splits)

lemma declare_var_tree:
  assumes "tree_at fe p" "fe_scopes fe \<noteq> [] \<Longrightarrow> \<not> waiting (top_scope fe)" "block_count fe + 4 < BLOCK_INVALID"
    and "frontend_declare_var E tid t fe = FOk u fe'"
  shows "tree_inv fe'"
proof -
  from assms(4) obtain cap v fe1 where a: "append_var E \<lparr>v_tid = tid, v_name = Some (pn_string t)\<rparr> (fe\<lparr>fe_owned_names_cap := cap\<rparr>) = FOk v fe1"
    "open_var_block E v (fe1\<lparr>fe_owned_names := fe_owned_names fe1 @ [pn_string t]\<rparr>) = FOk u fe'"
    by (auto simp: frontend_declare_var_def fail_with_def fbind_FOk split: if_splits option.splits)
  note v = append_var_FOk [OF a(1), simplified]
  show ?thesis using open_var_tree [OF _ _ _ a(2)] assms(1-3) v by auto
qed

text \<open>The innermost loop: the scope found by the search, with every scope inside it after it.\<close>

lemma loop_index_split:
  assumes "loop_index fe \<noteq> 0"
  obtains ss1 s ss2 where "fe_scopes fe = ss1 @ s # ss2" "is_loop s" "\<forall>x\<in>set ss2. \<not> is_loop x" "loop_index fe = Suc (length ss1)"
proof -
  let ?w = "dropWhile (\<lambda>s. \<not> is_loop s) (rev (fe_scopes fe))"
  have "?w \<noteq> []" using assms by (auto simp: loop_index_def)
  then obtain s rest where w: "?w = s # rest" by (cases ?w) auto
  have "is_loop s" using hd_dropWhile [of "\<lambda>s. \<not> is_loop s" "rev (fe_scopes fe)"] w by simp
  moreover have "rev (fe_scopes fe) = takeWhile (\<lambda>s. \<not> is_loop s) (rev (fe_scopes fe)) @ s # rest" using w by (metis takeWhile_dropWhile_id)
  then have "fe_scopes fe = rev rest @ s # rev (takeWhile (\<lambda>s. \<not> is_loop s) (rev (fe_scopes fe)))"
    by (metis append.assoc append_Cons append_Nil rev.simps(2) rev_append rev_rev_ident)
  moreover have "\<forall>x\<in>set (rev (takeWhile (\<lambda>s. \<not> is_loop s) (rev (fe_scopes fe)))). \<not> is_loop x" by (auto dest: set_takeWhileD)
  moreover have "loop_index fe = Suc (length (rev rest))" using w by (simp add: loop_index_def)
  ultimately show ?thesis using that by blast
qed

lemma scopes_ok_split: "scopes_ok bs (xs @ s # ys) p \<Longrightarrow> \<exists>q r. p = r @ inner s q \<and> scope_ok bs s q"
proof (induction xs arbitrary: p)
  case (Cons x xs)
  then obtain q r where q: "p = r @ inner x q" "scope_ok bs x q" "scopes_ok bs (xs @ s # ys) (tl q)" by auto
  obtain q' r' where "tl q = r' @ inner s q'" "scope_ok bs s q'" using Cons.IH [OF q(3)] by blast
  moreover have "\<exists>r. inner x q = r @ tl q" using q(2) by (cases q) (auto simp: inner_def scope_ok_def split: scope_kind.split)
  ultimately show ?case using q(1) by (metis append.assoc)
qed auto

text \<open>
  The exit of a loop: how the block tree looks around the new break.  \<open>target\<close> is the scope the
  break has to leave last.
\<close>

lemma loop_exit_tree:
  assumes t: "tree_at fe p" and w: "fe_scopes fe \<noteq> [] \<Longrightarrow> \<not> waiting (top_scope fe)" and f: "emit_loop_exit E is_continue fe = FOk u fe'"
  shows "\<exists>s p' l. tree_at fe' p' \<and> s \<in> set (fe_scopes fe) \<and> s = fe_scopes fe ! (loop_index fe - 1) \<and> is_loop s
    \<and> fe_blocks fe' ! (block_count fe + 1) = BLOCK_BREAK l \<and> block_count fe + 1 < block_count fe' \<and> inside (fe_blocks fe') (block_count fe + 1) p'
    \<and> fe_blocks fe' ! fs_block s = BLOCK_LOOP (fs_first s) \<and> fs_block s < block_count fe'
    \<and> 0 < l \<and> l \<le> length p' \<and> p' ! (l - 1) = (if is_continue then fs_first s else fs_block s)
    \<and> (is_continue \<longrightarrow> l < length p' \<and> p' ! l = fs_block s)"
proof -
  define bs where "bs = fe_blocks fe"
  define cur where "cur = fe_current_basic fe"
  define n where "n = length bs"
  from f have li: "loop_index fe \<noteq> 0" by (auto simp: emit_loop_exit_def bad_control_def Let_def split: if_splits)
  obtain ss1 s ss2 where s: "fe_scopes fe = ss1 @ s # ss2" "is_loop s" "loop_index fe = Suc (length ss1)" using loop_index_split [OF li] by metis
  have at: "fe_scopes fe ! (loop_index fe - 1) = s" using s by simp
  have "scopes_ok bs (rev ss2 @ s # rev ss1) p" using t s(1) by (simp add: tree_ok_def bs_def)
  from scopes_ok_split [OF this] obtain q r where q: "p = r @ inner s q" "scope_ok bs s q" by blast
  have lp: "inner s q = fs_first s # fs_block s # q" using s(2) by (simp add: inner_def is_loop_def)
  have so: "length q = fs_parent_depth s + 1" "fs_break_depth s = fs_parent_depth s + 2" "fs_continue_depth s = fs_parent_depth s + 3"
    "bs ! fs_block s = BLOCK_LOOP (fs_first s)" "fs_block s < length bs"
    using q(2) s(2) by (auto simp: scope_ok_def)
  define l where "l = (if is_continue then length r + 1 + 1 else length r + 1 + 2)"
  have d: "fe_scope_depth fe = length p" "length p < length bs" using t by (auto simp: tree_ok_def bs_def)
  define bs2 where "bs2 = (bs @ [])[cur := BLOCK_MANY n (n + 2)] @
      [bs ! cur, BLOCK_BREAK l, BLOCK_CHAIN (n + 1) (n + 4), basic_here fe, BLOCK_CHAIN (n + 3) BLOCK_INVALID]"
  from f have n5: "n + 5 < BLOCK_INVALID"
    by (auto simp: emit_loop_exit_def bad_control_def Let_def fbind_FOk n_def bs_def split: if_splits dest!: wrap_current_FOk)
  have u: "u32 (fe_scope_depth fe + 1) = length p + 1" "length p + 1 = length r + length q + 3" "l < BLOCK_INVALID"
    using d n5 q(1) lp so by (simp_all add: n_def BLOCK_INVALID_def l_def)
  have lv: "u32 (length p + 1 - (if is_continue then fs_continue_depth s else fs_break_depth s) + 1) = l"
    using u so by (auto simp: l_def)
  have v: "fe_blocks fe' = bs2" "fe_scopes fe' = fe_scopes fe" "fe_current_basic fe' = n + 3" "fe_scope_depth fe' = length p + 1"
    using f lv u(1) unfolding emit_loop_exit_def at Let_def
    by (auto simp: bad_control_def fbind_FOk bs2_def n_def bs_def cur_def basic_here_def set_blocks_def split: if_splits dest!: wrap_current_FOk)
  have W: "evolves bs bs2" "length bs2 = n + 5" "bs2 ! (n + 1) = BLOCK_BREAK l" "bs2 ! (n + 3) = basic_here fe"
    "inside bs2 (n + 1) (cur # p)" "inside bs2 (n + 3) (cur # p)" "scopes_ok bs2 (rev (fe_scopes fe)) p"
    "\<And>i. i \<in> set (pending_blocks (fe_scopes fe)) \<Longrightarrow> i < length bs"
    using wrapped [OF t [folded bs_def cur_def] _ n5 bs2_def basic_here] by (simp_all add: n_def)
  have "middle_ok [] bs2 (length bs) n (length p) 0"
    unfolding middle_ok_def using W(2,3) q(1) lp by (auto simp: l_def intro!: shaped_break)
  then have W10: "\<exists>D. shaped bs2 D 0 0" using wrapped_shape [OF t [folded bs_def cur_def] _ n5 bs2_def basic_here] by (simp add: n_def)
  have ti: "tree_ok bs2 (n + 3) (length p + 1) (fe_scopes fe) ([cur] @ p)"
    using W W10 d n5 w by (intro tree_ok_move [OF t [folded bs_def cur_def]]) (auto simp: n_def)
  have "bs2 ! fs_block s = BLOCK_LOOP (fs_first s)" "fs_block s < length bs2"
    using evolves_same [OF W(1) so(5,4)] by auto
  moreover have "(cur # p) ! (l - 1) = (if is_continue then fs_first s else fs_block s)" "0 < l" "l \<le> length (cur # p)"
    "is_continue \<Longrightarrow> l < length (cur # p) \<and> (cur # p) ! l = fs_block s"
    using q(1) lp by (auto simp: l_def nth_append nth_Cons')
  ultimately show ?thesis using W ti v s at by (intro exI [of _ s] exI [of _ "cur # p"] exI [of _ l]) (auto simp: n_def bs_def)
qed

end
