(* ===== verification/Interpreter.thy ===== *)
theory Interpreter
  imports Frontend_Build Compiler
begin

text \<open>
  The outer interpreter of \<^verbatim>\<open>frontend.c\<close>: words are engaged, immediate functions run on the macro
  machine, and the loop over the tokens is itself a function of the IR, which the bytecode
  compiler compiles and the machine runs with the frontend's own natives.
\<close>

section \<open>Running code on one of the machines\<close>

definition attach :: "mem \<Rightarrow> 'u \<Rightarrow> unit vm \<Rightarrow> 'u vm" where
  "attach m u v = \<lparr>vm_mem = m, vm_storage = vm_storage v, vm_storage_len = vm_storage_len v,
     vm_storage_cap = vm_storage_cap v, vm_params = vm_params v, vm_params_cap = vm_params_cap v,
     vm_crashes = vm_crashes v, vm_crashes_cap = vm_crashes_cap v, vm_user = u\<rparr>"

definition detach :: "('u, 'a) vm_scheme \<Rightarrow> unit vm" where
  "detach v = \<lparr>vm_mem = (\<lambda>a. None), vm_storage = vm_storage v, vm_storage_len = vm_storage_len v,
     vm_storage_cap = vm_storage_cap v, vm_params = vm_params v, vm_params_cap = vm_params_cap v,
     vm_crashes = vm_crashes v, vm_crashes_cap = vm_crashes_cap v, vm_user = ()\<rparr>"

text \<open>The code is mapped while it lives; a run that does not return is \<^term>\<open>None\<close>.\<close>

definition map_code :: "vm_code \<Rightarrow> mem \<Rightarrow> mem" where
  "map_code c = map_bytes (code_addr c) (code_bytes c)"

definition run_vm :: "fe_env \<Rightarrow> (nat \<Rightarrow> 'u vm \<Rightarrow> (vm_result \<times> 'u vm) option) \<Rightarrow> vm_code \<Rightarrow> mem \<Rightarrow> 'u \<Rightarrow> unit vm
    \<Rightarrow> (vm_result \<times> unit vm \<times> mem \<times> 'u) option" where
  "run_vm E native code m u v =
     (case vm_run \<lparr>e_alloc = en_alloc E, e_place = en_place E, e_native = native\<rparr> (en_steps E) (code_addr code)
         (attach (map_code code m) u v) of
        Return r w \<Rightarrow> Some (r, detach w, unmap (code_addr code) (length (code_bytes code)) (vm_mem w), vm_user w)
      | _ \<Rightarrow> None)"

definition set_compile_ctx :: "compile_ctx \<Rightarrow> cctx \<Rightarrow> cctx" where
  "set_compile_ctx y x = x\<lparr>x_globals := x_globals y, x_funcs := x_funcs y, x_code := x_code y,
     x_code_cap := x_code_cap y, x_placed := x_placed y, x_place := x_place y\<rparr>"

text \<open>Compiling against the context also fills code slots of the functions called.\<close>

definition compile_with :: "fe_env \<Rightarrow> func \<Rightarrow> frontend \<Rightarrow> vm_code fres" where
  "compile_with E f fe =
     (case vm_compile_no_defers (en_depth E) (en_blocks E) (en_alloc E) 0 f (Some (compile_ctx.truncate (fe_ctx fe))) of
        Some (code, Some y) \<Rightarrow> FOk code (fe\<lparr>fe_ctx := set_compile_ctx y (fe_ctx fe), fe_mem := fold map_code (x_code y) (fe_mem fe)\<rparr>)
      | _ \<Rightarrow> FUndef)"

section \<open>Engaging words\<close>

text \<open>A macro runs with the frontend as its user, and leaves it changed.\<close>

definition run_immediate :: "fe_env \<Rightarrow> nat \<Rightarrow> frontend \<Rightarrow> unit fres" where
  "run_immediate E idx fe =
     (if length (x_funcs (fe_ctx fe)) \<le> idx then fail_with FRONTEND_MACRO_COMPILE_FAILED fe
      else fbind (compile_with E (x_funcs (fe_ctx fe) ! idx) fe) (\<lambda>code fe.
        if code_addr code = 0 then fail_with FRONTEND_MACRO_COMPILE_FAILED fe
        else case run_vm E (en_macro E) code (fe_mem fe) fe (fe_macro_vm fe) of
          None \<Rightarrow> FUndef
        | Some (r, v, m, fe) \<Rightarrow>
            let fe = fe\<lparr>fe_macro_vm := v, fe_mem := m, fe_macro_result := r\<rparr> in
            if r \<noteq> VM_OK
            then FFail (fe\<lparr>fe_error := (if fe_error fe = FRONTEND_OK then FRONTEND_MACRO_RUNTIME_FAILED else fe_error fe)\<rparr>)
            else FOk () fe))"

definition engage_word :: "fe_env \<Rightarrow> frontend_word \<Rightarrow> frontend \<Rightarrow> unit fres" where
  "engage_word E w fe =
     (if \<not> ready_for_word fe then bad_control fe
      else case w_data w of
        FRONTEND_WORD_OP x \<Rightarrow> frontend_emit_op E x fe
      | FRONTEND_WORD_FUNC f \<Rightarrow> frontend_emit_op E \<lparr>o_kind = OP_CALL, o_extra = f\<rparr> fe
      | FRONTEND_WORD_NATIVE g \<Rightarrow> fbind (frontend_emit_op E \<lparr>o_kind = OP_PUSH_GLOBAL, o_extra = g\<rparr> fe)
          (\<lambda>_. frontend_emit_op E (plain_op OP_CALL_NATIVE_ON_STACK))
      | FRONTEND_WORD_IMMEDIATE k f \<Rightarrow>
          if k = FRONTEND_IMMEDIATE_VAR then run_var E fe
          else if k = FRONTEND_IMMEDIATE_FUNC then run_immediate E f fe
          else run_control E k fe)"

text \<open>A variable that cannot be pushed falls through to the number and the unknown word.\<close>

definition compile_fallback :: "fe_env \<Rightarrow> parsed_name \<Rightarrow> frontend \<Rightarrow> unit fres" where
  "compile_fallback E t fe =
     (if \<not> ready_for_word fe then bad_control fe
      else case emit_named_var E t fe of
        FOk u fe \<Rightarrow> FOk u fe
      | FUndef \<Rightarrow> FUndef
      | FFail fe \<Rightarrow>
          if pn_text t \<noteq> [] \<and> (is_digit (hd (pn_text t)) \<or> hd (pn_text t) = CHR ''-'' \<or> hd (pn_text t) = CHR ''+'')
          then emit_number E t fe
          else fail_at FRONTEND_UNKNOWN_WORD t fe)"

section \<open>The natives of the interpreter\<close>

text \<open>The natives find the frontend behind the machine's user pointer and share its heap.\<close>

definition with_user :: "(frontend \<Rightarrow> unit fres) \<Rightarrow> frontend vm \<Rightarrow> (vm_result \<times> frontend vm) option" where
  "with_user f v = (case f ((vm_user v)\<lparr>fe_mem := vm_mem v\<rparr>) of
     FOk u fe \<Rightarrow> Some (VM_OK, v\<lparr>vm_user := fe, vm_mem := fe_mem fe\<rparr>)
   | FFail fe \<Rightarrow> Some (VM_HARD_CRASH, v\<lparr>vm_user := fe, vm_mem := fe_mem fe\<rparr>)
   | FUndef \<Rightarrow> None)"

definition store_num :: "nat \<Rightarrow> int \<Rightarrow> 'u vm \<Rightarrow> (vm_result \<times> 'u vm) option" where
  "store_num a x v = map_option (\<lambda>m. (VM_OK, v\<lparr>vm_mem := m\<rparr>)) (store (vm_mem v) a (bytes_of_nat 8 (u64_of_int x)))"

definition no_token :: parsed_name where "no_token = \<lparr>pn_text = [], pn_len = 0\<rparr>"

definition interpreter_next_token :: "frontend vm \<Rightarrow> (vm_result \<times> frontend vm) option" where
  "interpreter_next_token v =
     (if vm_params v = [] then Some (VM_INVALID_ARG, v)
      else case next_token (vm_user v) of
        (None, fe) \<Rightarrow> store_num (last (vm_params v)) 0 v
      | (Some t, fe) \<Rightarrow> store_num (last (vm_params v)) 1 (v\<lparr>vm_user := fe\<lparr>fe_current_token := Some t\<rparr>\<rparr>))"

definition word_handle :: "frontend \<Rightarrow> int" where
  "word_handle fe = (case fe_current_token fe of
     None \<Rightarrow> (case find_word fe no_token of Some i \<Rightarrow> int i + 1 | None \<Rightarrow> 0)
   | Some t \<Rightarrow>
       if is_delimiter t then (if hd (pn_text t) = CHR ''('' then -1 else -2)
       else case find_word fe t of Some i \<Rightarrow> int i + 1 | None \<Rightarrow> 0)"

definition interpreter_lookup_word :: "frontend vm \<Rightarrow> (vm_result \<times> frontend vm) option" where
  "interpreter_lookup_word v =
     (if vm_params v = [] then Some (VM_INVALID_ARG, v)
      else store_num (last (vm_params v)) (word_handle (vm_user v)) v)"

definition engage_handle :: "fe_env \<Rightarrow> int \<Rightarrow> frontend vm \<Rightarrow> (vm_result \<times> frontend vm) option" where
  "engage_handle E h v =
     (if h = -1 \<or> h = -2 then with_user (handle_delimiter (h = -1)) v
      else if h \<le> 0 \<or> int (length (fe_words (vm_user v))) \<le> h - 1 then Some (VM_INVALID_ARG, v)
      else with_user (engage_word E (fe_words (vm_user v) ! nat (h - 1))) v)"

definition interpreter_engage_word :: "fe_env \<Rightarrow> frontend vm \<Rightarrow> (vm_result \<times> frontend vm) option" where
  "interpreter_engage_word E v =
     (if vm_params v = [] then Some (VM_INVALID_ARG, v)
      else case load (vm_mem v) (last (vm_params v)) 8 of
        None \<Rightarrow> None
      | Some bs \<Rightarrow> engage_handle E (signed 8 bs) v)"

definition interpreter_fallback :: "fe_env \<Rightarrow> frontend vm \<Rightarrow> (vm_result \<times> frontend vm) option" where
  "interpreter_fallback E v = with_user
     (\<lambda>fe. compile_fallback E (case fe_current_token fe of None \<Rightarrow> no_token | Some t \<Rightarrow> t) fe) v"

definition interpreter_native :: "fe_env \<Rightarrow> nat \<Rightarrow> frontend vm \<Rightarrow> (vm_result \<times> frontend vm) option" where
  "interpreter_native E fn v =
     (if fn = en_entry E 0 then interpreter_next_token v
      else if fn = en_entry E 1 then interpreter_lookup_word v
      else if fn = en_entry E 2 then interpreter_engage_word E v
      else if fn = en_entry E 3 then interpreter_fallback E v
      else None)"

text \<open>
  The hooks a native on the macro machine parses with.  They are not called by the code itself, but by
  the natives \<open>en_macro\<close>.
\<close>

definition parse_hook :: "(frontend \<Rightarrow> 'v fres) \<Rightarrow> frontend vm \<Rightarrow> ('v option \<times> frontend vm) option" where
  "parse_hook f v = (case f ((vm_user v)\<lparr>fe_mem := vm_mem v\<rparr>) of
     FOk x fe \<Rightarrow> Some (Some x, v\<lparr>vm_user := fe, vm_mem := fe_mem fe\<rparr>)
   | FFail fe \<Rightarrow> Some (None, v\<lparr>vm_user := fe, vm_mem := fe_mem fe\<rparr>)
   | FUndef \<Rightarrow> None)"

definition vm_parse_name :: "frontend vm \<Rightarrow> (parsed_name option \<times> frontend vm) option" where
  "vm_parse_name = parse_hook frontend_parse_name"

definition vm_parse_number :: "frontend vm \<Rightarrow> (int option \<times> frontend vm) option" where
  "vm_parse_number = parse_hook frontend_parse_number"

definition vm_parse_type :: "fe_env \<Rightarrow> frontend vm \<Rightarrow> (nat option \<times> frontend vm) option" where
  "vm_parse_type E = parse_hook (frontend_parse_type E)"

section \<open>The interpreter's function\<close>

definition native_type :: "string \<Rightarrow> sig_input list \<Rightarrow> var list \<Rightarrow> ctype" where
  "native_type name ins outs = \<lparr>t_kind = TYPE_NATIVE_FUNC_POINTER \<lparr>s_ins = ins, s_outs = outs\<rparr>, t_name = Some name,
     t_portal = False, t_payload = 0, t_size = 0, t_align = 0\<rparr>"

definition bare_type :: "type_kind \<Rightarrow> string \<Rightarrow> ctype" where
  "bare_type k name = \<lparr>t_kind = k, t_name = Some name, t_portal = False, t_payload = 0, t_size = 0, t_align = 0\<rparr>"

definition int_var :: "string \<Rightarrow> var" where "int_var name = \<lparr>v_tid = TYPE_INT_ID, v_name = Some name\<rparr>"

definition interpreter_types :: "ctype list" where
  "interpreter_types =
     [bare_type TYPE_INT ''int'', bare_type TYPE_BYTE ''byte'',
      native_type ''next_token'' [] [int_var ''has_token''],
      native_type ''lookup_word'' [] [int_var ''word_handle''],
      native_type ''engage_word'' [\<lparr>si_var = int_var ''word_handle'', si_mut = False\<rparr>] [],
      native_type ''interpret_fallback'' [] []]"

definition interpreter_ops :: "op list" where
  "interpreter_ops = map (\<lambda>(k, n). \<lparr>o_kind = k, o_extra = n\<rparr>)
     [(OP_PUSH_VAR, 0), (OP_PUSH_GLOBAL, 0), (OP_CALL_NATIVE_ON_STACK, 0),
      (OP_PUSH_VAR, 0),
      (OP_PUSH_VAR, 1), (OP_PUSH_GLOBAL, 1), (OP_CALL_NATIVE_ON_STACK, 0),
      (OP_PUSH_VAR, 1),
      (OP_PUSH_VAR, 1), (OP_PUSH_GLOBAL, 2), (OP_CALL_NATIVE_ON_STACK, 0),
      (OP_PUSH_GLOBAL, 3), (OP_CALL_NATIVE_ON_STACK, 0)]"

text \<open>
  The blocks, numbered as in the enumeration of the code: root 0, word variable 1, loop 2, loop body
  3, read 4, body chain 5, has token 6, lookup body 7, lookup 8, lookup chain 9, word found 10,
  engage 11, fallback 12, break 13.
\<close>

definition interpreter_blocks :: "block list" where
  "interpreter_blocks =
     [BLOCK_VAR 0 1, BLOCK_VAR 1 2, BLOCK_LOOP 3, BLOCK_MANY 4 5, BLOCK_BASIC \<lparr>r_start = 0, r_len = 3\<rparr>,
      BLOCK_CHAIN 6 BLOCK_INVALID, BLOCK_BRANCH \<lparr>r_start = 3, r_len = 1\<rparr> 7 13, BLOCK_MANY 8 9,
      BLOCK_BASIC \<lparr>r_start = 4, r_len = 3\<rparr>, BLOCK_CHAIN 10 BLOCK_INVALID, BLOCK_BRANCH \<lparr>r_start = 7, r_len = 1\<rparr> 11 12,
      BLOCK_BASIC \<lparr>r_start = 8, r_len = 3\<rparr>, BLOCK_BASIC \<lparr>r_start = 11, r_len = 2\<rparr>, BLOCK_BREAK 2]"

definition interpreter_func :: func where
  "interpreter_func = \<lparr>fn_name = Some ''frontend_interpreter'', fn_sig = \<lparr>s_ins = [], s_outs = []\<rparr>,
     fn_types = interpreter_types, fn_blocks = interpreter_blocks, fn_ops = interpreter_ops,
     fn_vars = [int_var ''has_token'', int_var ''word_handle'']\<rparr>"

definition interpreter_globals :: "fe_env \<Rightarrow> global list" where
  "interpreter_globals E = map (\<lambda>(tid, name, i). \<lparr>g_var = \<lparr>v_tid = tid, v_name = Some name\<rparr>, g_mem = en_static E i,
       g_owned = False, g_mut = False\<rparr>)
     [(2, ''next_token'', 0), (3, ''lookup_word'', 1), (4, ''engage_word'', 2), (5, ''interpret_fallback'', 3)]"

definition interpreter_ctx :: "fe_env \<Rightarrow> compile_ctx" where
  "interpreter_ctx E = \<lparr>x_globals = interpreter_globals E, x_funcs = [], x_code = [], x_code_cap = 0,
     x_placed = 0, x_place = en_code_place E\<rparr>"

definition compile_interpreter :: "fe_env \<Rightarrow> vm_code option" where
  "compile_interpreter E = map_option fst
     (vm_compile_no_defers (en_depth E) (en_blocks E) (en_alloc E) 0 interpreter_func (Some (interpreter_ctx E)))"

text \<open>The static cells with the addresses of the natives.\<close>

definition map_statics :: "fe_env \<Rightarrow> mem \<Rightarrow> mem" where
  "map_statics E = fold (\<lambda>i. map_bytes (en_static E i) (bytes_of_nat 8 (en_entry E i))) [0..<4]"

section \<open>Compiling a source text\<close>

definition empty_stacks :: "unit vm \<Rightarrow> unit vm" where
  "empty_stacks v = v\<lparr>vm_storage_len := 0, vm_params := [], vm_crashes := []\<rparr>"

definition begin_source :: "string \<Rightarrow> frontend \<Rightarrow> frontend" where
  "begin_source source fe = fe\<lparr>fe_error := FRONTEND_OK, fe_error_word := None, fe_source := source, fe_cursor := source,
     fe_current_token := None\<rparr>"

definition finish_source :: "vm_result \<Rightarrow> frontend \<Rightarrow> unit fres" where
  "finish_source r fe =
     (if r \<noteq> VM_OK
      then FFail (fe\<lparr>fe_error := (if fe_error fe = FRONTEND_OK then FRONTEND_INTERPRETER_RUNTIME_FAILED else fe_error fe)\<rparr>)
      else let fe = finish_implicit_epilogues fe in
        if fe_scopes fe \<noteq> [] then fail_with FRONTEND_BAD_CONTROL_FLOW fe else FOk () fe)"

definition frontend_compile_source :: "fe_env \<Rightarrow> string \<Rightarrow> frontend \<Rightarrow> unit fres" where
  "frontend_compile_source E source fe = fbind (frontend_prepare_func E fe) (\<lambda>_ fe.
     let fe = begin_source source fe in
     case compile_interpreter E of
       None \<Rightarrow> FUndef
     | Some code \<Rightarrow>
         if code_addr code = 0 then fail_with FRONTEND_INTERPRETER_COMPILE_FAILED fe
         else case run_vm E (interpreter_native E) code (map_statics E (fe_mem fe)) fe (empty_stacks (fe_interpreter_vm fe)) of
           None \<Rightarrow> FUndef
         | Some (r, v, m, fe) \<Rightarrow>
             finish_source r (fe\<lparr>fe_interpreter_vm := empty_stacks v, fe_mem := m, fe_interpreter_result := r\<rparr>))"

end
