(* ===== verification/Frontend_Frame.thy ===== *)
theory Frontend_Frame
  imports Interpreter
begin

text \<open>
  What a word, a number or a parenthesis leaves alone.  Outside macros every step of the frontend
  returns, with success or failure, and keeps the functions of the context, the name of the function,
  the words and the heap, except for the cells of literals; the cursor only moves forward.
\<close>

section \<open>Steps that return and keep a property\<close>

definition fe_total :: "(frontend \<Rightarrow> bool) \<Rightarrow> 'v fres \<Rightarrow> bool" where
  "fe_total P m \<longleftrightarrow> (case m of FOk x fe \<Rightarrow> P fe | FFail fe \<Rightarrow> P fe | FUndef \<Rightarrow> False)"

lemma fe_total_simps [simp]: "fe_total P (FOk x fe) \<longleftrightarrow> P fe" "fe_total P (FFail fe) \<longleftrightarrow> P fe" "\<not> fe_total P FUndef"
  by (simp_all add: fe_total_def)

named_theorems fe_intros \<open>steps of the frontend that return and keep the frame\<close>

lemma fe_total_bind [fe_intros]: "fe_total P m \<Longrightarrow> (\<And>x fe. P fe \<Longrightarrow> fe_total P (f x fe)) \<Longrightarrow> fe_total P (fbind m f)"
  by (cases m) auto

lemma fe_total_if [fe_intros]: "(b \<Longrightarrow> fe_total P m) \<Longrightarrow> (\<not> b \<Longrightarrow> fe_total P m') \<Longrightarrow> fe_total P (if b then m else m')"
  by simp

lemma fe_total_ends [fe_intros]: "P fe \<Longrightarrow> fe_total P (FOk x fe)" "P fe \<Longrightarrow> fe_total P (FFail fe)"
  by simp_all

fun is_macro :: "word_data \<Rightarrow> bool" where
  "is_macro (FRONTEND_WORD_IMMEDIATE k f) \<longleftrightarrow> k = FRONTEND_IMMEDIATE_FUNC"
| "is_macro _ \<longleftrightarrow> False"

text \<open>The heap changes by the cells of literals: a fresh one is written, and freed again when the literal cannot be registered.\<close>

inductive heap_grows :: "fe_env \<Rightarrow> mem \<Rightarrow> mem \<Rightarrow> bool" for E :: fe_env and m0 :: mem where
  heap_same: "heap_grows E m0 m0"
| heap_new: "heap_grows E m0 m \<Longrightarrow> length bs = 8 \<Longrightarrow> heap_grows E m0 (map_bytes (en_place E m 8) bs m)"
| heap_drop: "heap_grows E m0 m \<Longrightarrow> length bs = 8 \<Longrightarrow> heap_grows E m0 (unmap (en_place E m 8) 8 (map_bytes (en_place E m 8) bs m))"

definition fe_frame :: "fe_env \<Rightarrow> frontend \<Rightarrow> frontend \<Rightarrow> bool" where
  "fe_frame E fe0 fe \<longleftrightarrow> x_funcs (fe_ctx fe) = x_funcs (fe_ctx fe0) \<and> fn_name (fe_func fe) = fn_name (fe_func fe0)
     \<and> fe_words fe = fe_words fe0 \<and> length (fe_cursor fe) \<le> length (fe_cursor fe0) \<and> heap_grows E (fe_mem fe0) (fe_mem fe)"

lemma fe_frame_refl [simp]: "fe_frame E fe fe"
  by (simp add: fe_frame_def heap_same)

lemmas fe_fails = fail_with_def fail_at_def bad_control_def

lemma frame_next_token: "fe_frame E0 fe0 fe \<Longrightarrow> next_token fe = (r, fe') \<Longrightarrow> fe_frame E0 fe0 fe'"
  by (auto simp: next_token_def fe_frame_def split: option.splits prod.splits dest!: lex_token_shorter)

lemma next_token_shorter: "next_token fe = (Some t, fe') \<Longrightarrow> length (fe_cursor fe') < length (fe_cursor fe)"
  by (auto simp: next_token_def split: option.splits prod.splits dest!: lex_token_shorter)

lemma frame_prepare [fe_intros]: "fe_frame E0 fe0 fe \<Longrightarrow> fe_total (fe_frame E0 fe0) (frontend_prepare_func E fe)"
  by (auto simp: frontend_prepare_func_def fe_fails set_blocks_def fe_frame_def split: list.split)

lemma frame_emit_op [fe_intros]: "fe_frame E0 fe0 fe \<Longrightarrow> fe_total (fe_frame E0 fe0) (frontend_emit_op E x fe)"
  unfolding frontend_emit_op_def
  by (intro fe_intros) (auto simp: fe_fails set_blocks_def fe_frame_def Let_def split: option.split)

lemma frame_named_var [fe_intros]: "fe_frame E0 fe0 fe \<Longrightarrow> fe_total (fe_frame E0 fe0) (emit_named_var E t fe)"
  unfolding emit_named_var_def by (auto split: option.split intro: fe_intros)

lemma frame_parse_name [fe_intros]: "fe_frame E0 fe0 fe \<Longrightarrow> fe_total (fe_frame E0 fe0) (frontend_parse_name fe)"
  unfolding frontend_parse_name_def
  by (auto simp: fe_fails fe_frame_def split: prod.split option.split dest!: frame_next_token [of E0 fe0 fe, rotated])

lemma frame_parse_number [fe_intros]: "fe_frame E0 fe0 fe \<Longrightarrow> fe_total (fe_frame E0 fe0) (frontend_parse_number fe)"
  unfolding frontend_parse_number_def
  by (auto simp: fe_fails fe_frame_def split: prod.split option.split dest!: frame_next_token [of E0 fe0 fe, rotated])

lemma frame_intern [fe_intros]: "fe_frame E0 fe0 fe \<Longrightarrow> fe_total (fe_frame E0 fe0) (intern_type E ty fe)"
  by (auto simp: intern_type_def append_type_def Let_def fe_fails fe_frame_def split: option.split)

lemma frame_fail [fe_intros]:
  "fe_frame E0 fe0 fe \<Longrightarrow> fe_total (fe_frame E0 fe0) (fail_with e fe)" "fe_frame E0 fe0 fe \<Longrightarrow> fe_total (fe_frame E0 fe0) (fail_at e t fe)"
  "fe_frame E0 fe0 fe \<Longrightarrow> fe_total (fe_frame E0 fe0) (bad_control fe)"
  by (simp_all add: fe_fails fe_frame_def)

lemma parse_name_shorter: "frontend_parse_name fe = FOk t fe' \<Longrightarrow> length (fe_cursor fe') < length (fe_cursor fe)"
  by (auto simp: frontend_parse_name_def fail_with_def split: prod.splits option.splits if_splits dest: next_token_shorter)

text \<open>A type costs a token for each constructor, so the fuel for it never runs out.\<close>

lemma frame_parse_type:
  "fe_frame E0 fe0 fe \<Longrightarrow> length (fe_cursor fe) < n \<Longrightarrow> fe_total (fe_frame E0 fe0) (parse_type_fuel n E fe)"
proof (induction n arbitrary: fe)
  case (Suc n)
  have named: "fe_total (fe_frame E0 fe0) (case find_name t 0 xs of Some i \<Rightarrow> FOk i fe | None \<Rightarrow> fail_at FRONTEND_UNKNOWN_TYPE t fe)"
    if "fe_frame E0 fe0 fe" for t xs fe using that by (auto split: option.split intro: fe_intros)
  show ?case
  proof (cases "frontend_parse_name fe")
    case (FOk t fe1)
    have f1: "fe_frame E0 fe0 fe1" using frame_parse_name [OF Suc.prems(1)] FOk by simp
    have l1: "length (fe_cursor fe1) < n" using parse_name_shorter [OF FOk] Suc.prems(2) by simp
    have elem: "fe_total (fe_frame E0 fe0) (fbind (parse_type_fuel n E fe2) (\<lambda>e. intern_type E (ty e)))"
      if "fe_frame E0 fe0 fe2" "length (fe_cursor fe2) < n" for fe2 ty
      using that by (intro fe_intros Suc.IH)
    have array: "fe_total (fe_frame E0 fe0) (fbind (frontend_parse_number fe1) (\<lambda>c fe.
       if c < 0 \<or> 4294967295 < c then fail_with FRONTEND_BAD_NUMBER fe
       else fbind (parse_type_fuel n E fe) (\<lambda>e. intern_type E (type_array e (nat c)))))"
    proof (cases "frontend_parse_number fe1")
      case (FOk c fe2)
      have "fe_frame E0 fe0 fe2" "fe_frame E0 fe1 fe2"
        using frame_parse_number [OF f1] frame_parse_number [OF fe_frame_refl, of E0 fe1] FOk by simp_all
      moreover from this(2) l1 have "length (fe_cursor fe2) < n" by (simp add: fe_frame_def)
      ultimately show ?thesis using FOk elem by (auto intro: frame_fail)
    qed (use frame_parse_number [OF f1] in simp_all)
    show ?thesis using FOk f1 l1 elem array named by simp
  qed (use frame_parse_name [OF Suc.prems(1)] in simp_all)
qed simp

lemma frame_blocks [fe_intros]:
  "fe_frame E0 fe0 fe \<Longrightarrow> fe_total (fe_frame E0 fe0) (grow_blocks E n fe)" "fe_frame E0 fe0 fe \<Longrightarrow> fe_total (fe_frame E0 fe0) (push_scope E s fe)"
  "fe_frame E0 fe0 fe \<Longrightarrow> fe_total (fe_frame E0 fe0) (append_var E v fe)"
  by (auto simp: grow_blocks_def push_scope_def append_var_def Let_def fe_fails fe_frame_def split: option.split)

lemma frame_updates [simp]:
  "fe_frame E0 fe0 (set_blocks bs fe) = fe_frame E0 fe0 fe" "fe_frame E0 fe0 (pop_scope fe) = fe_frame E0 fe0 fe"
  "fe_frame E0 fe0 (set_top_scope s fe) = fe_frame E0 fe0 fe" "fe_frame E0 fe0 (start_block i fe) = fe_frame E0 fe0 fe"
  "fe_frame E0 fe0 (resume_at i d fe) = fe_frame E0 fe0 fe" "fe_frame E0 fe0 (leave_scope_of fe) = fe_frame E0 fe0 fe"
  "fe_frame E0 fe0 (fe\<lparr>fe_current_basic := i\<rparr>) = fe_frame E0 fe0 fe" "fe_frame E0 fe0 (fe\<lparr>fe_scope_depth := d\<rparr>) = fe_frame E0 fe0 fe"
  "fe_frame E0 fe0 (fe\<lparr>fe_current_token := t\<rparr>) = fe_frame E0 fe0 fe"
  "fe_frame E0 fe0 (fe\<lparr>fe_owned_names := ns\<rparr>) = fe_frame E0 fe0 fe" "fe_frame E0 fe0 (fe\<lparr>fe_owned_names_cap := i\<rparr>) = fe_frame E0 fe0 fe"
  "fe_frame E0 fe0 (fe\<lparr>fe_error := er\<rparr>) = fe_frame E0 fe0 fe"
  "fe_frame E0 fe0 (fe\<lparr>fe_interpreter_vm := vm\<rparr>) = fe_frame E0 fe0 fe" "fe_frame E0 fe0 (fe\<lparr>fe_interpreter_result := r\<rparr>) = fe_frame E0 fe0 fe"
  by (simp_all add: fe_frame_def set_blocks_def pop_scope_def set_top_scope_def start_block_def resume_at_def leave_scope_of_def Let_def)

lemma frame_finish_implicit [simp]: "fe_frame E0 fe0 (finish_implicit_epilogues fe) = fe_frame E0 fe0 fe"
  by (induction fe rule: finish_implicit_epilogues.induct) (subst finish_implicit_epilogues.simps, simp)


lemma frame_wrap [fe_intros]:
  "fe_frame E0 fe0 fe \<Longrightarrow> fe_total (fe_frame E0 fe0) (wrap_current E middle fe)"
  "fe_frame E0 fe0 fe \<Longrightarrow> fe_total (fe_frame E0 fe0) (append_basic_block E fe)"
  unfolding wrap_current_def append_basic_block_def Let_def by (intro fe_intros; simp)+

lemma frame_open_var [fe_intros]: "fe_frame E0 fe0 fe \<Longrightarrow> fe_total (fe_frame E0 fe0) (open_var_block E v fe)"
  unfolding open_var_block_def Let_def by (intro fe_intros; simp)

lemma frame_declare [fe_intros]: "fe_frame E0 fe0 fe \<Longrightarrow> fe_total (fe_frame E0 fe0) (frontend_declare_var E tid t fe)"
  unfolding frontend_declare_var_def by (auto split: option.split intro!: fe_intros)

lemma frame_run_var [fe_intros]: "fe_frame E0 fe0 fe \<Longrightarrow> fe_total (fe_frame E0 fe0) (run_var E fe)"
  unfolding run_var_def frontend_parse_type_def by (intro fe_intros frame_parse_type) simp_all

lemma frame_control [fe_intros]: "fe_frame E0 fe0 fe \<Longrightarrow> fe_total (fe_frame E0 fe0) (run_control E k fe)"
proof -
  have opens: "fe_total (fe_frame E0 fe0) (begin_loop E fe)" "fe_total (fe_frame E0 fe0) (begin_if E fe)"
    "fe_total (fe_frame E0 fe0) (begin_epilogue E b fe)" "fe_total (fe_frame E0 fe0) (emit_loop_exit E b fe)" if "fe_frame E0 fe0 fe" for b fe
    unfolding begin_loop_def begin_if_def begin_epilogue_def emit_loop_exit_def Let_def case_prod_beta
    by (intro fe_intros that; use that in simp)+
  have closes: "fe_total (fe_frame E0 fe0) (end_loop fe)" "fe_total (fe_frame E0 fe0) (begin_else fe)" "fe_total (fe_frame E0 fe0) (end_if fe)"
    "fe_total (fe_frame E0 fe0) (begin_cleanup fe)" "fe_total (fe_frame E0 fe0) (finish_epilogue fe)" if "fe_frame E0 fe0 fe" for fe
    unfolding end_loop_def begin_else_def end_if_def begin_cleanup_def finish_epilogue_def Let_def
    by (intro fe_intros that; use that in simp)+
  assume fe: "fe_frame E0 fe0 fe"
  have "fe_total (fe_frame E0 fe0) (control_step E k (if closes_epilogues k then finish_implicit_epilogues fe else fe))"
    using fe by (cases k) (simp_all add: opens closes closes_epilogues_def)
  then show ?thesis unfolding run_control_def using fe by (intro fe_intros)
qed

lemma frame_delimiter [fe_intros]: "fe_frame E0 fe0 fe \<Longrightarrow> fe_total (fe_frame E0 fe0) (handle_delimiter opened fe)"
  unfolding handle_delimiter_def Let_def by (intro fe_intros; simp)

lemma frame_global [fe_intros]: "fe_frame E0 fe0 fe \<Longrightarrow> fe_total (fe_frame E0 fe0) (append_owned_global E g fe)"
  by (auto simp: append_owned_global_def Let_def fe_fails fe_frame_def split: option.split)

lemma append_global_mem: "append_owned_global E g fe = FOk i fe' \<Longrightarrow> fe_mem fe' = fe_mem fe" "append_owned_global E g fe = FFail fe' \<Longrightarrow> fe_mem fe' = fe_mem fe"
  by (auto simp: append_owned_global_def Let_def fe_fails split: option.splits if_splits)

lemma frame_number [fe_intros]: "fe_frame E fe0 fe \<Longrightarrow> fe_total (fe_frame E fe0) (emit_number E t fe)"
proof -
  assume s: "fe_frame E fe0 fe"
  have "fe_total (fe_frame E fe0) (case append_owned_global E g (fe\<lparr>fe_mem := map_bytes (en_place E (fe_mem fe) 8) bs (fe_mem fe)\<rparr>) of
         FOk g fe \<Rightarrow> frontend_emit_op E \<lparr>o_kind = OP_PUSH_GLOBAL, o_extra = g\<rparr> fe
       | FFail fe' \<Rightarrow> FFail (fe'\<lparr>fe_mem := unmap (en_place E (fe_mem fe) 8) 8 (fe_mem fe')\<rparr>) | FUndef \<Rightarrow> FUndef)"
    if "length bs = 8" for g bs
  proof -
    let ?fe = "fe\<lparr>fe_mem := map_bytes (en_place E (fe_mem fe) 8) bs (fe_mem fe)\<rparr>"
    have f: "fe_frame E fe0 ?fe" using s heap_new [OF _ that] by (simp add: fe_frame_def)
    show ?thesis
    proof (cases "append_owned_global E g ?fe")
      case (FFail fe1)
      then have "fe_mem fe1 = fe_mem ?fe" "fe_frame E fe0 fe1" using append_global_mem(2) [OF FFail] frame_global [OF f, of E g] by simp_all
      then show ?thesis using FFail s heap_drop [OF _ that] by (simp add: fe_frame_def)
    qed (use frame_global [OF f, of E g] frame_emit_op in auto)
  qed
  then show ?thesis unfolding emit_number_def Let_def using s by (auto split: prod.split intro!: fe_intros)
qed

lemma frame_fallback [fe_intros]: "fe_frame E fe0 fe \<Longrightarrow> fe_total (fe_frame E fe0) (compile_fallback E t fe)"
  using frame_named_var [of E fe0 fe E t] unfolding compile_fallback_def
  by (cases "emit_named_var E t fe") (auto intro!: fe_intros)

lemma frame_engage:
  assumes "fe_frame E fe0 fe" "\<not> is_macro (w_data w)" shows "fe_total (fe_frame E fe0) (engage_word E w fe)"
  unfolding engage_word_def using assms by (cases "w_data w") (auto intro!: fe_intros)

section \<open>Handling a token\<close>

text \<open>What the interpreter does with a token: engage its word, fall back, or count a parenthesis.\<close>

datatype token_event = Engage frontend_word | Fallback parsed_name | Delimiter bool

fun token_step :: "fe_env \<Rightarrow> token_event \<Rightarrow> frontend \<Rightarrow> unit fres" where
  "token_step E (Engage w) fe = engage_word E w fe"
| "token_step E (Fallback t) fe = compile_fallback E t fe"
| "token_step E (Delimiter opened) fe = handle_delimiter opened fe"

text \<open>The event a token is: parentheses are known before words, the first word of that name wins.\<close>

definition event_of :: "frontend \<Rightarrow> parsed_name \<Rightarrow> token_event" where
  "event_of fe t =
     (if is_delimiter t then Delimiter (hd (pn_text t) = CHR ''('')
      else case find_word fe t of Some i \<Rightarrow> Engage (fe_words fe ! i) | None \<Rightarrow> Fallback t)"

text \<open>No word is a macro; frames keep it that way.\<close>

definition no_macros :: "frontend \<Rightarrow> bool" where
  "no_macros fe \<longleftrightarrow> (\<forall>w\<in>set (fe_words fe). \<not> is_macro (w_data w))"

lemma find_name_less: "find_name t i ns = Some j \<Longrightarrow> j < i + length ns"
  by (induction ns arbitrary: i) (fastforce split: if_splits)+

lemma find_word_less: "find_word fe t = Some i \<Longrightarrow> i < length (fe_words fe)"
  using find_name_less [of t 0] by (fastforce simp: find_word_def)

lemma frame_token_step:
  assumes "fe_frame E fe0 fe" "no_macros fe" shows "fe_total (fe_frame E fe0) (token_step E (event_of fe t) fe)"
  using assms find_word_less [of fe t] frame_engage frame_fallback frame_delimiter
  by (auto simp: event_of_def no_macros_def split: option.split)

end
