(* ===== verification/Frontend_Props.thy ===== *)
theory Frontend_Props
  imports Frontend_Inv Frontend_Frame Lowering_Props Compiler_Props
begin

text \<open>
  Functions built by the frontend: every word and parenthesis the interpreter handles keeps the
  block array a tree with the current block in it, a break leaves the innermost loop, and the tree
  is one the lowering accepts.
\<close>

section \<open>Building\<close>

text \<open>
  Steps left out: macros, whose natives may do anything to the frontend; a variable in the condition
  of an \<^verbatim>\<open>If\<close> or beyond the index range of the blocks; the end of the cleanup of a prefix defer at
  another depth than its start, which a variable or a finished loop inside the cleanup leads to.
\<close>

definition allowed :: "token_event \<Rightarrow> frontend \<Rightarrow> bool" where
  "allowed s fe \<longleftrightarrow> (case s of
       Engage w \<Rightarrow> (case w_data w of
           FRONTEND_WORD_IMMEDIATE k f \<Rightarrow> k \<noteq> FRONTEND_IMMEDIATE_FUNC
             \<and> (k = FRONTEND_IMMEDIATE_VAR \<longrightarrow> \<not> in_condition fe \<and> block_count fe + 4 < BLOCK_INVALID)
         | _ \<Rightarrow> True)
     | Fallback t \<Rightarrow> True
     | Delimiter opened \<Rightarrow> closes_cleanup fe \<and> \<not> opened \<longrightarrow> fe_scope_depth fe = fs_parent_depth (top_scope fe) + 2)"

text \<open>A frontend whose function has no blocks yet.\<close>

definition unbuilt :: "frontend \<Rightarrow> bool" where
  "unbuilt fe \<longleftrightarrow> fe_blocks fe = [] \<and> fe_scopes fe = [] \<and> fe_scope_depth fe = 0"

text \<open>The states while a source is compiled: after its preparation, a token read, and a token handled.\<close>

inductive built :: "fe_env \<Rightarrow> string \<Rightarrow> frontend \<Rightarrow> frontend \<Rightarrow> bool" for E :: fe_env and source :: string and fe0 :: frontend where
  built_start: "frontend_prepare_func E fe0 = FOk () fe \<Longrightarrow> built E source fe0 (begin_source source fe)"
| built_read: "built E source fe0 fe1 \<Longrightarrow> next_token fe1 = (Some t, fe2) \<Longrightarrow> built E source fe0 (fe2\<lparr>fe_current_token := Some t\<rparr>)"
| built_word: "built E source fe0 fe1 \<Longrightarrow> fe_current_token fe1 = Some t \<Longrightarrow> allowed (event_of fe1 t) fe1
    \<Longrightarrow> token_step E (event_of fe1 t) fe1 = FOk () fe2 \<Longrightarrow> built E source fe0 fe2"

inductive_cases built_cases: "built E source fe0 fe"

text \<open>Reading a source to its end, as the interpreter does, while the events satisfy \<open>P\<close>.\<close>

primrec read_tokens :: "(token_event \<Rightarrow> frontend \<Rightarrow> bool) \<Rightarrow> nat \<Rightarrow> fe_env \<Rightarrow> frontend \<Rightarrow> unit fres" where
  "read_tokens P 0 E fe = FUndef"
| "read_tokens P (Suc n) E fe = (case next_token fe of
     (None, fe) \<Rightarrow> FOk () fe
   | (Some t, fe) \<Rightarrow> let fe = fe\<lparr>fe_current_token := Some t\<rparr> in
       if P (event_of fe t) fe then fbind (token_step E (event_of fe t) fe) (\<lambda>_. read_tokens P n E) else FUndef)"

section \<open>Every step keeps the tree\<close>

lemma next_token_blocks: "next_token fe = (r, fe') \<Longrightarrow> \<exists>c. fe' = fe\<lparr>fe_cursor := c\<rparr>"
  by (auto simp: next_token_def split: option.splits prod.splits) (metis frontend.surjective frontend.update_convs(8))

definition same_shape :: "frontend \<Rightarrow> frontend \<Rightarrow> bool" where
  "same_shape fe fe' \<longleftrightarrow> fe_blocks fe' = fe_blocks fe \<and> fe_scopes fe' = fe_scopes fe
     \<and> fe_current_basic fe' = fe_current_basic fe \<and> fe_scope_depth fe' = fe_scope_depth fe"

lemma same_shape_trans: "same_shape a b \<Longrightarrow> same_shape b c \<Longrightarrow> same_shape a c"
  by (simp add: same_shape_def)

lemma parse_name_shape: "frontend_parse_name fe = FOk t fe' \<Longrightarrow> same_shape fe fe'"
  by (auto simp: frontend_parse_name_def fail_with_def same_shape_def split: prod.splits option.splits if_splits dest!: next_token_blocks)

lemma parse_number_shape: "frontend_parse_number fe = FOk t fe' \<Longrightarrow> same_shape fe fe'"
  by (auto simp: frontend_parse_number_def fail_with_def fail_at_def same_shape_def split: prod.splits option.splits if_splits dest!: next_token_blocks)

lemma intern_type_shape: "intern_type E ty fe = FOk i fe' \<Longrightarrow> same_shape fe fe'"
  by (auto simp: intern_type_def append_type_def Let_def fail_with_def same_shape_def split: option.splits)

lemma parse_type_shape: "parse_type_fuel n E fe = FOk i fe' \<Longrightarrow> same_shape fe fe'"
proof (induction n arbitrary: fe i fe')
  case (Suc n)
  from Suc.prems obtain t fe1 where t: "frontend_parse_name fe = FOk t fe1" by (auto simp: fbind_FOk)
  note s1 = parse_name_shape [OF t]
  consider "fe' = fe1" | e ty where "parse_type_fuel n E fe1 = FOk e ty" "intern_type E (type_slice e) ty = FOk i fe'"
    | e ty where "parse_type_fuel n E fe1 = FOk e ty" "intern_type E (type_view e) ty = FOk i fe'"
    | c fe2 e ty where "frontend_parse_number fe1 = FOk c fe2" "parse_type_fuel n E fe2 = FOk e ty" "intern_type E (type_array e (nat c)) ty = FOk i fe'"
    using Suc.prems by (auto simp: fbind_FOk t fail_with_def fail_at_def split: if_splits option.splits)
  then show ?case
    by cases (use s1 Suc.IH intern_type_shape parse_number_shape same_shape_trans in metis)+
qed simp

lemma tree_at_shape: "tree_at fe p \<Longrightarrow> same_shape fe fe' \<Longrightarrow> tree_at fe' p"
  by (simp add: same_shape_def)

lemma run_var_tree:
  assumes "tree_at fe p" "fe_scopes fe \<noteq> [] \<Longrightarrow> \<not> waiting (top_scope fe)" "block_count fe + 4 < BLOCK_INVALID" "run_var E fe = FOk u fe'"
  shows "tree_inv fe'"
proof -
  from assms(4) obtain tid fe1 t fe2 where f: "frontend_parse_type E fe = FOk tid fe1" "frontend_parse_name fe1 = FOk t fe2"
    "frontend_declare_var E tid t fe2 = FOk u fe'"
    by (auto simp: run_var_def fbind_FOk)
  have s: "same_shape fe fe2"
    using parse_type_shape [of _ E fe tid fe1] parse_name_shape [OF f(2)] f(1) same_shape_trans unfolding frontend_parse_type_def by blast
  show ?thesis using declare_var_tree [OF tree_at_shape [OF assms(1) s] _ _ f(3)] assms(2,3) s by (simp add: same_shape_def)
qed

lemma append_global_shape: "append_owned_global E g fe = FOk i fe' \<Longrightarrow> same_shape fe fe'"
  by (auto simp: append_owned_global_def Let_def fail_with_def same_shape_def split: option.splits if_splits)

lemma emit_number_tree: "tree_at fe p \<Longrightarrow> emit_number E t fe = FOk u fe' \<Longrightarrow> tree_at fe' p"
proof -
  assume p: "tree_at fe p" and f: "emit_number E t fe = FOk u fe'"
  from f obtain a m g fe1 where g: "append_owned_global E a (fe\<lparr>fe_mem := m\<rparr>) = FOk g fe1"
    "frontend_emit_op E \<lparr>o_kind = OP_PUSH_GLOBAL, o_extra = g\<rparr> fe1 = FOk u fe'"
    by (auto simp: emit_number_def Let_def fail_with_def fail_at_def split: prod.splits if_splits fres.splits)
  have "tree_at fe1 p" using p append_global_shape [OF g(1)] by (simp add: same_shape_def)
  from emit_op_tree [OF this g(2)] show ?thesis .
qed

lemma fallback_tree: "tree_at fe p \<Longrightarrow> compile_fallback E t fe = FOk u fe' \<Longrightarrow> tree_inv fe'"
proof -
  assume p: "tree_at fe p" and f: "compile_fallback E t fe = FOk u fe'"
  show ?thesis
  proof (cases "find_name t 0 (map v_name (fn_vars (fe_func fe)))")
    case None
    then have "emit_number E t fe = FOk u fe'"
      using f by (auto simp: compile_fallback_def emit_named_var_def bad_control_def fail_at_def split: if_splits)
    then show ?thesis using emit_number_tree [OF p] unfolding tree_inv_def by blast
  next
    case (Some i)
    let ?x = "\<lparr>o_kind = (if i < sig_len (fn_sig (fe_func fe)) then OP_PUSH_ARG else OP_PUSH_VAR), o_extra = u16 i\<rparr>"
    have "frontend_emit_op E ?x fe = FOk u fe' \<or> (\<exists>fe1. frontend_emit_op E ?x fe = FFail fe1 \<and> emit_number E t fe1 = FOk u fe')"
      using f Some by (auto simp: compile_fallback_def emit_named_var_def bad_control_def fail_at_def split: if_splits fres.splits)
    moreover have "tree_at fe1 p" if "frontend_emit_op E ?x fe = FFail fe1" for fe1
      using that p prepare_tree [OF p, of E] by (auto simp: frontend_emit_op_def Let_def fail_with_def split: option.splits if_splits)
    ultimately show ?thesis using p emit_op_tree emit_number_tree unfolding tree_inv_def by blast
  qed
qed

lemma run_control_tree:
  assumes t: "tree_at fe p" and f: "run_control E k fe = FOk u fe'"
  shows "tree_inv fe'"
proof -
  have w: "fe_scopes fe \<noteq> [] \<Longrightarrow> \<not> waiting (top_scope fe)" and
    g: "control_step E k (if closes_epilogues k then finish_implicit_epilogues fe else fe) = FOk u fe'"
    using f by (auto simp: run_control_def waiting_def bad_control_def split: if_splits)
  obtain q where q: "tree_at (finish_implicit_epilogues fe) q" using finish_implicit_tree t by (auto simp: tree_inv_def)
  have exit: "emit_loop_exit E c fe = FOk u fe' \<Longrightarrow> tree_inv fe'" for c using loop_exit_tree [OF t w] unfolding tree_inv_def by blast
  show ?thesis using g begin_loop_tree [OF t w] begin_if_tree [OF t w] begin_epilogue_tree [OF t w] exit
      end_loop_tree [OF q] begin_else_tree [OF q] end_if_tree [OF q] begin_cleanup_tree [OF q] finish_epilogue_tree [OF q]
    by (cases k) (simp_all add: closes_epilogues_def)
qed

lemma token_step_tree:
  assumes t: "tree_inv fe" and a: "allowed s fe" and f: "token_step E s fe = FOk u fe'"
  shows "tree_inv fe'"
proof -
  obtain p where p: "tree_at fe p" using t by (auto simp: tree_inv_def)
  show ?thesis
  proof (cases s)
    case (Engage w)
    have e: "engage_word E w fe = FOk u fe'" and r: "ready_for_word fe"
      using f Engage by (auto simp: engage_word_def bad_control_def split: if_splits)
    have op: "tree_inv fe'" if "frontend_emit_op E x fe = FOk u fe'" for x using emit_op_tree [OF p that] by (auto simp: tree_inv_def)
    show ?thesis
    proof (cases "w_data w")
      case (FRONTEND_WORD_OP x)
      then show ?thesis using e r op by (simp add: engage_word_def)
    next
      case (FRONTEND_WORD_FUNC x)
      then show ?thesis using e r op by (simp add: engage_word_def)
    next
      case (FRONTEND_WORD_NATIVE g)
      then obtain u1 fe1 where "frontend_emit_op E \<lparr>o_kind = OP_PUSH_GLOBAL, o_extra = g\<rparr> fe = FOk u1 fe1"
        "frontend_emit_op E (plain_op OP_CALL_NATIVE_ON_STACK) fe1 = FOk u fe'"
        using e r by (auto simp: engage_word_def fbind_FOk)
      then show ?thesis using emit_op_tree p unfolding tree_inv_def by blast
    next
      case (FRONTEND_WORD_IMMEDIATE k n)
      show ?thesis
      proof (cases "k = FRONTEND_IMMEDIATE_VAR")
        case True
        have c: "\<not> in_condition fe" "block_count fe + 4 < BLOCK_INVALID" "run_var E fe = FOk u fe'"
          using a e r Engage FRONTEND_WORD_IMMEDIATE True by (auto simp: allowed_def engage_word_def)
        have "\<not> waiting (top_scope fe)" if ne: "fe_scopes fe \<noteq> []"
        proof -
          obtain q where "scope_ok (fe_blocks fe) (top_scope fe) q" using tree_ok_top [OF p ne] by metis
          then have "phase_ok (top_scope fe)" by (simp add: scope_ok_def)
          then show ?thesis using waiting_iff [of "top_scope fe"] c(1) r ne by (auto simp: in_condition_def ready_for_word_def)
        qed
        from run_var_tree [OF p this c(2,3)] show ?thesis .
      next
        case False
        then show ?thesis using a e r Engage FRONTEND_WORD_IMMEDIATE run_control_tree [OF p] by (simp add: allowed_def engage_word_def)
      qed
    qed
  next
    case (Fallback t)
    then show ?thesis using f fallback_tree [OF p] by simp
  next
    case (Delimiter opened)
    then show ?thesis using f a delimiter_tree [OF p] by (simp add: allowed_def)
  qed
qed

lemma prepared_tree:
  assumes "unbuilt fe0" "frontend_prepare_func E fe0 = FOk () fe" shows "tree_inv (begin_source source fe)"
proof -
  have "fe_blocks fe = [BLOCK_BASIC \<lparr>r_start = 0, r_len = 0\<rparr>]" "fe_scopes fe = []" "fe_scope_depth fe = 0" "fe_current_basic fe = 0"
    using assms by (auto simp: unbuilt_def frontend_prepare_func_def fail_with_def set_blocks_def split: if_splits)
  moreover have "shaped [BLOCK_BASIC \<lparr>r_start = 0, r_len = 0\<rparr>] (\<lambda>i. 0) 0 0" by (rule shaped_leaf) simp_all
  ultimately show ?thesis unfolding tree_inv_def tree_ok_def
    by (intro exI [of _ "[]"]) (auto intro: inside_root simp: BLOCK_INVALID_def begin_source_def)
qed

lemma built_tree: "built E source fe0 fe \<Longrightarrow> unbuilt fe0 \<Longrightarrow> tree_inv fe"
proof (induction rule: built.induct)
  case (built_start fe)
  then show ?case by (rule prepared_tree [rotated])
next
  case (built_read fe1 t fe2)
  then show ?case by (auto simp: tree_inv_def dest!: next_token_blocks)
next
  case (built_word fe1 t fe2)
  then show ?case using token_step_tree by blast
qed

lemma read_tokens_built: "read_tokens allowed n E fe1 = FOk u fe2 \<Longrightarrow> built E source fe0 fe1 \<Longrightarrow> built E source fe0 fe2"
proof (induction n arbitrary: fe1)
  case (Suc n)
  obtain r fe where r: "next_token fe1 = (r, fe)" by (cases "next_token fe1")
  show ?case
  proof (cases r)
    case None
    then have "fe = fe1" using r by (auto simp: next_token_def split: option.splits prod.splits)
    then show ?thesis using Suc.prems r None by simp
  next
    case (Some t)
    let ?fe = "fe\<lparr>fe_current_token := Some t\<rparr>"
    have b: "built E source fe0 ?fe" using built_read [OF Suc.prems(2)] r Some by blast
    obtain fe3 where "allowed (event_of ?fe t) ?fe" "token_step E (event_of ?fe t) ?fe = FOk () fe3" "read_tokens allowed n E fe3 = FOk u fe2"
      using Suc.prems(1) r Some by (auto simp: Let_def fbind_FOk split: if_splits)
    then show ?thesis using Suc.IH built_word [OF b] by simp
  qed
qed simp

section \<open>What is built\<close>

lemma shaped_tree:
  "shaped bs D i d \<Longrightarrow> \<forall>d'\<ge>d. \<exists>t. block_tree bs UNIV i t \<and> levels_ok d' t"
  "shaped_chain bs D j k d \<Longrightarrow> \<forall>d'\<ge>d. \<exists>ts. chain_tree bs UNIV j k ts \<and> levels_ok_list d' ts"
proof (induction rule: shaped_shaped_chain.inducts)
  case (shaped_basic i r d) then show ?case by (metis UNIV_I basic levels_ok.simps(1))
next
  case (shaped_defer i j k d)
  then show ?case by (metis UNIV_I deferred levels_ok.simps(2) Suc_le_mono)
next
  case (shaped_many i j k d) then show ?case by (metis UNIV_I many levels_ok.simps(3) Suc_le_mono)
next
  case (shaped_branch i c j k d) then show ?case by (metis UNIV_I branch levels_ok.simps(7) le_Suc_eq)
next
  case (shaped_loop i j d) then show ?case by (metis UNIV_I loop levels_ok.simps(8) Suc_le_mono)
next
  case (shaped_break i l d) then show ?case by (metis UNIV_I break levels_ok.simps(9) le_SucI le_trans)
next
  case (shaped_var i v j d) then show ?case by (metis UNIV_I var levels_ok.simps(10) Suc_le_mono)
next
  case (shaped_last j d) then show ?case by (metis chain_last levels_ok_list.simps)
next
  case (shaped_link j d k j' k') then show ?case by (metis UNIV_I chain_link levels_ok_list.simps(2))
qed



lemma tree_inv_lowers:
  assumes "tree_inv fe"
  shows "\<exists>t. block_tree (fe_blocks fe) UNIV 0 t \<and> levels_ok 0 t \<and> (\<forall>fuel\<ge>height t. remove_defers fuel (fe_blocks fe) \<noteq> None)"
proof -
  obtain p where "tree_at fe p" using assms by (auto simp: tree_inv_def)
  then obtain D where "shaped (fe_blocks fe) D 0 0" using tree_ok_shape by blast
  then obtain t where t: "block_tree (fe_blocks fe) UNIV 0 t" "levels_ok 0 t" using shaped_tree(1) by blast
  have "remove_defers fuel (fe_blocks fe) \<noteq> None" if "height t \<le> fuel" for fuel
    using returns_whenD [OF remove_defers_returns(1) [OF t(1) that], of "[]"] t(2) by (simp add: remove_defers_def)
  then show ?thesis using t by blast
qed


section \<open>Sources\<close>

text \<open>A machine with enough memory, a frontend with the core words and an empty function.\<close>

definition demo_env :: fe_env where
  "demo_env = \<lparr>en_alloc = (\<lambda>n. True), en_place = (\<lambda>m n. 4096), en_macro = (\<lambda>i v. None), en_entry = (\<lambda>i. i + 1),
     en_static = (\<lambda>i. 64 + 8 * i), en_code_place = (\<lambda>i. 8192), en_depth = 3, en_blocks = 40, en_steps = 100\<rparr>"

definition demo_ctx :: cctx where
  "demo_ctx = \<lparr>x_globals = [], x_funcs = [], x_code = [], x_code_cap = 0, x_placed = 0, x_place = (\<lambda>i. 9000), v_globals_cap = 0,
     v_handles = [], v_holds = [], v_table = \<lparr>pt_slots = [], pt_len = 0\<rparr>, v_pars = []\<rparr>"

definition empty_demo :: func where
  "empty_demo = \<lparr>fn_name = Some ''f'', fn_sig = \<lparr>s_ins = [], s_outs = []\<rparr>, fn_types = [type_int, type_byte],
     fn_blocks = [], fn_ops = [], fn_vars = []\<rparr>"

fun got :: "'v fres \<Rightarrow> frontend option" where
  "got (FOk x fe) = Some fe"
| "got _ = None"

definition demo_fe0 :: frontend where
  "demo_fe0 = the (got (frontend_add_core_words demo_env (frontend_init demo_ctx empty_demo (\<lambda>a. None))))"

definition demo_read :: "(token_event \<Rightarrow> frontend \<Rightarrow> bool) \<Rightarrow> string \<Rightarrow> frontend option" where
  "demo_read P source = got (fbind (frontend_prepare_func demo_env demo_fe0) (\<lambda>u fe. read_tokens P 30 demo_env (begin_source source fe)))"

lemma demo_read_built: "demo_read allowed source = Some fe \<Longrightarrow> built demo_env source demo_fe0 fe"
proof -
  assume "demo_read allowed source = Some fe"
  then obtain u fe1 v where "frontend_prepare_func demo_env demo_fe0 = FOk u fe1" "read_tokens allowed 30 demo_env (begin_source source fe1) = FOk v fe"
    by (cases "frontend_prepare_func demo_env demo_fe0"; cases "read_tokens allowed 30 demo_env (begin_source source (the (got (frontend_prepare_func demo_env demo_fe0))))")
      (auto simp: demo_read_def)
  then show ?thesis using read_tokens_built [OF _ built_start] by simp
qed

lemma demo_unbuilt: "unbuilt demo_fe0"
  by code_simp




section \<open>Where the conditions are needed\<close>


text \<open>A sequence that is its own first element: lowering and compilation only call themselves.\<close>

lemma self_many_no_tree:
  "block_tree bs UNIV i t \<Longrightarrow> bs ! 1 = BLOCK_MANY 1 k \<Longrightarrow> i \<noteq> 1"
  "chain_tree bs UNIV i j ts \<Longrightarrow> bs ! 1 = BLOCK_MANY 1 k \<Longrightarrow> i \<noteq> 1"
  by (induction rule: block_tree_chain_tree.inducts) (auto simp: BLOCK_INVALID_def)

lemma self_many_lowering: "bs ! 1 = BLOCK_MANY 1 k \<Longrightarrow> remove_defers_at n bs epis 1 dst res = None"
proof (induction n arbitrary: epis dst res)
  case (Suc n)
  have "remove_defers_many (remove_defers_at n bs) n bs (0 # epis) dst 1 k s = None" for s
    using Suc by (cases n) (simp_all add: remove_defers_many.simps(2) Let_def BLOCK_INVALID_def)
  then show ?case using Suc.prems by (simp add: remove_defers_at.simps(2) Let_def)
qed simp

lemma self_many_compile: "fn_blocks (c_func c) ! 1 = BLOCK_MANY 1 k \<Longrightarrow> compile_block n K 1 c \<noteq> COk r c'"
proof (induction n arbitrary: c r c')
  case (Suc n)
  show ?case
  proof
    assume a: "compile_block (Suc n) K 1 c = COk r c'"
    then have "compile_many (compile_block n K) n 1 k c = COk r c'" using Suc.prems by (simp split: if_splits)
    then obtain u c1 r1 c2 where c1: "scope_push (c_frame_size c) c = COk u c1" "many_children (compile_block n K) n COMPILE_REACHABLE 1 k c1 = COk r1 c2"
      by (auto simp: compile_many_def cbind_COk)
    have "c_func c1 = c_func c" using c1(1) by (auto simp: scope_push_def push_grow_def Let_def split: if_splits)
    then have "\<And>r c'. compile_block n K 1 c1 \<noteq> COk r c'" using Suc.IH Suc.prems by simp
    then show False using c1(2) by (cases n) (auto simp: BLOCK_INVALID_def cbind_COk Let_def split: if_splits)
  qed
qed simp


end
