(* ===== verification/Repl.thy ===== *)
theory Repl
  imports Interpreter Lowering
begin

text \<open>
  The read-eval-print loop of \<^verbatim>\<open>repl.c\<close>: lines are collected until one ends in \<^verbatim>\<open>Ret\<close>; the form is
  then built by a fresh frontend, lowered, compiled and, unless it defines a function, run.

  What the program prints is a list of events.  The frontend of a defined function lives on, because
  the function uses its names and literals.
\<close>

section \<open>State\<close>

datatype repl_event =
    Printed int
  | Ran
  | Vm_returned vm_result
  | Defined string nat
  | Already_defined string
  | Frontend_failed string "string option"
  | Ir_failed "string option"
  | Name_expected
  | Out_of_memory
  | Incomplete

record repl =
  rp_ctx :: cctx
  rp_funcs_cap :: nat
  rp_frontends :: "frontend list"
  rp_frontends_cap :: nat
  rp_names :: "string list"
  rp_names_cap :: nat
  rp_source :: string
  rp_source_cap :: nat
  rp_vm :: "unit vm"
  rp_defining :: bool
  rp_pending :: "string option"
  rp_mem :: mem
  rp_out :: "repl_event list"

record repl_env =
  re_fe :: fe_env
  re_print_entry :: nat
  re_print_static :: nat

definition say :: "repl_event \<Rightarrow> repl \<Rightarrow> repl" where "say e r = r\<lparr>rp_out := rp_out r @ [e]\<rparr>"

definition print_input :: sig_input where "print_input = \<lparr>si_var = int_var ''value'', si_mut = False\<rparr>"

definition repl_types :: "ctype list" where
  "repl_types = [(bare_type TYPE_INT ''int'')\<lparr>t_payload := 8, t_size := 8, t_align := 8\<rparr>,
     (bare_type TYPE_BYTE ''byte'')\<lparr>t_payload := 1, t_size := 1, t_align := 1\<rparr>,
     (native_type ''print_int'' [print_input] [])\<lparr>t_payload := 8, t_size := 8, t_align := 8\<rparr>]"

text \<open>The only native; what it prints is what the run leaves behind.\<close>

definition print_int :: "repl_event list vm \<Rightarrow> (vm_result \<times> repl_event list vm) option" where
  "print_int v = (if vm_params v = [] then Some (VM_PARAM_UNDERFLOW, v)
     else map_option (\<lambda>bs. (VM_OK, v\<lparr>vm_user := vm_user v @ [Printed (signed 8 bs)]\<rparr>)) (load (vm_mem v) (last (vm_params v)) 8))"

definition repl_native :: "repl_env \<Rightarrow> nat \<Rightarrow> repl_event list vm \<Rightarrow> (vm_result \<times> repl_event list vm) option" where
  "repl_native R fn v = (if fn = re_print_entry R then print_int v else None)"

section \<open>Text\<close>

definition grow :: "(nat \<Rightarrow> bool) \<Rightarrow> nat \<Rightarrow> nat \<Rightarrow> nat \<Rightarrow> nat option" where
  "grow can_alloc need elem_size cap =
     (if need \<le> cap then Some cap
      else let new = grow_cap (if cap = 0 then 8 else cap * 2) need in
        if can_alloc (new * elem_size) then Some new else None)"

text \<open>The end of the last character that is not whitespace.\<close>

function trim_len :: "string \<Rightarrow> nat" where
  "trim_len s =
     (if s = [] then 0
      else let n = frontend_whitespace_len s in
        if n = 0 then Suc (trim_len (tl s))
        else (let k = trim_len (drop n s) in if k = 0 then 0 else n + k))"
  by pat_completeness auto
termination by (relation "measure length") auto

declare trim_len.simps [simp del]

definition trim :: "string \<Rightarrow> string" where
  "trim line = (let s = skip_whitespace line in take (trim_len s) s)"

text \<open>\<^verbatim>\<open>Ret\<close> ends a form when it is the last token of a line; the line is cut before it.\<close>

function last_token :: "string \<Rightarrow> parsed_name option" where
  "last_token s = (case lex_token s of
     None \<Rightarrow> None
   | Some (t, rest) \<Rightarrow> (case last_token rest of None \<Rightarrow> Some t | Some t' \<Rightarrow> Some t'))"
  by pat_completeness auto
termination by (relation "measure length") (auto dest: lex_token_shorter)

declare last_token.simps [simp del]

definition take_final_ret :: "string \<Rightarrow> bool \<times> string" where
  "take_final_ret input = (case last_token input of
     None \<Rightarrow> (False, input)
   | Some t \<Rightarrow> if token_eq t ''Ret'' then (True, take (length input - length (pn_text t)) input) else (False, input))"

definition append_source :: "repl_env \<Rightarrow> string \<Rightarrow> repl \<Rightarrow> bool \<times> repl" where
  "append_source R line r = (case grow (en_alloc (re_fe R)) (length (rp_source r) + length line + 2) 1 (rp_source_cap r) of
     None \<Rightarrow> (False, r)
   | Some cap \<Rightarrow> (True, r\<lparr>rp_source_cap := cap, rp_source := rp_source r @ line @ [CHR 0x0A]\<rparr>))"

section \<open>Building a function\<close>

fun is_defer :: "block \<Rightarrow> bool" where
  "is_defer (BLOCK_DEFER a b) = True"
| "is_defer _ = False"

text \<open>The fuel of the lowering; an assertion that fires in it is \<^term>\<open>None\<close>.\<close>

definition lower_func_defers :: "repl_env \<Rightarrow> func \<Rightarrow> func option" where
  "lower_func_defers R f =
     (if list_ex is_defer (fn_blocks f)
      then map_option (\<lambda>bs. f\<lparr>fn_blocks := bs\<rparr>) (remove_defers (en_blocks (re_fe R)) (fn_blocks f))
      else Some f)"

definition empty_func :: "string \<Rightarrow> func" where
  "empty_func name = \<lparr>fn_name = Some name, fn_sig = \<lparr>s_ins = [], s_outs = []\<rparr>, fn_types = repl_types,
     fn_blocks = [], fn_ops = [], fn_vars = []\<rparr>"

fun add_function_words :: "fe_env \<Rightarrow> nat list \<Rightarrow> frontend \<Rightarrow> unit fres" where
  "add_function_words E [] fe = FOk () fe"
| "add_function_words E (i # is) fe =
     fbind (frontend_add_word_func E (the (fn_name (x_funcs (fe_ctx fe) ! i))) i fe) (\<lambda>_. add_function_words E is)"

definition build_frontend :: "repl_env \<Rightarrow> func \<Rightarrow> nat \<Rightarrow> repl \<Rightarrow> unit fres" where
  "build_frontend R f words r =
     fbind (frontend_add_core_words (re_fe R) (frontend_init (rp_ctx r) f (rp_mem r))) (\<lambda>_ fe.
     fbind (frontend_add_word_native (re_fe R) ''Print'' 0 fe) (\<lambda>_. add_function_words (re_fe R) [0..<words]))"

definition build_source :: "repl_env \<Rightarrow> func \<Rightarrow> nat \<Rightarrow> repl \<Rightarrow> unit fres" where
  "build_source R f words r = fbind (build_frontend R f words r) (\<lambda>_. frontend_compile_source (re_fe R) (rp_source r))"

definition free_built_func :: "frontend \<Rightarrow> repl \<Rightarrow> repl" where
  "free_built_func fe r = (case frontend_free fe of (x, m) \<Rightarrow> r\<lparr>rp_ctx := x, rp_mem := m\<rparr>)"

fun frontend_error_name :: "frontend_error \<Rightarrow> string" where
  "frontend_error_name FRONTEND_OK = ''ok''"
| "frontend_error_name FRONTEND_OOM = ''out of memory''"
| "frontend_error_name FRONTEND_UNKNOWN_WORD = ''unknown word''"
| "frontend_error_name FRONTEND_BAD_TOKEN = ''bad token''"
| "frontend_error_name FRONTEND_EXPECTED_NAME = ''expected name''"
| "frontend_error_name FRONTEND_BAD_NUMBER = ''bad number''"
| "frontend_error_name FRONTEND_UNKNOWN_TYPE = ''unknown type''"
| "frontend_error_name FRONTEND_DUPLICATE_VAR = ''duplicate variable''"
| "frontend_error_name FRONTEND_MACRO_COMPILE_FAILED = ''immediate compilation failed''"
| "frontend_error_name FRONTEND_MACRO_RUNTIME_FAILED = ''immediate execution failed''"
| "frontend_error_name FRONTEND_INTERPRETER_COMPILE_FAILED = ''interpreter compilation failed''"
| "frontend_error_name FRONTEND_INTERPRETER_RUNTIME_FAILED = ''interpreter execution failed''"
| "frontend_error_name FRONTEND_BAD_CONTROL_FLOW = ''invalid or incomplete control flow''"

text \<open>The report shows the word the error points at, up to the end of the token.\<close>

definition report_frontend_error :: "frontend \<Rightarrow> repl \<Rightarrow> repl" where
  "report_frontend_error fe = say (Frontend_failed (frontend_error_name (fe_error fe)) (map_option (\<lambda>s. take (word_len s) s) (fe_error_word fe)))"

section \<open>Forms\<close>

definition run_code :: "repl_env \<Rightarrow> vm_code \<Rightarrow> frontend \<Rightarrow> repl \<Rightarrow> (bool \<times> repl) option" where
  "run_code R code fe r = (case run_vm (re_fe R) (repl_native R) code (fe_mem fe) (rp_out r) (rp_vm r) of
     None \<Rightarrow> None
   | Some (res, v, m, out) \<Rightarrow>
       let r = free_built_func (fe\<lparr>fe_mem := m\<rparr>) (r\<lparr>rp_vm := v, rp_out := out\<rparr>) in
       Some (if res \<noteq> VM_OK then (False, say (Vm_returned res) r) else (True, say Ran r)))"

definition run_anonymous :: "repl_env \<Rightarrow> repl \<Rightarrow> (bool \<times> repl) option" where
  "run_anonymous R r = (case build_source R (empty_func ''<repl>'') (length (x_funcs (rp_ctx r))) r of
     FUndef \<Rightarrow> None
   | FFail fe \<Rightarrow> Some (False, free_built_func fe (report_frontend_error fe r))
   | FOk u fe \<Rightarrow> (case lower_func_defers R (fe_func fe) of
       None \<Rightarrow> None
     | Some f \<Rightarrow> (case compile_with (re_fe R) f fe of
         FOk code fe \<Rightarrow>
           if code_addr code = 0 then Some (False, free_built_func fe (say (Ir_failed None) r))
           else run_code R code fe r
       | _ \<Rightarrow> None)))"

definition name_exists :: "repl \<Rightarrow> string \<Rightarrow> bool" where
  "name_exists r name \<longleftrightarrow> list_ex (\<lambda>f. fn_name f = Some name) (x_funcs (rp_ctx r))"

text \<open>Room for one more entry in the three tables, in the order of the code.\<close>

definition grow_tables :: "repl_env \<Rightarrow> repl \<Rightarrow> bool \<times> repl" where
  "grow_tables R r =
     (let al = en_alloc (re_fe R) in
      if 65535 < length (x_funcs (rp_ctx r)) then (False, r)
      else case grow al (length (x_funcs (rp_ctx r)) + 1) 104 (rp_funcs_cap r) of None \<Rightarrow> (False, r) | Some c1 \<Rightarrow>
        let r = r\<lparr>rp_funcs_cap := c1\<rparr> in
        case grow al (length (rp_frontends r) + 1) 8 (rp_frontends_cap r) of None \<Rightarrow> (False, r) | Some c2 \<Rightarrow>
        let r = r\<lparr>rp_frontends_cap := c2\<rparr> in
        case grow al (length (rp_names r) + 1) 8 (rp_names_cap r) of None \<Rightarrow> (False, r) | Some c3 \<Rightarrow>
        (True, r\<lparr>rp_names_cap := c3\<rparr>))"

definition set_funcs :: "func list \<Rightarrow> repl \<Rightarrow> repl" where
  "set_funcs fs r = r\<lparr>rp_ctx := (rp_ctx r)\<lparr>x_funcs := fs\<rparr>\<rparr>"

abbreviation rp_funcs :: "repl \<Rightarrow> func list" where "rp_funcs r \<equiv> x_funcs (rp_ctx r)"

text \<open>A failed definition is taken out of the table again.\<close>

definition drop_func :: "repl \<Rightarrow> repl" where "drop_func r = set_funcs (butlast (rp_funcs r)) r"

definition keep_func :: "repl_env \<Rightarrow> string \<Rightarrow> func \<Rightarrow> frontend \<Rightarrow> repl \<Rightarrow> repl" where
  "keep_func R name f fe r =
     (let r = r\<lparr>rp_ctx := fe_ctx fe, rp_mem := fe_mem fe\<rparr>; idx = length (rp_funcs r) - 1 in
      (say (Defined name idx) (set_funcs ((rp_funcs r)[idx := f]) r))
        \<lparr>rp_frontends := rp_frontends r @ [fe], rp_names := rp_names r @ [name], rp_pending := None\<rparr>)"

definition define_named :: "repl_env \<Rightarrow> repl \<Rightarrow> (bool \<times> repl) option" where
  "define_named R r =
     (let name = the (rp_pending r); n = length (rp_funcs r) in
      if name_exists r name then Some (False, say (Already_defined name) r)
      else case grow_tables R r of
        (False, r) \<Rightarrow> Some (False, r)
      | (True, r) \<Rightarrow>
          if \<not> en_alloc (re_fe R) 432 then Some (False, r)
          else let r = set_funcs (rp_funcs r @ [empty_func name]) r in
            case build_source R (empty_func name) n r of
              FUndef \<Rightarrow> None
            | FFail fe \<Rightarrow> Some (False, drop_func (free_built_func fe (report_frontend_error fe r)))
            | FOk u fe \<Rightarrow> (case lower_func_defers R (fe_func fe) of
                None \<Rightarrow> None
              | Some f \<Rightarrow> (case compile_with (re_fe R) f fe of
                  FOk code fe \<Rightarrow>
                    if code_addr code = 0 then Some (False, drop_func (free_built_func fe (say (Ir_failed (Some name)) r)))
                    else Some (True, keep_func R name f (fe\<lparr>fe_mem := unmap (code_addr code) (length (code_bytes code)) (fe_mem fe)\<rparr>) r)
                | _ \<Rightarrow> None)))"

definition finish_form :: "repl_env \<Rightarrow> repl \<Rightarrow> repl option" where
  "finish_form R r = (case (if rp_defining r then define_named R r else run_anonymous R r) of
     None \<Rightarrow> None
   | Some (b, r) \<Rightarrow> Some (r\<lparr>rp_pending := None, rp_source := [], rp_defining := False\<rparr>))"

section \<open>Lines\<close>

text \<open>
  The name ends at whitespace or a parenthesis; the character it ends at is overwritten by the
  terminator, so a parenthesis there is lost.
\<close>

definition split_name :: "string \<Rightarrow> string \<times> string" where
  "split_name s = (let n = word_len s; rest = drop n s; sep = frontend_whitespace_len rest in
     (take n s, if sep \<noteq> 0 then drop sep rest else drop 1 rest))"

definition start_definition :: "repl_env \<Rightarrow> string \<Rightarrow> string \<Rightarrow> repl \<Rightarrow> repl" where
  "start_definition R name body r =
     (if \<not> en_alloc (re_fe R) (length name + 1) then say Out_of_memory r
      else let r = r\<lparr>rp_pending := Some name, rp_defining := True\<rparr> in
        if body = [] then r
        else case append_source R (trim body) r of
          (True, r) \<Rightarrow> r
        | (False, r) \<Rightarrow> say Out_of_memory (r\<lparr>rp_pending := None, rp_defining := False\<rparr>))"

definition begin_definition :: "repl_env \<Rightarrow> string \<Rightarrow> repl \<Rightarrow> bool \<times> repl" where
  "begin_definition R line r =
     (let rest = drop 4 line in
      if take 4 line \<noteq> ''Func'' \<or> rest \<noteq> [] \<and> frontend_whitespace_len rest = 0 then (False, r)
      else if \<not> en_alloc (re_fe R) (length rest + 1) then (True, say Out_of_memory r)
      else case split_name (trim rest) of (name, body) \<Rightarrow>
        if name = [] then (True, say Name_expected r)
        else (True, start_definition R name body r))"

text \<open>One line of input: the flag asks to go on.\<close>

definition repl_line :: "repl_env \<Rightarrow> string \<Rightarrow> repl \<Rightarrow> (bool \<times> repl) option" where
  "repl_line R line r =
     (let input = trim line in
      if input = '':quit'' then Some (False, r)
      else case take_final_ret input of (complete, input) \<Rightarrow>
        let input = trim input in
        case (if \<not> rp_defining r \<and> rp_source r = [] then begin_definition R input r else (False, r)) of (handled, r) \<Rightarrow>
        case (if \<not> handled \<and> input \<noteq> [] then append_source R input r else (True, r)) of (stored, r) \<Rightarrow>
        if \<not> stored then Some (False, say Out_of_memory r)
        else if complete \<and> (rp_defining r \<or> rp_source r \<noteq> [] \<or> input = [])
        then map_option (Pair True) (finish_form R r)
        else Some (True, r))"

fun repl_lines :: "repl_env \<Rightarrow> string list \<Rightarrow> repl \<Rightarrow> repl option" where
  "repl_lines R [] r = Some r"
| "repl_lines R (l # ls) r = (case repl_line R l r of
     None \<Rightarrow> None
   | Some (False, r) \<Rightarrow> Some r
   | Some (True, r) \<Rightarrow> repl_lines R ls r)"

definition repl_start :: "repl_env \<Rightarrow> (nat \<Rightarrow> nat) \<Rightarrow> mem \<Rightarrow> repl" where
  "repl_start R place m = \<lparr>rp_ctx = \<lparr>x_globals = [\<lparr>g_var = \<lparr>v_tid = 2, v_name = Some ''Print''\<rparr>, g_mem = re_print_static R,
         g_owned = False, g_mut = False\<rparr>],
       x_funcs = [], x_code = [], x_code_cap = 0, x_placed = 0, x_place = place, v_globals_cap = 1, v_handles = [],
       v_holds = [], v_table = \<lparr>pt_slots = [], pt_len = 0\<rparr>, v_pars = []\<rparr>,
     rp_funcs_cap = 0, rp_frontends = [], rp_frontends_cap = 0, rp_names = [], rp_names_cap = 0, rp_source = [],
     rp_source_cap = 0, rp_vm = fresh_vm, rp_defining = False, rp_pending = None,
     rp_mem = map_bytes (re_print_static R) (bytes_of_nat 8 (re_print_entry R)) m, rp_out = []\<rparr>"

text \<open>At the end every frontend is freed with its function, then the tables and the machine.\<close>

definition repl_free :: "repl \<Rightarrow> repl" where
  "repl_free r =
     (let r = r\<lparr>rp_ctx := (rp_ctx r)\<lparr>x_code := vm_func_s_free (x_code (rp_ctx r))\<rparr>\<rparr>;
          r = fold (\<lambda>fe r. free_built_func (fe\<lparr>fe_ctx := rp_ctx r, fe_mem := rp_mem r\<rparr>) r) (take (length (rp_funcs r)) (rp_frontends r)) r in
      r\<lparr>rp_ctx := comp_context_free (rp_ctx r), rp_frontends := [], rp_names := [], rp_source := [], rp_pending := None,
        rp_mem := unmap (vm_storage (rp_vm r)) (vm_storage_cap (rp_vm r)) (rp_mem r), rp_vm := fresh_vm\<rparr>)"

definition repl_main :: "repl_env \<Rightarrow> (nat \<Rightarrow> nat) \<Rightarrow> mem \<Rightarrow> string list \<Rightarrow> repl_event list option" where
  "repl_main R place m lines =
     (if \<not> en_alloc (re_fe R) 40 then Some [Out_of_memory]
      else map_option (\<lambda>r. rp_out (if rp_defining r \<or> rp_source r \<noteq> [] then say Incomplete r else r))
        (repl_lines R lines (repl_start R place m)))"

end
