(* ===== verification/Compiler_Frame.thy ===== *)
theory Compiler_Frame
  imports Compiler_Inv
begin

text \<open>
  Compilation fills the code slots of the context it is given, and counts the buffers it places; the
  functions of the context are the same after it, whether it succeeds or fails.
\<close>

section \<open>Compiling keeps the functions of the context\<close>

definition ctx_kept :: "(compile_ctx option \<Rightarrow> bool) \<Rightarrow> 'v cres \<Rightarrow> bool" where
  "ctx_kept Q m \<longleftrightarrow> (case m of COk x c \<Rightarrow> Q (c_ctx c) | CFail c \<Rightarrow> Q (c_ctx c) | CUndef \<Rightarrow> True)"

named_theorems kept_intros \<open>steps of the compiler that keep a property of the context\<close>

lemma ctx_kept_simps [simp]:
  "ctx_kept Q (COk x c) \<longleftrightarrow> Q (c_ctx c)" "ctx_kept Q (CFail c) \<longleftrightarrow> Q (c_ctx c)" "ctx_kept Q CUndef"
  by (simp_all add: ctx_kept_def)

lemma kept_cbind [kept_intros]:
  "ctx_kept Q m \<Longrightarrow> (\<And>x c. Q (c_ctx c) \<Longrightarrow> ctx_kept Q (f x c)) \<Longrightarrow> ctx_kept Q (cbind m f)"
  by (cases m) auto

lemma kept_csteps [kept_intros]:
  "ctx_kept Q (f c) \<Longrightarrow> (\<And>c. Q (c_ctx c) \<Longrightarrow> ctx_kept Q (csteps fs c)) \<Longrightarrow> ctx_kept Q (csteps (f # fs) c)"
  by (auto intro: kept_cbind)

lemma kept_csteps_Nil [kept_intros]: "Q (c_ctx c) \<Longrightarrow> ctx_kept Q (csteps [] c)"
  by simp

lemma kept_csteps_all:
  "Q (c_ctx c) \<Longrightarrow> (\<And>f c. f \<in> set fs \<Longrightarrow> Q (c_ctx c) \<Longrightarrow> ctx_kept Q (f c)) \<Longrightarrow> ctx_kept Q (csteps fs c)"
  by (induction fs arbitrary: c) (auto intro: kept_cbind)

lemma kept_if [kept_intros]: "(b \<Longrightarrow> ctx_kept Q m) \<Longrightarrow> (\<not> b \<Longrightarrow> ctx_kept Q m') \<Longrightarrow> ctx_kept Q (if b then m else m')"
  by simp

lemma kept_ends [kept_intros]:
  "Q (c_ctx c) \<Longrightarrow> ctx_kept Q (COk x c)" "Q (c_ctx c) \<Longrightarrow> ctx_kept Q (CFail c)" "ctx_kept Q CUndef"
  by simp_all

lemma kept_emits [kept_intros]:
  "Q (c_ctx c) \<Longrightarrow> ctx_kept Q (emitc f c)" "Q (c_ctx c) \<Longrightarrow> ctx_kept Q (patchc at target c)"
  "Q (c_ctx c) \<Longrightarrow> ctx_kept Q (push_type tid c)" "Q (c_ctx c) \<Longrightarrow> ctx_kept Q (pop_types n c)"
  "Q (c_ctx c) \<Longrightarrow> ctx_kept Q (type_payload_size tid c)" "Q (c_ctx c) \<Longrightarrow> ctx_kept Q (cguard b c)"
  "Q (c_ctx c) \<Longrightarrow> ctx_kept Q (state_save c)" "Q (c_ctx c) \<Longrightarrow> ctx_kept Q (state_restore s c)"
  "Q (c_ctx c) \<Longrightarrow> ctx_kept Q (scope_push z c)" "Q (c_ctx c) \<Longrightarrow> ctx_kept Q (scope_add_patch i p c)"
  by (auto simp: emitc_def patchc_def push_type_def pop_types_def type_payload_size_def cguard_def state_save_def state_restore_def
      scope_push_def scope_add_patch_def Let_def split: option.splits)

lemma kept_emit_slice_layout [kept_intros]: "Q (c_ctx c) \<Longrightarrow> ctx_kept Q (emit_slice_layout n c)"
  unfolding emit_slice_layout_def by (intro kept_intros)

lemma kept_emit_storage_add [kept_intros]: "Q (c_ctx c) \<Longrightarrow> ctx_kept Q (emit_storage_add n c)"
  unfolding emit_storage_add_def Let_def by (intro kept_intros) simp_all

lemma kept_jump_placeholder [kept_intros]: "Q (c_ctx c) \<Longrightarrow> ctx_kept Q (emit_jump_placeholder c)"
  unfolding emit_jump_placeholder_def Let_def by (intro kept_intros)

lemma kept_scope_finish [kept_intros]: "Q (c_ctx c) \<Longrightarrow> ctx_kept Q (scope_finish target c)"
  unfolding scope_finish_def Let_def by (intro kept_intros kept_csteps_all) (auto intro: kept_intros)

text \<open>What is kept: the functions, and the compilation of a function in the context keeps them.\<close>

definition has_funcs :: "func list option \<Rightarrow> compile_ctx option \<Rightarrow> bool" where
  "has_funcs fs x \<longleftrightarrow> map_option x_funcs x = fs"

definition keeps_funcs :: "compile_fn \<Rightarrow> func list option \<Rightarrow> bool" where
  "keeps_funcs K fs \<longleftrightarrow> (\<forall>idx x code y. Some (x_funcs x) = fs \<longrightarrow> K idx x = Some (code, y) \<longrightarrow> Some (x_funcs y) = fs)"

lemma ensure_code_slot_funcs: "ensure_code_slot al idx x = Some y \<Longrightarrow> x_funcs y = x_funcs x"
  by (auto simp: ensure_code_slot_def Let_def split: if_splits)

lemma kept_context_code:
  assumes "keeps_funcs K fs" "has_funcs fs (c_ctx c)" shows "ctx_kept (has_funcs fs) (compile_context_func_code K idx c)"
proof (cases "c_ctx c")
  case None
  then show ?thesis using assms(2) by (simp add: compile_context_func_code_def)
next
  case (Some x)
  have x: "Some (x_funcs x) = fs" using assms(2) Some by (simp add: has_funcs_def)
  show ?thesis
  proof (cases "ensure_code_slot (c_alloc c) idx x")
    case None
    then show ?thesis using assms(2) Some by (simp add: compile_context_func_code_def)
  next
    case slot: (Some y)
    have y: "Some (x_funcs y) = fs" using ensure_code_slot_funcs [OF slot] x by simp
    have "Some (x_funcs z) = fs" if "K idx y = Some (code, z)" for code z using assms(1) that y unfolding keeps_funcs_def by blast
    then show ?thesis using assms(2) Some slot y
      by (simp add: compile_context_func_code_def Let_def has_funcs_def split: option.split prod.split)
  qed
qed

lemma kept_func_call: "keeps_funcs K fs \<Longrightarrow> has_funcs fs (c_ctx c) \<Longrightarrow> ctx_kept (has_funcs fs) (compile_func_call K idx c)"
  unfolding compile_func_call_def Let_def by (intro kept_intros kept_context_code)

lemma kept_native_call: "Q (c_ctx c) \<Longrightarrow> ctx_kept Q (compile_native_call c)"
  unfolding compile_native_call_def Let_def
  by (cases "t_kind (c_types c ! last (c_params c))") (auto intro!: kept_intros simp del: csteps.simps)

lemma kept_compile_op:
  "keeps_funcs K fs \<Longrightarrow> has_funcs fs (c_ctx c) \<Longrightarrow> ctx_kept (has_funcs fs) (compile_op K k extra c)"
  by (cases k)
    (auto simp: compile_op_defs Let_def simp del: csteps.simps
      intro!: kept_intros kept_func_call kept_native_call split: type_kind.split option.split)

lemma kept_compile_ops:
  "keeps_funcs K fs \<Longrightarrow> has_funcs fs (c_ctx c) \<Longrightarrow> ctx_kept (has_funcs fs) (compile_ops K is c)"
  by (induction "is" arbitrary: c) (auto simp: Let_def intro!: kept_intros kept_compile_op)


definition block_keeps :: "func list option \<Rightarrow> block_fn \<Rightarrow> bool" where
  "block_keeps fs B \<longleftrightarrow> (\<forall>idx c. has_funcs fs (c_ctx c) \<longrightarrow> ctx_kept (has_funcs fs) (B idx c))"

lemma block_keepsD: "block_keeps fs B \<Longrightarrow> has_funcs fs (c_ctx c) \<Longrightarrow> ctx_kept (has_funcs fs) (B idx c)"
  by (simp add: block_keeps_def)

lemma kept_basic: "keeps_funcs K fs \<Longrightarrow> has_funcs fs (c_ctx c) \<Longrightarrow> ctx_kept (has_funcs fs) (compile_basic K r c)"
  unfolding compile_basic_def Let_def by (intro kept_intros kept_compile_ops)

lemma kept_cond: "keeps_funcs K fs \<Longrightarrow> has_funcs fs (c_ctx c) \<Longrightarrow> ctx_kept (has_funcs fs) (compile_cond K r c)"
  unfolding compile_cond_def Let_def by (intro kept_intros kept_compile_ops)

lemma kept_break: "Q (c_ctx c) \<Longrightarrow> ctx_kept Q (compile_break level c)"
  unfolding compile_break_def Let_def by (intro kept_intros kept_csteps_all) (auto intro: kept_intros)

lemma kept_many_children:
  "block_keeps fs B \<Longrightarrow> has_funcs fs (c_ctx c) \<Longrightarrow> ctx_kept (has_funcs fs) (many_children B n r child chain c)"
proof (induction n arbitrary: r child chain c)
  case (Suc n)
  have next_link: "ctx_kept (has_funcs fs) (if chain = BLOCK_INVALID then COk r c
        else if length (fn_blocks (c_func c)) \<le> chain then CFail c
        else case fn_blocks (c_func c) ! chain of BLOCK_CHAIN cur nxt \<Rightarrow> many_children B n r cur nxt c | _ \<Rightarrow> CFail c)"
    if "has_funcs fs (c_ctx c)" for r and c :: compiler
  proof (intro kept_if kept_ends that)
    show "ctx_kept (has_funcs fs) (case fn_blocks (c_func c) ! chain of BLOCK_CHAIN cur nxt \<Rightarrow> many_children B n r cur nxt c | _ \<Rightarrow> CFail c)"
      by (cases "fn_blocks (c_func c) ! chain") (simp_all only: block.case ctx_kept_simps that Suc.IH [OF Suc.prems(1) that])
  qed
  show ?case unfolding many_children.simps
    by (rule kept_if, rule kept_ends, rule Suc.prems, rule kept_cbind, intro kept_intros block_keepsD [OF Suc.prems(1)] Suc.prems(2), rule next_link)
qed simp

lemma kept_many: "block_keeps fs B \<Longrightarrow> has_funcs fs (c_ctx c) \<Longrightarrow> ctx_kept (has_funcs fs) (compile_many B n cur nxt c)"
  unfolding compile_many_def by (intro kept_intros kept_many_children)

lemma c_ctx_vars [simp]: "c_ctx (set_var v l c) = c_ctx c" "c_ctx (kill_var v c) = c_ctx c"
  by (simp_all add: set_var_def kill_var_def)

lemma kept_var:
  assumes B: "block_keeps fs B" and c: "has_funcs fs (c_ctx c)" shows "ctx_kept (has_funcs fs) (compile_var B v body c)"
  unfolding compile_var_def Let_def by (intro kept_intros block_keepsD [OF B]) (simp_all add: c)

lemma kept_branch_join: "Q (c_ctx c) \<Longrightarrow> ctx_kept Q (branch_join yes no c)"
  unfolding branch_join_def by (intro kept_cbind) (auto intro!: kept_intros split: option.split)

lemma kept_branch:
  assumes K: "keeps_funcs K fs" and B: "block_keeps fs B" and c: "has_funcs fs (c_ctx c)"
  shows "ctx_kept (has_funcs fs) (compile_branch K B cond yes no c)"
  unfolding compile_branch_def Let_def by (intro kept_intros kept_cond [OF K] kept_branch_join block_keepsD [OF B] c)

lemma kept_loop:
  assumes B: "block_keeps fs B" and c: "has_funcs fs (c_ctx c)" shows "ctx_kept (has_funcs fs) (compile_loop B body c)"
  unfolding compile_loop_def Let_def by (intro kept_intros block_keepsD [OF B] c)

lemma kept_end_patch:
  "Q (c_ctx c) \<Longrightarrow> ctx_kept Q (case p of None \<Rightarrow> COk COMPILE_UNREACHABLE c
     | Some (p, bs) \<Rightarrow> cbind (patchc p (code_len c) c) (\<lambda>_ c. cbind (state_restore bs c) (\<lambda>_. COk COMPILE_REACHABLE)))"
  by (auto intro!: kept_intros split: option.split)

lemma kept_crash_pad:
  assumes B: "block_keeps fs B" and c: "has_funcs fs (c_ctx c)" shows "ctx_kept (has_funcs fs) (compile_crash_pad B body pad c)"
  unfolding compile_crash_pad_def Let_def by (intro kept_intros kept_end_patch block_keepsD [OF B]) (simp_all add: c)

lemma kept_block: "keeps_funcs K fs \<Longrightarrow> block_keeps fs (compile_block n K)"
proof (induction n)
  case 0
  then show ?case by (simp add: block_keeps_def)
next
  case (Suc n)
  have B: "block_keeps fs (compile_block n K)" using Suc by simp
  show ?case unfolding block_keeps_def
  proof (intro allI impI)
    fix idx and c :: compiler assume c: "has_funcs fs (c_ctx c)"
    show "ctx_kept (has_funcs fs) (compile_block (Suc n) K idx c)"
      using c Suc.prems B
      by (cases "fn_blocks (c_func c) ! idx")
        (simp_all add: kept_basic kept_many kept_branch kept_loop kept_crash_pad kept_var kept_break kept_intros)
  qed
qed

lemma compile_keeps_funcs:
  "vm_compile_no_defers d n al addr f x = Some (code, y) \<Longrightarrow> has_funcs fs x \<Longrightarrow> has_funcs fs y"
proof (induction d arbitrary: f x code y)
  case (Suc d)
  define K where "K = (\<lambda>idx y. map_option (\<lambda>(code, y'). (code, the y')) (vm_compile_no_defers d n al addr (x_funcs y ! idx) (Some y)))"
  have "Some (x_funcs y) = fs" if k: "Some (x_funcs x) = fs" "K idx x = Some (code, y)" for idx x code y
  proof -
    obtain z where z: "vm_compile_no_defers d n al addr (x_funcs x ! idx) (Some x) = Some (code, z)" "y = the z" using k(2) by (auto simp: K_def)
    have "has_funcs fs z" using Suc.IH [OF z(1)] k(1) by (simp add: has_funcs_def)
    then show ?thesis using z(2) k(1) by (cases z) (auto simp: has_funcs_def)
  qed
  then have K: "keeps_funcs K fs" by (auto simp: keeps_funcs_def)
  let ?m = "\<lambda>types. cbind (compile_block n K 0 (compiler_start al (f\<lparr>fn_types := types\<rparr>) x)) (\<lambda>_. emit_epilogue)"
  have m: "ctx_kept (has_funcs fs) (?m types)" for types
    using kept_block [OF K, of n] Suc.prems(2)
    by (intro kept_intros) (auto simp: block_keeps_def compiler_start_def emit_epilogue_def Let_def intro!: kept_intros simp del: csteps.simps)
  have ok: "map_option x_funcs (c_ctx c) = fs" if "?m types = COk u c" for types u c using m [of types] that by (simp add: has_funcs_def)
  have fail: "map_option x_funcs (c_ctx c) = fs" if "?m types = CFail c" for types c using m [of types] that by (simp add: has_funcs_def)
  show ?case using Suc.prems
    by (auto simp: compile_body_def K_def [symmetric] placed_def has_funcs_def split: if_splits option.splits cres.splits prod.splits bool.splits dest!: ok fail)
qed simp

end
