(* ===== verification/Machine_Frame.thy ===== *)
theory Machine_Frame
  imports Machine_Inv
begin

text \<open>The user of a machine is changed by native functions only.\<close>

section \<open>Only natives reach the user of the machine\<close>

definition user_is :: "('u \<Rightarrow> bool) \<Rightarrow> ('u, 'a) vm_scheme \<Rightarrow> bool" where
  "user_is P v \<longleftrightarrow> P (vm_user v)"

lemma user_is_updates [simp]:
  "user_is P (v\<lparr>vm_mem := a\<rparr>) = user_is P v" "user_is P (v\<lparr>vm_params := b\<rparr>) = user_is P v"
  "user_is P (v\<lparr>vm_storage_len := i\<rparr>) = user_is P v" "user_is P (v\<lparr>vm_crashes := c\<rparr>) = user_is P v"
  "user_is P (m\<lparr>pc := i\<rparr>) = user_is P m" "user_is P (m\<lparr>base := i\<rparr>) = user_is P m" "user_is P (m\<lparr>param_base := i\<rparr>) = user_is P m"
  "user_is P (m\<lparr>ans := r\<rparr>) = user_is P m" "user_is P (vm.truncate v) = user_is P v"
  "user_is P (vm.extend w (mach.fields p q pb r)) = user_is P w"
  by (simp_all add: user_is_def vm.defs mach.defs)

lemma user_is_resize: "storage_resize E n v = Some (ok, v') \<Longrightarrow> user_is P v' = user_is P v"
  by (auto simp: storage_resize_def Let_def user_is_def split: if_splits bind_splits)

lemma user_is_push: "push_param E p v = Some v' \<Longrightarrow> user_is P v' = user_is P v" "push_crash E p q pb v = Some v' \<Longrightarrow> user_is P v' = user_is P v"
  "storage_push_return E p q pb v = Some (ok, v') \<Longrightarrow> user_is P v' = user_is P v"
  by (auto simp: push_param_def push_crash_def storage_push_return_def user_is_def Let_def user_is_resize [unfolded user_is_def]
      split: if_splits option.splits bind_splits dest!: user_is_resize [unfolded user_is_def, of _ _ _ _ _ P])

lemma user_is_crash [ctl_intros]: "user_is P m \<Longrightarrow> ctl_all (user_is P) (crash r m)"
  by (simp add: crash_def)

lemma user_is_push_or_crash [ctl_intros]: "user_is P m \<Longrightarrow> ctl_all (user_is P) (push_or_crash E p m)"
  by (auto simp: push_or_crash_def crash_def user_is_push split: option.split)

lemma user_is_plain:
  assumes "user_is P m"
  shows "ctl_all (user_is P) (do_push_var E m)" "ctl_all (user_is P) (do_push_arg E m)" "ctl_all (user_is P) (do_push_global E m)"
    "ctl_all (user_is P) (do_drop_n m)" "ctl_all (user_is P) (do_push_arr_at m)" "ctl_all (user_is P) (do_push_slice_at m)"
    "ctl_all (user_is P) (do_push_struct_at m)" "ctl_all (user_is P) (do_jump m)" "ctl_all (user_is P) (do_branch m)"
    "ctl_all (user_is P) (do_branch_top m)" "ctl_all (user_is P) (do_pop_crash m)" "ctl_all (user_is P) (do_copy m)"
    "ctl_all (user_is P) (do_binop x m)" "ctl_all (user_is P) (do_bit_not m)" "ctl_all (user_is P) (do_arr_push m)"
    "ctl_all (user_is P) (do_arr_drop m)" "ctl_all (user_is P) (do_slice_from_arr m)" "ctl_all (user_is P) (do_slice_from_one m)"
    "ctl_all (user_is P) (do_slice_move x m)"
  using assms unfolding plain_instrs Let_def by (intro ctl_intros; simp add: crash_def)+

definition natives_keep :: "('u \<Rightarrow> bool) \<Rightarrow> 'u vm_env \<Rightarrow> bool" where
  "natives_keep P E \<longleftrightarrow> (\<forall>fn v r v'. e_native E fn v = Some (r, v') \<longrightarrow> user_is P v \<longrightarrow> user_is P v')"

lemma user_is_calls:
  assumes "user_is P m"
  shows "ctl_all (user_is P) (do_ret m)" "ctl_all (user_is P) (do_call E m)" "ctl_all (user_is P) (do_storage_add E m)"
    "ctl_all (user_is P) (do_push_crash E m)" "natives_keep P E \<Longrightarrow> ctl_all (user_is P) (do_call_native E m)"
proof -
  show "ctl_all (user_is P) (do_ret m)"
    using assms by (auto simp: do_ret_def storage_pop_return_def Let_def bind_eq_Some_conv split: option.split if_splits)
  show "ctl_all (user_is P) (do_call E m)" "ctl_all (user_is P) (do_storage_add E m)" "ctl_all (user_is P) (do_push_crash E m)"
    unfolding do_call_def do_storage_add_def do_push_crash_def
    by (intro ctl_intros; use assms in \<open>auto simp: crash_def user_is_push user_is_resize split: option.split bool.split\<close>)+
  show "ctl_all (user_is P) (do_call_native E m)" if "natives_keep P E"
    unfolding do_call_native_def Let_def
    by (intro ctl_intros) (use assms that in \<open>auto simp: crash_def natives_keep_def split: option.split intro!: ctl_intros\<close>)
qed

lemma user_is_unwind: "user_is P m \<Longrightarrow> ctl_all (user_is P) (unwind m)"
proof (induction m rule: unwind.induct)
  case (1 m)
  obtain r m' where s: "vm_set_crash_frame m = (r, m')" by fastforce
  then have "user_is P m'" using 1(2) by (auto simp: vm_set_crash_frame_def Let_def split: list.splits if_splits)
  with 1 s show ?case by (subst unwind.simps) (simp add: Let_def)
qed

lemma user_is_step:
  assumes "natives_keep P E" "user_is P m" shows "ctl_all (user_is P) (step E m)"
proof -
  have x: "ctl_all (user_is P) (exec_instr E x (m\<lparr>pc := pc m + 1\<rparr>))" for x
    using assms by (cases x) (simp_all add: user_is_plain user_is_calls user_is_crash)
  have "ctl_all (user_is P) (case exec_instr E x (m\<lparr>pc := pc m + 1\<rparr>) of Crashing m \<Rightarrow> unwind m | c \<Rightarrow> c)" for x
    using x [of x] by (cases "exec_instr E x (m\<lparr>pc := pc m + 1\<rparr>)") (simp_all add: user_is_unwind)
  then show ?thesis using assms(2) by (simp add: step_def split: option.split)
qed

lemma user_is_vm_run:
  assumes "natives_keep P E" "P (vm_user v)" shows "ctl_all (user_is P) (vm_run E n code v)"
proof -
  have run: "user_is P m \<Longrightarrow> ctl_all (user_is P) (run E n m)" for m
  proof (induction n arbitrary: m)
    case (Suc n)
    from user_is_step [OF assms(1) Suc.prems] Suc.IH show ?case by (cases "step E m") auto
  qed simp
  have w: "user_is P w" if "storage_push_return E 0 0 0 v = Some (ok, w)" for ok w
    using user_is_push(3) [OF that, of P] assms(2) by (simp add: user_is_def)
  show ?thesis using run w
    by (auto simp: vm_run_def Let_def split: option.split bool.split prod.split)
qed

end
