(* ===== verification/Repl_Inv.thy ===== *)
theory Repl_Inv
  imports Repl Compiler_Frame Machine_Frame Frontend_Frame
begin

text \<open>
  The tables of the repl: what a line does to the functions, their names and their frontends.  The
  frames of the frontend, of the compiler and of the machine carry the function table through a
  whole compilation; what remains is the bookkeeping of \<^verbatim>\<open>repl.c\<close>.
\<close>

section \<open>A compilation keeps the session\<close>

text \<open>The functions of the context, the name of the function under construction, and no macro among the words.\<close>

definition session_fe :: "func list \<Rightarrow> string option \<Rightarrow> frontend \<Rightarrow> bool" where
  "session_fe fs nm fe \<longleftrightarrow> x_funcs (fe_ctx fe) = fs \<and> fn_name (fe_func fe) = nm \<and> (\<forall>w\<in>set (fe_words fe). \<not> is_macro (w_data w))"

definition fe_kept :: "(frontend \<Rightarrow> bool) \<Rightarrow> 'v fres \<Rightarrow> bool" where
  "fe_kept P m \<longleftrightarrow> (case m of FOk x fe \<Rightarrow> P fe | FFail fe \<Rightarrow> P fe | FUndef \<Rightarrow> True)"

lemma fe_kept_simps [simp]: "fe_kept P (FOk x fe) \<longleftrightarrow> P fe" "fe_kept P (FFail fe) \<longleftrightarrow> P fe" "fe_kept P FUndef"
  by (simp_all add: fe_kept_def)

lemma fe_kept_bind: "fe_kept P m \<Longrightarrow> (\<And>x fe. P fe \<Longrightarrow> fe_kept P (f x fe)) \<Longrightarrow> fe_kept P (fbind m f)"
  by (cases m) auto

lemma session_frame: "session_fe fs nm fe \<Longrightarrow> fe_total (fe_frame E fe) m \<Longrightarrow> fe_kept (session_fe fs nm) m"
  by (cases m) (auto simp: session_fe_def fe_frame_def)

lemma session_updates [simp]:
  "session_fe fs nm (fe\<lparr>fe_current_token := t\<rparr>) = session_fe fs nm fe" "session_fe fs nm (fe\<lparr>fe_mem := m\<rparr>) = session_fe fs nm fe"
  "session_fe fs nm (fe\<lparr>fe_error := e\<rparr>) = session_fe fs nm fe" "session_fe fs nm (begin_source src fe) = session_fe fs nm fe"
  "session_fe fs nm (fe\<lparr>fe_interpreter_vm := v, fe_mem := m, fe_interpreter_result := x\<rparr>) = session_fe fs nm fe"
  by (simp_all add: session_fe_def begin_source_def)

lemma session_finish_implicit [simp]: "session_fe fs nm fe \<Longrightarrow> session_fe fs nm (finish_implicit_epilogues fe)"
  using session_frame [of fs nm fe E "FOk () (finish_implicit_epilogues fe)" for E] by simp

lemma session_next_token: "session_fe fs nm fe \<Longrightarrow> next_token fe = (r, fe') \<Longrightarrow> session_fe fs nm fe'"
  using frame_next_token [of E fe fe for E] by (fastforce simp: session_fe_def fe_frame_def)

text \<open>The interpreter's run: its natives change the frontend through the steps above only.\<close>

lemma session_with_user:
  "user_is (session_fe fs nm) v \<Longrightarrow> (\<And>fe. session_fe fs nm fe \<Longrightarrow> fe_kept (session_fe fs nm) (f fe)) \<Longrightarrow> with_user f v = Some (r, v')
    \<Longrightarrow> user_is (session_fe fs nm) v'"
proof -
  assume u: "user_is (session_fe fs nm) v" and f: "\<And>fe. session_fe fs nm fe \<Longrightarrow> fe_kept (session_fe fs nm) (f fe)"
    and w: "with_user f v = Some (r, v')"
  have "fe_kept (session_fe fs nm) (f ((vm_user v)\<lparr>fe_mem := vm_mem v\<rparr>))" using f u by (simp add: user_is_def)
  then show ?thesis using w by (auto simp: with_user_def user_is_def split: fres.splits)
qed

lemma session_store_num: "user_is P v \<Longrightarrow> store_num a x v = Some (r, v') \<Longrightarrow> user_is P v'"
  by (auto simp: store_num_def)

lemma session_natives: "natives_keep (session_fe fs nm) \<lparr>e_alloc = al, e_place = pl, e_native = interpreter_native E\<rparr>"
proof -
  have "user_is (session_fe fs nm) v'" if "interpreter_next_token v = Some (r, v')" "user_is (session_fe fs nm) v" for v r v'
  proof (cases "vm_params v = []")
    case False
    obtain t fe where t: "next_token (vm_user v) = (t, fe)" by (cases "next_token (vm_user v)")
    have "session_fe fs nm fe" using session_next_token [OF _ t] that(2) by (simp add: user_is_def)
    then have u: "user_is (session_fe fs nm) (v\<lparr>vm_user := fe\<lparr>fe_current_token := x\<rparr>\<rparr>)" for x by (simp add: user_is_def)
    show ?thesis
    proof (cases t)
      case None
      then show ?thesis using that False t by (auto simp: interpreter_next_token_def intro: session_store_num)
    next
      case (Some a)
      then have "store_num (last (vm_params v)) 1 (v\<lparr>vm_user := fe\<lparr>fe_current_token := Some a\<rparr>\<rparr>) = Some (r, v')"
        using that(1) False t by (simp add: interpreter_next_token_def)
      from session_store_num [OF u this] show ?thesis .
    qed
  qed (use that in \<open>simp add: interpreter_next_token_def\<close>)
  moreover have "user_is (session_fe fs nm) v'" if "interpreter_lookup_word v = Some (r, v')" "user_is (session_fe fs nm) v" for v r v'
    using that(1) session_store_num [OF that(2)] that(2) unfolding interpreter_lookup_word_def by (auto split: if_splits)
  moreover have "user_is (session_fe fs nm) v'" if "interpreter_fallback E v = Some (r, v')" "user_is (session_fe fs nm) v" for v r v'
    using session_with_user [OF that(2) _ that(1) [unfolded interpreter_fallback_def]] session_frame [OF _ frame_fallback [OF fe_frame_refl]] by blast
  moreover have "user_is (session_fe fs nm) v'" if e: "engage_handle E h v = Some (r, v')" and u: "user_is (session_fe fs nm) v" for h v r v'
  proof -
    consider "with_user (handle_delimiter (h = -1)) v = Some (r, v')" | "v' = v"
      | "with_user (engage_word E (fe_words (vm_user v) ! nat (h - 1))) v = Some (r, v')" "nat (h - 1) < length (fe_words (vm_user v))"
      using e by (auto simp: engage_handle_def split: if_splits)
    then show ?thesis
    proof cases
      case 3
      have "\<not> is_macro (w_data (fe_words (vm_user v) ! nat (h - 1)))" using u 3(2) by (simp add: user_is_def session_fe_def)
      from session_with_user [OF u session_frame [OF _ frame_engage [OF fe_frame_refl this]] 3(1)] show ?thesis .
    next
      case 1
      from session_with_user [OF u session_frame [OF _ frame_delimiter [OF fe_frame_refl]] 1] show ?thesis .
    qed (use u in simp)
  qed
  then have "user_is (session_fe fs nm) v'" if "interpreter_engage_word E v = Some (r, v')" "user_is (session_fe fs nm) v" for v r v'
    using that unfolding interpreter_engage_word_def by (cases "load (vm_mem v) (last (vm_params v)) 8") (auto split: if_splits)
  ultimately show ?thesis by (auto simp: natives_keep_def interpreter_native_def split: if_splits)
qed


lemma session_compile:
  assumes s: "session_fe fs nm fe" shows "fe_kept (session_fe fs nm) (compile_with E f fe)"
proof (cases "compile_with E f fe")
  case (FOk code fe')
  from FOk obtain y where y: "vm_compile_no_defers (en_depth E) (en_blocks E) (en_alloc E) 0 f (Some (compile_ctx.truncate (fe_ctx fe))) = Some (code, Some y)"
    "fe' = fe\<lparr>fe_ctx := set_compile_ctx y (fe_ctx fe), fe_mem := fold map_code (x_code y) (fe_mem fe)\<rparr>"
    by (auto simp: compile_with_def split: option.splits prod.splits)
  have "x_funcs y = x_funcs (fe_ctx fe)"
    using compile_keeps_funcs [OF y(1), of "Some (x_funcs (fe_ctx fe))"] by (simp add: has_funcs_def compile_ctx.defs)
  then show ?thesis using s FOk y(2) by (simp add: session_fe_def set_compile_ctx_def)
qed (auto simp: compile_with_def split: option.splits prod.splits)

lemma session_run_vm:
  assumes "run_vm E (interpreter_native E) code m fe v = Some (r, w, m', fe')" "session_fe fs nm fe" shows "session_fe fs nm fe'"
proof -
  let ?E = "\<lparr>e_alloc = en_alloc E, e_place = en_place E, e_native = interpreter_native E\<rparr>"
  from assms(1) obtain m1 where "vm_run ?E (en_steps E) (code_addr code) (attach (map_code code m) fe v) = Return r m1" "fe' = vm_user m1"
    by (auto simp: run_vm_def split: ctl.splits)
  with user_is_vm_run [OF session_natives, of fs nm "attach (map_code code m) fe v" "en_alloc E" "en_place E" E "en_steps E" "code_addr code"] assms(2)
  show ?thesis by (simp add: attach_def user_is_def)
qed

lemma session_finish_source: "session_fe fs nm fe \<Longrightarrow> fe_kept (session_fe fs nm) (finish_source r fe)"
  by (simp add: finish_source_def fe_fails Let_def)

lemma session_compile_source:
  assumes "session_fe fs nm fe" shows "fe_kept (session_fe fs nm) (frontend_compile_source E src fe)"
proof -
  have "fe_kept (session_fe fs nm) (case run_vm E (interpreter_native E) code m fe v of None \<Rightarrow> FUndef
         | Some (r, v, m, fe) \<Rightarrow> finish_source r (fe\<lparr>fe_interpreter_vm := empty_stacks v, fe_mem := m, fe_interpreter_result := r\<rparr>))"
    if "session_fe fs nm fe" for code m v fe
    using session_run_vm [of E code m fe v _ _ _ _ fs nm] that by (auto intro!: session_finish_source split: option.split)
  then show ?thesis using assms unfolding frontend_compile_source_def
    by (intro fe_kept_bind session_frame [OF assms frame_prepare [OF fe_frame_refl]])
      (auto simp: Let_def fe_fails split: option.split)
qed


section \<open>The tables of a session\<close>

definition announced :: "repl_event list \<Rightarrow> (string \<times> nat) list" where
  "announced out = concat (map (\<lambda>e. case e of Defined name i \<Rightarrow> [(name, i)] | _ \<Rightarrow> []) out)"

lemma announced_simps [simp]:
  "announced [] = []" "announced (xs @ ys) = announced xs @ announced ys" "announced (Defined name i # xs) = (name, i) # announced xs"
  "announced (Printed v # xs) = announced xs" "announced (Ran # xs) = announced xs" "announced (Vm_returned r # xs) = announced xs"
  "announced (Already_defined name # xs) = announced xs" "announced (Frontend_failed a b # xs) = announced xs"
  "announced (Ir_failed c # xs) = announced xs" "announced (Name_expected # xs) = announced xs"
  "announced (Out_of_memory # xs) = announced xs" "announced (Incomplete # xs) = announced xs"
  by (simp_all add: announced_def)

text \<open>
  Functions, names and frontends go together, no name is there twice, the table is what the session
  has announced, and a name is pending while a definition is open.
\<close>

definition repl_ok :: "repl \<Rightarrow> bool" where
  "repl_ok r \<longleftrightarrow> length (rp_frontends r) = length (rp_funcs r) \<and> map fn_name (rp_funcs r) = map Some (rp_names r)
     \<and> distinct (rp_names r) \<and> length (rp_funcs r) \<le> 65536
     \<and> announced (rp_out r) = zip (rp_names r) [0..<length (rp_funcs r)] \<and> (rp_defining r \<longleftrightarrow> rp_pending r \<noteq> None)"

text \<open>Nothing of this changes.\<close>

definition same_tables :: "repl \<Rightarrow> repl \<Rightarrow> bool" where
  "same_tables r r' \<longleftrightarrow> rp_funcs r' = rp_funcs r \<and> rp_frontends r' = rp_frontends r \<and> rp_names r' = rp_names r
     \<and> announced (rp_out r') = announced (rp_out r)"

lemma free_global_funcs: "x_funcs (fe_ctx (free_global i fe)) = x_funcs (fe_ctx fe)"
  by (simp add: free_global_def Let_def)

lemma free_globals_funcs: "x_funcs (fe_ctx (fold free_global is fe)) = x_funcs (fe_ctx fe)"
  by (induction "is" arbitrary: fe) (simp_all add: free_global_funcs)

lemma free_built [simp]:
  "rp_funcs (free_built_func fe r) = x_funcs (fe_ctx fe)" "rp_frontends (free_built_func fe r) = rp_frontends r"
  "rp_names (free_built_func fe r) = rp_names r" "rp_out (free_built_func fe r) = rp_out r"
  "rp_defining (free_built_func fe r) = rp_defining r" "rp_pending (free_built_func fe r) = rp_pending r"
  by (simp_all add: free_built_func_def frontend_free_def free_globals_funcs Let_def)

lemma say_sel [simp]:
  "rp_ctx (say e r) = rp_ctx r" "rp_frontends (say e r) = rp_frontends r" "rp_names (say e r) = rp_names r" "rp_out (say e r) = rp_out r @ [e]"
  "rp_defining (say e r) = rp_defining r" "rp_pending (say e r) = rp_pending r" "rp_source (say e r) = rp_source r"
  by (simp_all add: say_def)

lemma set_funcs_sel [simp]:
  "rp_funcs (set_funcs fs r) = fs" "rp_frontends (set_funcs fs r) = rp_frontends r" "rp_names (set_funcs fs r) = rp_names r"
  "rp_out (set_funcs fs r) = rp_out r" "rp_defining (set_funcs fs r) = rp_defining r" "rp_pending (set_funcs fs r) = rp_pending r"
  by (simp_all add: set_funcs_def)

lemma report_sel [simp]:
  "rp_ctx (report_frontend_error fe r) = rp_ctx r" "rp_frontends (report_frontend_error fe r) = rp_frontends r"
  "rp_names (report_frontend_error fe r) = rp_names r" "announced (rp_out (report_frontend_error fe r)) = announced (rp_out r)"
  "rp_defining (report_frontend_error fe r) = rp_defining r" "rp_pending (report_frontend_error fe r) = rp_pending r"
  by (simp_all add: report_frontend_error_def)

lemma session_init: "session_fe (rp_funcs r) (fn_name f) (frontend_init (rp_ctx r) f m)"
  by (simp add: session_fe_def frontend_init_def)

lemma session_add_word: "session_fe fs nm fe \<Longrightarrow> \<not> is_macro (w_data w) \<Longrightarrow> fe_kept (session_fe fs nm) (frontend_add_word E w fe)"
  by (auto simp: frontend_add_word_def fe_fails session_fe_def split: option.split)

lemma session_add_words: "session_fe fs nm fe \<Longrightarrow> \<forall>(n, d)\<in>set ws. \<not> is_macro d \<Longrightarrow> fe_kept (session_fe fs nm) (add_words E ws fe)"
  by (induction E ws fe rule: add_words.induct) (auto intro!: fe_kept_bind session_add_word)

lemma session_function_words: "session_fe fs nm fe \<Longrightarrow> fe_kept (session_fe fs nm) (add_function_words E is fe)"
  by (induction E "is" fe rule: add_function_words.induct) (auto intro!: fe_kept_bind session_add_word simp: frontend_add_word_func_def)

lemma session_build: "fe_kept (session_fe (rp_funcs r) (fn_name f)) (build_source R f n r)"
proof -
  have "\<forall>(n, d)\<in>set core_words. \<not> is_macro d" by (simp add: core_words_def)
  then show ?thesis unfolding build_source_def build_frontend_def frontend_add_core_words_def frontend_add_word_native_def
    by (intro fe_kept_bind session_add_words session_init session_function_words session_add_word session_compile_source) simp_all
qed

lemma session_built:
  assumes "build_source R f n r = m"
  shows "m = FOk u fe \<Longrightarrow> x_funcs (fe_ctx fe) = rp_funcs r \<and> fn_name (fe_func fe) = fn_name f"
    "m = FFail fe \<Longrightarrow> x_funcs (fe_ctx fe) = rp_funcs r"
  using session_build [of r f R n] assms by (auto simp: session_fe_def)

lemma compile_with_funcs: "compile_with E f fe = FOk code fe' \<Longrightarrow> x_funcs (fe_ctx fe') = x_funcs (fe_ctx fe)"
proof -
  assume c: "compile_with E f fe = FOk code fe'"
  let ?fe = "fe\<lparr>fe_words := []\<rparr>"
  have "compile_with E f ?fe = FOk code (fe'\<lparr>fe_words := []\<rparr>)"
    using c by (auto simp: compile_with_def split: option.splits prod.splits)
  moreover have "session_fe (x_funcs (fe_ctx fe)) (fn_name (fe_func fe)) ?fe" by (simp add: session_fe_def)
  ultimately show ?thesis using session_compile [of "x_funcs (fe_ctx fe)" "fn_name (fe_func fe)" ?fe E f] by (simp add: session_fe_def)
qed

text \<open>What runs may print, but not define.\<close>

lemma print_keeps:
  "natives_keep (\<lambda>out. announced out = as) \<lparr>e_alloc = al, e_place = pl, e_native = repl_native R\<rparr>"
  by (auto simp: natives_keep_def repl_native_def print_int_def user_is_def split: if_splits)

lemma run_code_tables:
  assumes "run_code R code fe r = Some (b, r')" "x_funcs (fe_ctx fe) = rp_funcs r"
  shows "same_tables r r' \<and> rp_defining r' = rp_defining r \<and> rp_pending r' = rp_pending r"
proof -
  from assms(1) obtain res v m out where run: "run_vm (re_fe R) (repl_native R) code (fe_mem fe) (rp_out r) (rp_vm r) = Some (res, v, m, out)"
    and r': "r' = (if res \<noteq> VM_OK then say (Vm_returned res) else say Ran) (free_built_func (fe\<lparr>fe_mem := m\<rparr>) (r\<lparr>rp_vm := v, rp_out := out\<rparr>))"
    by (auto simp: run_code_def Let_def split: option.splits prod.splits if_splits)
  let ?E = "\<lparr>e_alloc = en_alloc (re_fe R), e_place = en_place (re_fe R), e_native = repl_native R\<rparr>"
  from run obtain m1 where "vm_run ?E (en_steps (re_fe R)) (code_addr code) (attach (map_code code (fe_mem fe)) (rp_out r) (rp_vm r)) = Return res m1" "out = vm_user m1"
    by (auto simp: run_vm_def split: ctl.splits)
  moreover have "natives_keep (\<lambda>out. announced out = announced (rp_out r)) ?E" by (rule print_keeps)
  ultimately have "announced out = announced (rp_out r)"
    using user_is_vm_run [of "\<lambda>out. announced out = announced (rp_out r)" ?E "attach (map_code code (fe_mem fe)) (rp_out r) (rp_vm r)"
        "en_steps (re_fe R)" "code_addr code"] by (simp add: attach_def user_is_def)
  then show ?thesis using r' assms(2) by (auto simp: same_tables_def)
qed


lemma run_anonymous_tables:
  assumes "run_anonymous R r = Some (b, r')"
  shows "same_tables r r' \<and> rp_defining r' = rp_defining r \<and> rp_pending r' = rp_pending r"
proof (cases "build_source R (empty_func ''<repl>'') (length (rp_funcs r)) r")
  case (FFail fe)
  then show ?thesis using assms session_built(2) [OF FFail] by (auto simp: run_anonymous_def same_tables_def)
next
  case (FOk u fe)
  obtain f code fe1 where f: "lower_func_defers R (fe_func fe) = Some f" "compile_with (re_fe R) f fe = FOk code fe1"
    "code_addr code = 0 \<and> r' = free_built_func fe1 (say (Ir_failed None) r) \<or> run_code R code fe1 r = Some (b, r')"
    using assms FOk by (auto simp: run_anonymous_def split: option.splits fres.splits if_splits)
  have "x_funcs (fe_ctx fe1) = rp_funcs r" using compile_with_funcs [OF f(2)] session_built(1) [OF FOk refl] by simp
  then show ?thesis using f(3) run_code_tables by (auto simp: same_tables_def)
qed (use assms in \<open>simp add: run_anonymous_def\<close>)

lemma grow_tables_sel:
  "grow_tables R r = (ok, r1) \<Longrightarrow> rp_ctx r1 = rp_ctx r \<and> rp_frontends r1 = rp_frontends r \<and> rp_names r1 = rp_names r \<and> rp_out r1 = rp_out r
     \<and> rp_defining r1 = rp_defining r \<and> rp_pending r1 = rp_pending r \<and> (ok \<longrightarrow> length (rp_funcs r) \<le> 65535)"
  by (auto simp: grow_tables_def Let_def split: if_splits option.splits)

lemma lower_func_name: "lower_func_defers R f = Some g \<Longrightarrow> fn_name g = fn_name f"
  by (auto simp: lower_func_defers_def split: if_splits)

text \<open>What a definition adds.\<close>

definition adds_function :: "repl \<Rightarrow> repl \<Rightarrow> bool" where
  "adds_function r r' \<longleftrightarrow> (\<exists>name f fe. rp_funcs r' = rp_funcs r @ [f] \<and> fn_name f = Some name \<and> rp_names r' = rp_names r @ [name]
     \<and> rp_frontends r' = rp_frontends r @ [fe] \<and> announced (rp_out r') = announced (rp_out r) @ [(name, length (rp_funcs r))]
     \<and> rp_pending r = Some name \<and> \<not> name_exists r name \<and> length (rp_funcs r) \<le> 65535)"

lemma define_named_tables:
  assumes "define_named R r = Some (b, r')" "rp_pending r \<noteq> None"
  shows "same_tables r r' \<or> adds_function r r'"
proof -
  obtain name where name: "rp_pending r = Some name" using assms(2) by auto
  show ?thesis
  proof (cases "name_exists r name")
    case True
    then show ?thesis using assms(1) name by (auto simp: define_named_def same_tables_def)
  next
    case new: False
    obtain ok r1 where g: "grow_tables R r = (ok, r1)" by fastforce
    note g1 = grow_tables_sel [OF g]
    show ?thesis
    proof (cases "ok \<and> en_alloc (re_fe R) 432")
      case False
      then show ?thesis using assms(1) name new g g1 by (cases ok) (auto simp: define_named_def same_tables_def)
    next
      case True
      define r2 where "r2 = set_funcs (rp_funcs r1 @ [empty_func name]) r1"
      have r2: "rp_funcs r2 = rp_funcs r @ [empty_func name]" "rp_frontends r2 = rp_frontends r" "rp_names r2 = rp_names r" "rp_out r2 = rp_out r"
        using g1 by (simp_all add: r2_def)
      let ?b = "build_source R (empty_func name) (length (rp_funcs r)) r2"
      have d: "define_named R r = (case ?b of
              FUndef \<Rightarrow> None
            | FFail fe \<Rightarrow> Some (False, drop_func (free_built_func fe (report_frontend_error fe r2)))
            | FOk u fe \<Rightarrow> (case lower_func_defers R (fe_func fe) of
                None \<Rightarrow> None
              | Some f \<Rightarrow> (case compile_with (re_fe R) f fe of
                  FOk code fe \<Rightarrow>
                    if code_addr code = 0 then Some (False, drop_func (free_built_func fe (say (Ir_failed (Some name)) r2)))
                    else Some (True, keep_func R name f (fe\<lparr>fe_mem := unmap (code_addr code) (length (code_bytes code)) (fe_mem fe)\<rparr>) r2)
                | _ \<Rightarrow> None)))"
        unfolding r2_def using True name new g by (simp add: define_named_def Let_def)
      show ?thesis
      proof (cases ?b)
        case (FFail fe)
        then show ?thesis using assms(1) d session_built(2) [OF FFail refl] r2 by (auto simp: drop_func_def same_tables_def)
      next
        case (FOk u fe)
        have s: "x_funcs (fe_ctx fe) = rp_funcs r2" "fn_name (fe_func fe) = Some name"
          using session_built(1) [OF FOk refl] by (simp_all add: empty_func_def)
        obtain f code fe1 where f: "lower_func_defers R (fe_func fe) = Some f" "compile_with (re_fe R) f fe = FOk code fe1"
          using assms(1) d FOk by (auto split: option.splits fres.splits)
        have x: "x_funcs (fe_ctx fe1) = rp_funcs r @ [empty_func name]" using compile_with_funcs [OF f(2)] s(1) r2(1) by simp
        have n: "fn_name f = Some name" using lower_func_name [OF f(1)] s(2) by simp
        show ?thesis
        proof (cases "code_addr code = 0")
          case True
          then show ?thesis using assms(1) d FOk f r2 x by (auto simp: drop_func_def same_tables_def)
        next
          case False
          then have "r' = keep_func R name f (fe1\<lparr>fe_mem := unmap (code_addr code) (length (code_bytes code)) (fe_mem fe1)\<rparr>) r2"
            using assms(1) d FOk f by simp
          then have "adds_function r r'" using r2 x n name new g1 True unfolding adds_function_def keep_func_def Let_def
            by (intro exI [of _ name] exI [of _ f] exI) auto
          then show ?thesis ..
        qed
      qed (use assms(1) d in simp)
    qed
  qed
qed

lemma adds_function_ok:
  assumes "repl_ok r" "adds_function r r'" "rp_defining r' = (rp_pending r' \<noteq> None)"
  shows "repl_ok r'"
proof -
  obtain name f fe where a: "rp_funcs r' = rp_funcs r @ [f]" "fn_name f = Some name" "rp_names r' = rp_names r @ [name]"
    "rp_frontends r' = rp_frontends r @ [fe]" "announced (rp_out r') = announced (rp_out r) @ [(name, length (rp_funcs r))]"
    "\<not> name_exists r name" "length (rp_funcs r) \<le> 65535"
    using assms(2) by (auto simp: adds_function_def)
  have m: "map fn_name (rp_funcs r) = map Some (rp_names r)" using assms(1) by (simp add: repl_ok_def)
  then have l: "length (rp_funcs r) = length (rp_names r)" by (metis length_map)
  have "name \<notin> set (rp_names r)"
  proof
    assume "name \<in> set (rp_names r)"
    then have "Some name \<in> set (map fn_name (rp_funcs r))" using m by simp
    then show False using a(6) by (auto simp: name_exists_def list_ex_iff)
  qed
  then show ?thesis using assms(1,3) a l by (auto simp: repl_ok_def)
qed

lemma same_tables_ok: "repl_ok r \<Longrightarrow> same_tables r r' \<Longrightarrow> rp_defining r' = (rp_pending r' \<noteq> None) \<Longrightarrow> repl_ok r'"
  by (simp add: repl_ok_def same_tables_def)


section \<open>Lines and sessions\<close>

lemma append_source_sel:
  "append_source R line r = (ok, r') \<Longrightarrow> same_tables r r' \<and> rp_defining r' = rp_defining r \<and> rp_pending r' = rp_pending r"
  by (auto simp: append_source_def same_tables_def split: option.splits)

lemma same_tables_trans: "same_tables a b \<Longrightarrow> same_tables b c \<Longrightarrow> same_tables a c"
  by (simp add: same_tables_def)

lemma start_definition_sel:
  "\<not> rp_defining r \<Longrightarrow> rp_pending r = None \<Longrightarrow> same_tables r (start_definition R name body r)
     \<and> rp_defining (start_definition R name body r) = (rp_pending (start_definition R name body r) \<noteq> None)"
  unfolding start_definition_def Let_def
  by (auto simp: same_tables_def split: prod.split bool.split dest!: append_source_sel)

lemma begin_definition_sel:
  "begin_definition R line r = (b, r') \<Longrightarrow> \<not> rp_defining r \<Longrightarrow> rp_pending r = None
     \<Longrightarrow> same_tables r r' \<and> rp_defining r' = (rp_pending r' \<noteq> None)"
  using start_definition_sel [of r R]
  by (auto simp: begin_definition_def Let_def same_tables_def split: if_splits prod.splits)

lemma finish_form_tables:
  assumes "repl_ok r" "finish_form R r = Some r'"
  shows "repl_ok r' \<and> (same_tables r r' \<or> adds_function r r')"
proof -
  obtain b r1 where f: "(if rp_defining r then define_named R r else run_anonymous R r) = Some (b, r1)"
    and r': "r' = r1\<lparr>rp_pending := None, rp_source := [], rp_defining := False\<rparr>"
    using assms(2) by (auto simp: finish_form_def split: option.splits prod.splits)
  have p: "rp_defining r = (rp_pending r \<noteq> None)" using assms(1) by (simp add: repl_ok_def)
  have "same_tables r r1 \<or> adds_function r r1"
  proof (cases "rp_defining r")
    case True
    then show ?thesis using f p define_named_tables [of R r b r1] by simp
  next
    case False
    then show ?thesis using f run_anonymous_tables [of R r b r1] by simp
  qed
  then have t: "same_tables r r' \<or> adds_function r r'" by (simp add: r' same_tables_def adds_function_def)
  have "rp_defining r' = (rp_pending r' \<noteq> None)" by (simp add: r')
  then have "repl_ok r'" using t same_tables_ok [OF assms(1)] adds_function_ok [OF assms(1)] by blast
  then show ?thesis using t ..
qed

lemma repl_line_tables:
  assumes "repl_ok r" "repl_line R line r = Some (go, r')"
  shows "repl_ok r' \<and> (same_tables r r' \<or> (\<exists>name f. rp_funcs r' = rp_funcs r @ [f] \<and> fn_name f = Some name
    \<and> rp_names r' = rp_names r @ [name] \<and> announced (rp_out r') = announced (rp_out r) @ [(name, length (rp_funcs r))]))"
proof -
  define input where "input = trim line"
  obtain complete rest where t: "take_final_ret input = (complete, rest)" by fastforce
  obtain handled r1 where h: "(if \<not> rp_defining r \<and> rp_source r = [] then begin_definition R (trim rest) r else (False, r)) = (handled, r1)" by fastforce
  obtain stored r2 where a: "(if \<not> handled \<and> trim rest \<noteq> [] then append_source R (trim rest) r1 else (True, r1)) = (stored, r2)" by fastforce
  have r1: "same_tables r r1" "rp_defining r1 = (rp_pending r1 \<noteq> None)"
    using h assms(1) begin_definition_sel [of R "trim rest" r] by (auto simp: repl_ok_def same_tables_def split: if_splits)
  have "same_tables r1 r2" "rp_defining r2 = rp_defining r1" "rp_pending r2 = rp_pending r1"
    using a append_source_sel [of R "trim rest" r1] by (auto simp: same_tables_def split: if_splits)
  then have r2: "same_tables r r2" "rp_defining r2 = (rp_pending r2 \<noteq> None)" using r1 same_tables_trans by auto
  have ok: "repl_ok r2" using same_tables_ok [OF assms(1) r2] .
  have line: "repl_line R line r = (if input = '':quit'' then Some (False, r)
     else if \<not> stored then Some (False, say Out_of_memory r2)
     else if complete \<and> (rp_defining r2 \<or> rp_source r2 \<noteq> [] \<or> trim rest = []) then map_option (Pair True) (finish_form R r2)
     else Some (True, r2))"
    unfolding repl_line_def by (simp only: Let_def input_def [symmetric] t h a prod.case)
  have "repl_ok r' \<and> (same_tables r r' \<or> adds_function r2 r')"
    using assms line r2 ok same_tables_ok [OF assms(1), of r'] finish_form_tables [OF ok, of R r'] same_tables_trans [OF r2(1)]
    by (auto simp: same_tables_def split: if_splits)
  then show ?thesis using r2(1) by (auto simp: same_tables_def adds_function_def name_exists_def)
qed

lemma repl_start_ok: "repl_ok (repl_start R place m)"
  by (simp add: repl_ok_def repl_start_def)

lemma repl_lines_ok: "repl_ok r1 \<Longrightarrow> repl_lines R lines r1 = Some r \<Longrightarrow> repl_ok r"
proof (induction lines arbitrary: r1)
  case (Cons l ls)
  obtain go r2 where l: "repl_line R l r1 = Some (go, r2)" using Cons.prems(2) by (auto split: option.splits)
  have "repl_ok r2" using repl_line_tables [OF Cons.prems(1) l] by blast
  then show ?case using Cons.IH Cons.prems(2) l by (cases go) auto
qed simp

text \<open>
  C40.  A line of input keeps the tables of the session: functions, names and frontends stay aligned,
  no function is defined twice, changed or removed, and a line adds at most the one function it
  announces; a failed definition leaves the function table as it was.
\<close>

theorem repl_line_keeps_tables:
  assumes "repl_ok r" "repl_line R line r = Some (go, r')"
  shows "repl_ok r' \<and> (rp_funcs r' = rp_funcs r \<and> announced (rp_out r') = announced (rp_out r)
     \<or> (\<exists>name f. rp_funcs r' = rp_funcs r @ [f] \<and> fn_name f = Some name \<and> name \<notin> set (rp_names r)
           \<and> announced (rp_out r') = announced (rp_out r) @ [(name, length (rp_funcs r))]))"
  using repl_line_tables [OF assms] by (auto simp: same_tables_def repl_ok_def)

text \<open>
  C39.  After any session that returns, the function table holds exactly the functions the session
  announced as defined, in that order and under those numbers, each name once.
\<close>

theorem session_defines_announced:
  assumes "repl_lines R lines (repl_start R place m) = Some r"
  shows "announced (rp_out r) = zip (rp_names r) [0..<length (rp_funcs r)] \<and> map fn_name (rp_funcs r) = map Some (rp_names r)
    \<and> distinct (rp_names r) \<and> length (rp_frontends r) = length (rp_funcs r)"
  using repl_lines_ok [OF repl_start_ok assms] by (simp add: repl_ok_def)

section \<open>A session\<close>

text \<open>A definition that finds no room for its table entry, a definition without a name, and the end of the session.\<close>

definition demo_repl_env :: repl_env where
  "demo_repl_env = \<lparr>re_fe = \<lparr>en_alloc = (\<lambda>n. n < 500), en_place = (\<lambda>m n. 4096), en_macro = (\<lambda>i v. None), en_entry = (\<lambda>i. i + 1),
     en_static = (\<lambda>i. 64 + 8 * i), en_code_place = (\<lambda>i. 8192), en_depth = 3, en_blocks = 40, en_steps = 100\<rparr>,
     re_print_entry = 9, re_print_static = 96\<rparr>"

definition demo_repl_start :: repl where
  "demo_repl_start = repl_start demo_repl_env (\<lambda>i. 9000) (\<lambda>a. None)"

definition demo_lines :: "string list" where
  "demo_lines = [''Func twice x ( 1 Print'', '')'', ''1 Drop Ret'', ''Func'', '' 7 Print'', '':quit'', ''unread'']"

lemma demo_session_returns: "map_option rp_out (repl_lines demo_repl_env demo_lines demo_repl_start) = Some [Name_expected]"
  unfolding demo_lines_def demo_repl_start_def by code_simp

lemma demo_line_returns:
  "map_option (\<lambda>(go, r). (go, rp_pending r, rp_source r)) (repl_line demo_repl_env ''Func twice x'' demo_repl_start) = Some (True, Some ''twice'', [CHR ''x'', CHR 0x0A])"
  unfolding demo_repl_start_def by code_simp

theorem session_defines_announced_witness:
  "\<exists>r. repl_lines demo_repl_env demo_lines demo_repl_start = Some r \<and> rp_out r = [Name_expected] \<and> distinct (rp_names r)
     \<and> length (rp_frontends r) = length (rp_funcs r)"
proof -
  obtain r where r: "repl_lines demo_repl_env demo_lines demo_repl_start = Some r" "rp_out r = [Name_expected]"
    using demo_session_returns by auto
  then show ?thesis using session_defines_announced [OF r(1) [unfolded demo_repl_start_def]] by blast
qed

theorem repl_line_keeps_tables_witness:
  "\<exists>r. repl_line demo_repl_env ''Func twice x'' demo_repl_start = Some (True, r) \<and> rp_pending r = Some ''twice'' \<and> repl_ok r"
proof -
  obtain r where r: "repl_line demo_repl_env ''Func twice x'' demo_repl_start = Some (True, r)" "rp_pending r = Some ''twice''"
    using demo_line_returns by auto
  have "repl_ok demo_repl_start" by (simp add: demo_repl_start_def repl_start_ok)
  then show ?thesis using repl_line_keeps_tables [OF _ r(1)] r by blast
qed

end
