(* ===== verification/Interpreter_Code.thy ===== *)
theory Interpreter_Code
  imports Interpreter
begin

text \<open>
  The bytecode of the outer interpreter.  Whenever memory suffices, compiling the function that
  \<^verbatim>\<open>compile_interpreter\<close> writes down as blocks yields one fixed program of 116 bytes, in which only the
  addresses of the four native cells vary.
\<close>

section \<open>The compiler with enough memory\<close>

text \<open>The rest of a sequence is looked at only after its first step is known.\<close>

lemma cbind_lazy: "m = m' \<Longrightarrow> cbind m f = cbind m' f" by simp

lemma compile_block_at: "compile_block (Suc n) K idx c =
     (if length (fn_blocks (c_func c)) \<le> idx then CFail c
     else case fn_blocks (c_func c) ! idx of
       BLOCK_BASIC r \<Rightarrow> compile_basic K r c
     | BLOCK_MANY cur nxt \<Rightarrow> compile_many (compile_block n K) n cur nxt c
     | BLOCK_CHAIN cur nxt \<Rightarrow> CFail c
     | BLOCK_CRASH \<Rightarrow> cbind (eop B_CRASH c) (\<lambda>_. COk COMPILE_UNREACHABLE)
     | BLOCK_HARD_CRASH \<Rightarrow> cbind (eop B_HARD_CRASH c) (\<lambda>_. COk COMPILE_UNREACHABLE)
     | BLOCK_CRASH_PAD body pad \<Rightarrow> compile_crash_pad (compile_block n K) body pad c
     | BLOCK_BRANCH cond yes no \<Rightarrow> compile_branch K (compile_block n K) cond yes no c
     | BLOCK_LOOP body \<Rightarrow> compile_loop (compile_block n K) body c
     | BLOCK_BREAK level \<Rightarrow> compile_break level c
     | BLOCK_VAR v body \<Rightarrow> compile_var (compile_block n K) v body c
     | BLOCK_DEFER nxt defer \<Rightarrow> CFail c)" by simp

lemma bytes_2: "bytes_of_nat 2 n = [n mod 256, n div 256 mod 256]"
  by (simp only: numeral_2_eq_2 bytes_of_nat.simps)

lemma bytes_4: "bytes_of_nat 4 n = [n mod 256, n div 256 mod 256, n div 256 div 256 mod 256, n div 256 div 256 div 256 mod 256]"
proof -
  have "(4::nat) = Suc (Suc (Suc (Suc 0)))" by simp
  then show ?thesis by (simp only: bytes_of_nat.simps)
qed

lemma emit_room:
  "emit_op (\<lambda>n. True) x cb = emit_bytes (\<lambda>n. True) [opcode x] cb"
  "emit_offset (\<lambda>n. True) i cb = emit_bytes (\<lambda>n. True) [nat (i mod 65536) mod 256, nat (i mod 65536) div 256 mod 256] cb"
  "emit_uoffset (\<lambda>n. True) k cb = emit_bytes (\<lambda>n. True) [u16 k mod 256, u16 k div 256 mod 256] cb"
  "emit_count (\<lambda>n. True) k cb = emit_bytes (\<lambda>n. True) [u32 k mod 256, u32 k div 256 mod 256, u32 k div 256 div 256 mod 256, u32 k div 256 div 256 div 256 mod 256] cb"
  "emit_pointer (\<lambda>n. True) k cb = emit_bytes (\<lambda>n. True) (bytes_of_nat 8 (u64 k)) cb"
  "emit_bytes (\<lambda>n. True) bs cb = Some \<lparr>cb_data = cb_data cb @ bs, cb_cap = (if length (cb_data cb) + length bs \<le> cb_cap cb then cb_cap cb
     else grow_cap (if cb_cap cb = 0 then 64 else cb_cap cb) (length (cb_data cb) + length bs))\<rparr>"
  by (simp_all add: emit_op_def emit_offset_def emit_uoffset_def emit_count_def emit_pointer_def emit_bytes_def grow_bytes_def Let_def bytes_2 bytes_4)

lemma grow_once: "need \<le> 128 \<Longrightarrow> 64 < need \<Longrightarrow> grow_cap 64 need = 128" "need \<le> 64 \<Longrightarrow> grow_cap 64 need = 64"
  by (subst grow_cap.simps, simp, subst grow_cap.simps, simp)(subst grow_cap.simps, simp)

lemma patch_room: "target \<le> 65535 \<Longrightarrow> patch_uoffset at target cb = Some (cb\<lparr>cb_data := splice (cb_data cb) at [target mod 256, target div 256 mod 256]\<rparr>)"
  by (simp add: patch_uoffset_def bytes_2)

section \<open>The function and its tables\<close>

text \<open>The code of the interpreter, with the addresses of the four cells that hold its natives.\<close>

definition interpreter_code :: "(nat \<Rightarrow> nat) \<Rightarrow> byte list" where
  "interpreter_code cell =
     [2, 8, 0,  2, 8, 0,
      3, 240, 255,  25] @ bytes_of_nat 8 (u64 (cell 0)) @ [27, 0, 0, 0, 0,  5, 1, 0, 0, 0,  3, 240, 255,  20, 36, 0, 103, 0,
      3, 248, 255,  25] @ bytes_of_nat 8 (u64 (cell 1)) @ [27, 0, 0, 0, 0,  5, 1, 0, 0, 0,  3, 248, 255,  20, 66, 0, 86, 0,
      3, 248, 255,  25] @ bytes_of_nat 8 (u64 (cell 2)) @ [27, 1, 0, 0, 0,  18, 100, 0,
      25] @ bytes_of_nat 8 (u64 (cell 3)) @ [27, 0, 0, 0, 0,  18, 106, 0,
      18, 109, 0,  18, 6, 0,  2, 248, 255,  2, 248, 255,  1]"

definition laid_interpreter :: func where
  "laid_interpreter = interpreter_func\<lparr>fn_types :=
   [\<lparr>t_kind = TYPE_INT, t_name = Some ''int'', t_portal = False, t_payload = 8, t_size = 8, t_align = 8\<rparr>,
    \<lparr>t_kind = TYPE_BYTE, t_name = Some ''byte'', t_portal = False, t_payload = 1, t_size = 8, t_align = 1\<rparr>] @
   map (\<lambda>t. t\<lparr>t_payload := 8, t_size := 8, t_align := 8\<rparr>) (drop 2 interpreter_types)\<rparr>"

lemmas table_defs = laid_interpreter_def interpreter_func_def interpreter_types_def native_type_def bare_type_def int_var_def interpreter_blocks_def
  interpreter_ops_def interpreter_ctx_def interpreter_globals_def TYPE_INT_ID_def

lemma types_laid: "type_layout_all interpreter_types = Some (True, fn_types laid_interpreter)"
  by code_simp

lemma laid_interpreter_eq: "interpreter_func\<lparr>fn_types := fn_types laid_interpreter\<rparr> = laid_interpreter"
  by (simp add: laid_interpreter_def)

lemma laid_blocks: "fn_blocks laid_interpreter = interpreter_blocks" "fn_ops laid_interpreter = interpreter_ops"
  "length interpreter_blocks = 14" "length interpreter_ops = 13" "length (fn_vars laid_interpreter) = 2" "fn_vars laid_interpreter \<noteq> []"
  "length (fn_types laid_interpreter) = 6" "fn_sig laid_interpreter = \<lparr>s_ins = [], s_outs = []\<rparr>" "x_funcs (interpreter_ctx E) = []"
  "length (x_globals (interpreter_ctx E)) = 4" "fn_vars laid_interpreter = [int_var ''has_token'', int_var ''word_handle'']"
  by (simp_all add: table_defs)

lemma laid_block_at:
  "interpreter_blocks ! 0 = BLOCK_VAR 0 1"
  "interpreter_blocks ! 1 = BLOCK_VAR 1 2"
  "interpreter_blocks ! 2 = BLOCK_LOOP 3"
  "interpreter_blocks ! 3 = BLOCK_MANY 4 5"
  "interpreter_blocks ! 4 = BLOCK_BASIC \<lparr>r_start = 0, r_len = 3\<rparr>"
  "interpreter_blocks ! 5 = BLOCK_CHAIN 6 BLOCK_INVALID"
  "interpreter_blocks ! 6 = BLOCK_BRANCH \<lparr>r_start = 3, r_len = 1\<rparr> 7 13"
  "interpreter_blocks ! 7 = BLOCK_MANY 8 9"
  "interpreter_blocks ! 8 = BLOCK_BASIC \<lparr>r_start = 4, r_len = 3\<rparr>"
  "interpreter_blocks ! 9 = BLOCK_CHAIN 10 BLOCK_INVALID"
  "interpreter_blocks ! 10 = BLOCK_BRANCH \<lparr>r_start = 7, r_len = 1\<rparr> 11 12"
  "interpreter_blocks ! 11 = BLOCK_BASIC \<lparr>r_start = 8, r_len = 3\<rparr>"
  "interpreter_blocks ! 12 = BLOCK_BASIC \<lparr>r_start = 11, r_len = 2\<rparr>"
  "interpreter_blocks ! 13 = BLOCK_BREAK 2"
  by (simp_all add: interpreter_blocks_def)

lemma laid_type_at:
  "t_size (fn_types laid_interpreter ! 0) = 8"
  "t_kind (fn_types laid_interpreter ! 2) = TYPE_NATIVE_FUNC_POINTER \<lparr>s_ins = [], s_outs = [int_var ''has_token'']\<rparr>"
  "t_kind (fn_types laid_interpreter ! 3) = TYPE_NATIVE_FUNC_POINTER \<lparr>s_ins = [], s_outs = [int_var ''word_handle'']\<rparr>"
  "t_kind (fn_types laid_interpreter ! 4) = TYPE_NATIVE_FUNC_POINTER \<lparr>s_ins = [\<lparr>si_var = int_var ''word_handle'', si_mut = False\<rparr>], s_outs = []\<rparr>"
  "t_kind (fn_types laid_interpreter ! 5) = TYPE_NATIVE_FUNC_POINTER \<lparr>s_ins = [], s_outs = []\<rparr>"
  by (simp_all add: table_defs)

lemma laid_global_at:
  "x_globals (interpreter_ctx E) ! 0 = \<lparr>g_var = \<lparr>v_tid = 2, v_name = Some ''next_token''\<rparr>, g_mem = en_static E 0, g_owned = False, g_mut = False\<rparr>"
  "x_globals (interpreter_ctx E) ! 1 = \<lparr>g_var = \<lparr>v_tid = 3, v_name = Some ''lookup_word''\<rparr>, g_mem = en_static E 1, g_owned = False, g_mut = False\<rparr>"
  "x_globals (interpreter_ctx E) ! 2 = \<lparr>g_var = \<lparr>v_tid = 4, v_name = Some ''engage_word''\<rparr>, g_mem = en_static E 2, g_owned = False, g_mut = False\<rparr>"
  "x_globals (interpreter_ctx E) ! 3 = \<lparr>g_var = \<lparr>v_tid = 5, v_name = Some ''interpret_fallback''\<rparr>, g_mem = en_static E 3, g_owned = False, g_mut = False\<rparr>"
  by (simp_all add: interpreter_ctx_def interpreter_globals_def)

lemma laid_op_at:
  "interpreter_ops ! 0 = \<lparr>o_kind = OP_PUSH_VAR, o_extra = 0\<rparr>"
  "interpreter_ops ! 1 = \<lparr>o_kind = OP_PUSH_GLOBAL, o_extra = 0\<rparr>"
  "interpreter_ops ! 2 = \<lparr>o_kind = OP_CALL_NATIVE_ON_STACK, o_extra = 0\<rparr>"
  "interpreter_ops ! 3 = \<lparr>o_kind = OP_PUSH_VAR, o_extra = 0\<rparr>"
  "interpreter_ops ! 4 = \<lparr>o_kind = OP_PUSH_VAR, o_extra = 1\<rparr>"
  "interpreter_ops ! 5 = \<lparr>o_kind = OP_PUSH_GLOBAL, o_extra = 1\<rparr>"
  "interpreter_ops ! 6 = \<lparr>o_kind = OP_CALL_NATIVE_ON_STACK, o_extra = 0\<rparr>"
  "interpreter_ops ! 7 = \<lparr>o_kind = OP_PUSH_VAR, o_extra = 1\<rparr>"
  "interpreter_ops ! 8 = \<lparr>o_kind = OP_PUSH_VAR, o_extra = 1\<rparr>"
  "interpreter_ops ! 9 = \<lparr>o_kind = OP_PUSH_GLOBAL, o_extra = 2\<rparr>"
  "interpreter_ops ! 10 = \<lparr>o_kind = OP_CALL_NATIVE_ON_STACK, o_extra = 0\<rparr>"
  "interpreter_ops ! 11 = \<lparr>o_kind = OP_PUSH_GLOBAL, o_extra = 3\<rparr>"
  "interpreter_ops ! 12 = \<lparr>o_kind = OP_CALL_NATIVE_ON_STACK, o_extra = 0\<rparr>"
  by (simp_all add: interpreter_ops_def)

lemma ranges: "op_indices \<lparr>r_start = 0, r_len = 3\<rparr> = [0, 1, 2]" "op_indices \<lparr>r_start = 3, r_len = 1\<rparr> = [3]"
  "op_indices \<lparr>r_start = 4, r_len = 3\<rparr> = [4, 5, 6]" "op_indices \<lparr>r_start = 7, r_len = 1\<rparr> = [7]" "op_indices \<lparr>r_start = 8, r_len = 3\<rparr> = [8, 9, 10]"
  "op_indices \<lparr>r_start = 11, r_len = 2\<rparr> = [11, 12]"
  by code_simp+

lemmas compile_steps = compile_block_at compiler_start_def compile_var_def scope_push_def push_grow_def Let_def emit_storage_add_def set_var_def kill_var_def
  cguard_def type_idx_valid_def compile_loop_def compile_many_def compile_basic_def compile_branch_def compile_cond_def compile_break_def
  emit_push_var_def var_rel_def compile_push_global_def compile_native_call_def push_type_def pop_types_def emitc_def patchc_def emit_room patch_room grow_once
  state_save_def state_of_def state_restore_def state_equal_def scope_add_patch_def scope_finish_def scope_result_def branch_join_def emit_jump_placeholder_def
  emit_epilogue_def int_var_def BLOCK_INVALID_def sig_len_def sig_tids_def

lemma nth_at_1: "(x # xs) ! 1 = xs ! 0" "(x # xs)[1 := y] = x # xs[0 := y]" "(x # xs)[0 := y] = y # xs" "(x # xs)[2 := y] = x # xs[1 := y]"
  "take 1 (x # xs) = [x]" "drop 1 (x # xs) = xs"
  by (simp_all add: numeral_2_eq_2)

section \<open>The program\<close>

lemma interpreter_compiles:
  "case cbind (compile_block (Suc (Suc (Suc (Suc (Suc (Suc (Suc (Suc (Suc k))))))))) K 0 (compiler_start (\<lambda>n. True) laid_interpreter (Some (interpreter_ctx E)))) (\<lambda>_. emit_epilogue) of
     COk _ c \<Rightarrow> cb_data (c_code c) = interpreter_code (en_static E) \<and> c_ctx c = Some (interpreter_ctx E) | _ \<Rightarrow> False"
  by (simp cong: cbind_lazy del: compile_block.simps One_nat_def list_update.simps(2)
      add: compile_steps TYPE_INT_ID_def laid_blocks laid_block_at laid_type_at laid_global_at laid_op_at ranges s16_def One_nat_def [symmetric] nth_at_1
        splice_def interpreter_code_def)

lemma compile_interpreter_code:
  assumes "en_alloc E = (\<lambda>n. True)" "0 < en_depth E" "9 \<le> en_blocks E"
  shows "compile_interpreter E = Some \<lparr>code_addr = en_code_place E 0, code_bytes = interpreter_code (en_static E)\<rparr>"
proof -
  obtain d where d: "en_depth E = Suc d" using assms(2) by (cases "en_depth E") auto
  obtain k where "en_blocks E = 9 + k" using assms(3) le_Suc_ex by blast
  then have k: "en_blocks E = Suc (Suc (Suc (Suc (Suc (Suc (Suc (Suc (Suc k))))))))" by simp
  have f: "fn_blocks interpreter_func \<noteq> []" "fn_vars interpreter_func \<noteq> []" "fn_types interpreter_func = interpreter_types"
    by (simp_all add: interpreter_func_def interpreter_blocks_def)
  let ?K = "\<lambda>idx y. map_option (\<lambda>(code, y'). (code, the y')) (vm_compile_no_defers d (en_blocks E) (\<lambda>n. True) 0 (x_funcs y ! idx) (Some y))"
  obtain u c where c: "cbind (compile_block (en_blocks E) ?K 0 (compiler_start (\<lambda>n. True) laid_interpreter (Some (interpreter_ctx E)))) (\<lambda>_. emit_epilogue) = COk u c"
    "cb_data (c_code c) = interpreter_code (en_static E)" "c_ctx c = Some (interpreter_ctx E)"
    using interpreter_compiles [where k = k and K = ?K and E = E] unfolding k by (auto split: cres.splits simp del: compile_block.simps)
  have "compile_body (en_blocks E) (\<lambda>n. True) 0 ?K interpreter_func (Some (interpreter_ctx E)) = Some (placed 0 c)"
    unfolding compile_body_def f(3) types_laid by (simp add: f laid_interpreter_eq c(1))
  then show ?thesis unfolding compile_interpreter_def assms(1) d by (simp add: d placed_def c interpreter_ctx_def)
qed
end
