(* ===== verification/Interpreter_Run.thy ===== *)
theory Interpreter_Run
  imports Interpreter_Code Frontend_Frame Machine_Inv
begin

text \<open>
  The run of the outer interpreter.  The machine executes the compiled program of
  \<^verbatim>\<open>Interpreter_Code\<close>; read as a whole, it is a loop over the tokens of the source that engages each
  word, falls back on names and numbers, and stops at the first failure.
\<close>

section \<open>Reading the program\<close>

lemma load_part: "load m a n = Some bs \<Longrightarrow> p + k \<le> n \<Longrightarrow> load m (a + p) k = Some (take k (drop p bs))"
proof -
  assume l: "load m a n = Some bs" and k: "p + k \<le> n"
  have "load m a (p + (k + (n - p - k))) = Some bs" using l k by simp
  then obtain xs ys zs where x: "load m a p = Some xs" "load m (a + p) k = Some ys" "bs = xs @ ys @ zs"
    by (auto simp: load_append split: option.splits)
  then show ?thesis using load_length [OF x(1)] load_length [OF x(2)] by simp
qed

lemma load_Cons: "load m a (Suc k) = Some (b # bs) \<longleftrightarrow> m a = Some b \<and> load m (Suc a) k = Some bs"
  by (auto split: option.splits)

abbreviation prog :: "fe_env \<Rightarrow> byte list" where "prog E \<equiv> interpreter_code (en_static E)"

text \<open>The instruction at an offset of the program.\<close>

definition fetches :: "fe_env \<Rightarrow> nat \<Rightarrow> byte list \<Rightarrow> bool" where
  "fetches E p bs \<longleftrightarrow> take (length bs) (drop p (prog E)) = bs"

lemma prog_length: "length (prog E) = 116"
  by (simp add: interpreter_code_def)

lemma program:
  "fetches E 0 [2, 8, 0]" "fetches E 3 [2, 8, 0]" "fetches E 6 [3, 240, 255]" "fetches E 9 (25 # bytes_of_nat 8 (u64 (en_static E 0)))"
  "fetches E 18 [27, 0, 0, 0, 0]" "fetches E 23 [5, 1, 0, 0, 0]" "fetches E 28 [3, 240, 255]" "fetches E 31 [20, 36, 0, 103, 0]"
  "fetches E 36 [3, 248, 255]" "fetches E 39 (25 # bytes_of_nat 8 (u64 (en_static E 1)))" "fetches E 48 [27, 0, 0, 0, 0]"
  "fetches E 53 [5, 1, 0, 0, 0]" "fetches E 58 [3, 248, 255]" "fetches E 61 [20, 66, 0, 86, 0]" "fetches E 66 [3, 248, 255]"
  "fetches E 69 (25 # bytes_of_nat 8 (u64 (en_static E 2)))" "fetches E 78 [27, 1, 0, 0, 0]" "fetches E 83 [18, 100, 0]"
  "fetches E 86 (25 # bytes_of_nat 8 (u64 (en_static E 3)))" "fetches E 95 [27, 0, 0, 0, 0]" "fetches E 100 [18, 106, 0]"
  "fetches E 103 [18, 109, 0]" "fetches E 106 [18, 6, 0]" "fetches E 109 [2, 248, 255]" "fetches E 112 [2, 248, 255]" "fetches E 115 [1]"
  by (simp_all add: fetches_def interpreter_code_def)

lemma fetched: "load m a 116 = Some (prog E) \<Longrightarrow> fetches E p bs \<Longrightarrow> p + length bs \<le> 116 \<Longrightarrow> load m (a + p) (length bs) = Some bs"
  using load_part [of m a 116 "prog E" p "length bs"] by (simp add: fetches_def)

section \<open>One instruction\<close>

lemma opcode_bytes: "opcode_of_byte 1 = Some B_RET" "opcode_of_byte 2 = Some B_STORAGE_ADD" "opcode_of_byte 3 = Some B_PUSH_VAR"
  "opcode_of_byte 5 = Some B_DROP_N" "opcode_of_byte 18 = Some B_JUMP" "opcode_of_byte 20 = Some B_BRANCH_TOP"
  "opcode_of_byte 25 = Some B_PUSH_GLOBAL" "opcode_of_byte 27 = Some B_CALL_NATIVE"
  by code_simp+

lemma opcode_ret: "opcode_of_byte (Suc 0) = Some B_RET"
  using opcode_bytes(1) by simp

text \<open>What an instruction reads: its opcode and operands, two bytes for an offset, four for a count, eight for a pointer.\<close>

lemma read_2: "load m a 3 = Some [b, x, y] \<Longrightarrow> m a = Some b \<and> load m (a + 1) 2 = Some [x, y]"
  using load_Cons [of m a 2 b "[x, y]"] by (simp add: numeral_3_eq_3 numeral_2_eq_2)

lemma read_4: "load m a 5 = Some [b, x, 0, y, 0] \<Longrightarrow> m a = Some b \<and> load m (a + 1) 2 = Some [x, 0] \<and> load m (a + 3) 2 = Some [y, 0]
    \<and> load m (a + 1) 4 = Some [x, 0, y, 0]"
  using load_part [of m a 5 "[b, x, 0, y, 0]" 1 2] load_part [of m a 5 "[b, x, 0, y, 0]" 3 2] load_part [of m a 5 "[b, x, 0, y, 0]" 1 4]
    load_Cons [of m a 4 b "[x, 0, y, 0]"] by (simp add: numeral_eq_Suc)

lemma read_8: "load m a 9 = Some (b # bs) \<Longrightarrow> m a = Some b \<and> load m (a + 1) 8 = Some bs"
  using load_Cons [of m a 8 b bs] by simp

lemmas step_defs = step_def opcode_bytes with_offset_def with_uoffset_def with_count_def with_pointer_def read_offset_def read_uoffset_def
  read_count_def read_pointer_def with_num_def with_load_def

lemma push_param_room: "e_alloc E = (\<lambda>n. True) \<Longrightarrow> \<exists>cap. push_param E p v = Some (v\<lparr>vm_params := vm_params v @ [p], vm_params_cap := cap\<rparr>)"
proof (cases "length (vm_params v) = vm_params_cap v")
  case True
  assume "e_alloc E = (\<lambda>n. True)"
  then show ?thesis using True by (auto simp: push_param_def push_grow_def Let_def)
next
  case False
  then have "push_param E p v = Some (v\<lparr>vm_params := vm_params v @ [p], vm_params_cap := vm_params_cap v\<rparr>)"
    by (simp add: push_param_def push_grow_def)
  then show ?thesis by blast
qed

lemma push_room: "e_alloc E = (\<lambda>n. True) \<Longrightarrow> \<exists>cap. push_or_crash E p m = Continue (m\<lparr>vm_params := vm_params m @ [p], vm_params_cap := cap\<rparr>)"
  using push_param_room [of E p m] by (auto simp: push_or_crash_def)

lemma plus_3: "n + 3 = Suc (Suc (Suc n))"
  by simp

lemma step_push_var:
  assumes "e_alloc E = (\<lambda>n. True)" "load (vm_mem m) (pc m) 3 = Some [3, x, y]" "signed 2 [x, y] = - int k" "k \<le> vm_storage_len m"
  shows "\<exists>cap. step E m = Continue (m\<lparr>pc := pc m + 3, vm_params := vm_params m @ [vm_storage m + vm_storage_len m - k], vm_params_cap := cap\<rparr>)"
  using read_2 [OF assms(2)] assms(3,4) push_room [OF assms(1), of "vm_storage m + vm_storage_len m - k" "m\<lparr>pc := pc m + 3\<rparr>"]
  by (auto simp: step_defs do_push_var_def plus_3)

lemma step_push_global:
  assumes "e_alloc E = (\<lambda>n. True)" "load (vm_mem m) (pc m) 9 = Some (25 # bytes_of_nat 8 (u64 a))" "0 < a" "a < W64"
  shows "\<exists>cap. step E m = Continue (m\<lparr>pc := pc m + 9, vm_params := vm_params m @ [a], vm_params_cap := cap\<rparr>)"
  using read_8 [OF assms(2)] assms(3,4) push_room [OF assms(1), of a "m\<lparr>pc := pc m + 9\<rparr>"]
  by (auto simp: step_defs do_push_global_def nat_of_bytes_of_nat add.commute [of 9])

lemma step_drop:
  assumes "load (vm_mem m) (pc m) 5 = Some [5, 1, 0, 0, 0]" "vm_params m = ps @ [p]"
  shows "step E m = Continue (m\<lparr>pc := pc m + 5, vm_params := ps\<rparr>)"
  using read_4 [OF assms(1)] assms(2) by (simp add: step_defs do_drop_n_def)

lemma step_jump: "load (vm_mem m) (pc m) 3 = Some [18, t, 0] \<Longrightarrow> step E m = Continue (m\<lparr>pc := base m + t\<rparr>)"
  using read_2 [of "vm_mem m" "pc m" 18 t 0] by (simp add: step_defs do_jump_def)

lemma step_branch_top:
  assumes "load (vm_mem m) (pc m) 5 = Some [20, y, 0, n, 0]" "vm_params m = ps @ [p]" "load (vm_mem m) p 8 = Some bs"
  shows "step E m = Continue (m\<lparr>pc := base m + (if signed 8 bs \<noteq> 0 then y else n), vm_params := ps\<rparr>)"
  using read_4 [OF assms(1)] assms(2,3) by (simp add: step_defs do_branch_top_def numeral_3_eq_3)

text \<open>A native that succeeds and leaves the stacks alone, and one that ends the run.\<close>

lemma step_call_native:
  assumes "load (vm_mem m) (pc m) 5 = Some [27, n, 0, 0, 0]" "vm_params m = ps @ [p]" "load (vm_mem m) p 8 = Some (bytes_of_nat 8 fn)"
    "0 < fn" "fn < W64" "n \<le> length ps"
    "e_native E fn (vm.truncate (m\<lparr>vm_params := ps\<rparr>)) = Some (r, (vm.truncate (m\<lparr>vm_params := ps\<rparr>))\<lparr>vm_user := u, vm_mem := M\<rparr>)"
  shows "r = VM_OK \<Longrightarrow> step E m = Continue (m\<lparr>pc := pc m + 5, vm_params := take (length ps - n) ps, vm_user := u, vm_mem := M\<rparr>)"
    "r = VM_HARD_CRASH \<Longrightarrow> \<exists>w. step E m = Return VM_HARD_CRASH w \<and> vm_user w = u \<and> vm_mem w = M"
  using read_4 [OF assms(1)] assms(2-7)
  by (simp_all add: step_defs do_call_native_def Let_def nat_of_bytes_of_nat vm.defs mach.defs)

lemma step_storage_add:
  assumes "load (vm_mem m) (pc m) 3 = Some [2, 8, 0]" "vm_storage_len m + 8 \<le> vm_storage_cap m"
    "store (vm_mem m) (vm_storage m + vm_storage_len m) (replicate 8 0) = Some M"
  shows "step E m = Continue (m\<lparr>pc := pc m + 3, vm_mem := M, vm_storage_len := vm_storage_len m + 8\<rparr>)"
  using read_2 [OF assms(1)] assms(2,3) by (simp add: step_defs do_storage_add_def storage_resize_def signed_def Let_def)

lemma step_storage_drop:
  assumes "load (vm_mem m) (pc m) 3 = Some [2, 248, 255]" "8 \<le> vm_storage_len m"
  shows "step E m = Continue (m\<lparr>pc := pc m + 3, vm_storage_len := vm_storage_len m - 8\<rparr>)"
  using read_2 [OF assms(1)] assms(2) by (simp add: step_defs do_storage_add_def storage_resize_def signed_def Let_def)

lemma step_ret:
  assumes "vm_mem m (pc m) = Some 1" "vm_storage_len m = 24" "load (vm_mem m) (vm_storage m) 24 = Some (replicate 24 0)"
  shows "step E m = Return VM_OK (m\<lparr>pc := pc m + 1, vm_storage_len := 0\<rparr>)"
proof -
  have "take 8 (replicate 24 (0::nat)) = replicate 8 0" "drop 8 (replicate 24 (0::nat)) = replicate 16 0" by simp_all
  moreover have "nat_of_bytes (replicate k 0) = 0" for k by (induction k) simp_all
  ultimately show ?thesis using assms by (simp add: step_defs opcode_ret do_ret_def storage_pop_return_def)
qed

section \<open>The machine inside the loop\<close>

abbreviation interp_env :: "fe_env \<Rightarrow> frontend vm_env" where
  "interp_env E \<equiv> \<lparr>e_alloc = en_alloc E, e_place = en_place E, e_native = interpreter_native E\<rparr>"

text \<open>
  What the run relies on: memory does not run out, a fresh block is unmapped, and the code, the native
  cells and the entries of the natives are where a loader would put them.
\<close>

definition apart :: "nat \<Rightarrow> nat \<Rightarrow> nat \<Rightarrow> nat \<Rightarrow> bool" where
  "apart a n b k \<longleftrightarrow> a + n \<le> b \<or> b + k \<le> a"

definition good_env :: "fe_env \<Rightarrow> bool" where
  "good_env E \<longleftrightarrow> en_alloc E = (\<lambda>n. True) \<and> 0 < en_depth E \<and> 9 \<le> en_blocks E \<and> en_code_place E 0 \<noteq> 0
     \<and> (\<forall>m n i. finite (dom m) \<longrightarrow> i < n \<longrightarrow> m (en_place E m n + i) = None)
     \<and> (\<forall>i<4. 0 < en_static E i \<and> en_static E i < W64 \<and> 0 < en_entry E i \<and> en_entry E i < W64
          \<and> apart (en_code_place E 0) 116 (en_static E i) 8)
     \<and> (\<forall>i<4. \<forall>j<4. i \<noteq> j \<longrightarrow> en_entry E i \<noteq> en_entry E j \<and> apart (en_static E i) 8 (en_static E j) 8)"

text \<open>The program, its cells, the return frame and the two variables in memory, at storage \<open>s\<close>.\<close>

definition cells_ok :: "fe_env \<Rightarrow> nat \<Rightarrow> mem \<Rightarrow> bool" where
  "cells_ok E s m \<longleftrightarrow> finite (dom m) \<and> load m (en_code_place E 0) 116 = Some (prog E)
     \<and> (\<forall>i<4. load m (en_static E i) 8 = Some (bytes_of_nat 8 (en_entry E i)))
     \<and> load m s 24 = Some (replicate 24 0) \<and> load m (s + 24) 16 \<noteq> None
     \<and> apart (en_code_place E 0) 116 s 40 \<and> (\<forall>i<4. apart (en_static E i) 8 s 40)"

definition loop_at :: "fe_env \<Rightarrow> nat \<Rightarrow> nat \<Rightarrow> nat list \<Rightarrow> frontend \<Rightarrow> frontend mach \<Rightarrow> bool" where
  "loop_at E s p ps fe m \<longleftrightarrow> pc m = en_code_place E 0 + p \<and> base m = en_code_place E 0 \<and> vm_params m = ps \<and> vm_user m = fe
     \<and> vm_storage m = s \<and> vm_storage_len m = 40 \<and> cells_ok E s (vm_mem m)"

text \<open>So many steps lead from one state to the other.\<close>

definition reaches :: "'u vm_env \<Rightarrow> nat \<Rightarrow> 'u mach \<Rightarrow> 'u mach \<Rightarrow> bool" where
  "reaches E n m m' \<longleftrightarrow> (\<forall>k. run E (n + k) m = run E k m')"

lemma reaches_step: "step E m = Continue m' \<Longrightarrow> reaches E 1 m m'"
  by (simp add: reaches_def)

lemma reaches_trans: "reaches E n m m' \<Longrightarrow> reaches E n' m' m'' \<Longrightarrow> reaches E (n + n') m m''"
  by (simp add: reaches_def add.assoc)

text \<open>A transition of the loop that leaves memory alone, and one that changes it to \<open>M\<close>.\<close>

definition moves :: "fe_env \<Rightarrow> nat \<Rightarrow> nat \<Rightarrow> frontend mach \<Rightarrow> nat \<Rightarrow> nat list \<Rightarrow> frontend \<Rightarrow> mem \<Rightarrow> bool" where
  "moves E s n m p ps fe M \<longleftrightarrow> (\<exists>m'. reaches (interp_env E) n m m' \<and> loop_at E s p ps fe m' \<and> vm_mem m' = M)"

lemma moves_trans:
  "moves E s n m p ps fe M \<Longrightarrow> (\<And>m'. loop_at E s p ps fe m' \<Longrightarrow> vm_mem m' = M \<Longrightarrow> moves E s n' m' p' ps' fe' M')
    \<Longrightarrow> moves E s (n + n') m p' ps' fe' M'"
  unfolding moves_def using reaches_trans by blast

lemma movesI: "step (interp_env E) m = Continue m' \<Longrightarrow> loop_at E s p ps fe m' \<Longrightarrow> moves E s 1 m p ps fe (vm_mem m')"
  unfolding moves_def using reaches_step by blast

lemma loop_fetch: "loop_at E s p ps fe m \<Longrightarrow> fetches E p bs \<Longrightarrow> p + n \<le> 116 \<Longrightarrow> length bs = n \<Longrightarrow> load (vm_mem m) (pc m) n = Some bs"
  using fetched [of "vm_mem m" "en_code_place E 0" E p bs] by (simp add: loop_at_def cells_ok_def)

lemma moves_push_var:
  assumes "good_env E" "loop_at E s p ps fe m" "fetches E p [3, x, y]" "p + 3 \<le> 116" "signed 2 [x, y] = - int k" "k + j = 40"
  shows "moves E s 1 m (p + 3) (ps @ [s + j]) fe (vm_mem m)"
proof -
  have "load (vm_mem m) (pc m) 3 = Some [3, x, y]" by (rule loop_fetch [OF assms(2,3,4)]) simp
  with step_push_var [of "interp_env E" m x y k] assms obtain cap where
    "step (interp_env E) m = Continue (m\<lparr>pc := pc m + 3, vm_params := vm_params m @ [vm_storage m + vm_storage_len m - k], vm_params_cap := cap\<rparr>)"
    by (auto simp: good_env_def loop_at_def)
  moreover have "s + 40 - k = s + j" using assms(6) by simp
  ultimately show ?thesis using movesI [of E m _ s "p + 3" "ps @ [s + j]" fe] assms by (simp add: loop_at_def)
qed

lemma moves_push_cell:
  assumes "good_env E" "loop_at E s p ps fe m" "fetches E p (25 # bytes_of_nat 8 (u64 (en_static E i)))" "p + 9 \<le> 116" "i < 4"
  shows "moves E s 1 m (p + 9) (ps @ [en_static E i]) fe (vm_mem m)"
proof -
  have "load (vm_mem m) (pc m) 9 = Some (25 # bytes_of_nat 8 (u64 (en_static E i)))" by (rule loop_fetch [OF assms(2,3,4)]) simp
  with step_push_global [of "interp_env E" m "en_static E i"] assms obtain cap where
    "step (interp_env E) m = Continue (m\<lparr>pc := pc m + 9, vm_params := vm_params m @ [en_static E i], vm_params_cap := cap\<rparr>)"
    by (auto simp: good_env_def loop_at_def)
  from movesI [OF this] show ?thesis using assms by (simp add: loop_at_def)
qed

lemma moves_drop:
  assumes "loop_at E s p (ps @ [a]) fe m" "fetches E p [5, 1, 0, 0, 0]" "p + 5 \<le> 116"
  shows "moves E s 1 m (p + 5) ps fe (vm_mem m)"
proof -
  have "load (vm_mem m) (pc m) 5 = Some [5, 1, 0, 0, 0]" by (rule loop_fetch [OF assms(1,2,3)]) simp
  with step_drop [of m ps a "interp_env E"] assms have "step (interp_env E) m = Continue (m\<lparr>pc := pc m + 5, vm_params := ps\<rparr>)"
    by (simp add: loop_at_def)
  from movesI [OF this] show ?thesis using assms by (simp add: loop_at_def)
qed

lemma moves_jump:
  assumes "loop_at E s p ps fe m" "fetches E p [18, t, 0]" "p + 3 \<le> 116"
  shows "moves E s 1 m t ps fe (vm_mem m)"
proof -
  have "load (vm_mem m) (pc m) 3 = Some [18, t, 0]" by (rule loop_fetch [OF assms(1,2,3)]) simp
  from step_jump [OF this, of "interp_env E"] have "step (interp_env E) m = Continue (m\<lparr>pc := base m + t\<rparr>)" .
  from movesI [OF this] show ?thesis using assms by (simp add: loop_at_def)
qed

lemma moves_branch:
  assumes "loop_at E s p (ps @ [a]) fe m" "fetches E p [20, y, 0, n, 0]" "p + 5 \<le> 116" "load (vm_mem m) a 8 = Some bs"
  shows "moves E s 1 m (if signed 8 bs \<noteq> 0 then y else n) ps fe (vm_mem m)"
proof -
  have "load (vm_mem m) (pc m) 5 = Some [20, y, 0, n, 0]" by (rule loop_fetch [OF assms(1,2,3)]) simp
  from step_branch_top [OF this _ assms(4), of ps "interp_env E"] assms(1)
  have "step (interp_env E) m = Continue (m\<lparr>pc := base m + (if signed 8 bs \<noteq> 0 then y else n), vm_params := ps\<rparr>)"
    by (simp add: loop_at_def)
  from movesI [OF this] show ?thesis using assms by (simp add: loop_at_def)
qed

text \<open>A call of one of the four natives: what it returns decides how the run goes on.\<close>

definition native_view :: "frontend mach \<Rightarrow> nat list \<Rightarrow> frontend vm" where
  "native_view m ps = vm.truncate (m\<lparr>vm_params := ps\<rparr>)"

lemma native_view_sel [simp]:
  "vm_mem (native_view m ps) = vm_mem m" "vm_params (native_view m ps) = ps" "vm_user (native_view m ps) = vm_user m"
  by (simp_all add: native_view_def vm.defs)

lemma moves_native:
  assumes "good_env E" "loop_at E s p (ps @ [en_static E i]) fe m" "fetches E p [27, n, 0, 0, 0]" "p + 5 \<le> 116" "i < 4" "n \<le> length ps"
    "interpreter_native E (en_entry E i) (native_view m ps) = Some (r, (native_view m ps)\<lparr>vm_user := fe', vm_mem := M\<rparr>)"
  shows "r = VM_OK \<Longrightarrow> cells_ok E s M \<Longrightarrow> moves E s 1 m (p + 5) (take (length ps - n) ps) fe' M"
    "r = VM_HARD_CRASH \<Longrightarrow> \<exists>w. step (interp_env E) m = Return VM_HARD_CRASH w \<and> vm_user w = fe' \<and> vm_mem w = M"
proof -
  have l: "load (vm_mem m) (pc m) 5 = Some [27, n, 0, 0, 0]" by (rule loop_fetch [OF assms(2,3,4)]) simp
  have c: "load (vm_mem m) (en_static E i) 8 = Some (bytes_of_nat 8 (en_entry E i))" "vm_params m = ps @ [en_static E i]"
    using assms(2,5) by (auto simp: loop_at_def cells_ok_def)
  note s = step_call_native [OF l c(2,1), where E = "interp_env E" and r = r and u = fe' and M = M]
  have g: "0 < en_entry E i" "en_entry E i < W64" using assms(1,5) by (auto simp: good_env_def)
  have e: "e_native (interp_env E) (en_entry E i) (vm.truncate (m\<lparr>vm_params := ps\<rparr>)) = Some (r, (vm.truncate (m\<lparr>vm_params := ps\<rparr>))\<lparr>vm_user := fe', vm_mem := M\<rparr>)"
    using assms(7) by (simp add: native_view_def)
  show "moves E s 1 m (p + 5) (take (length ps - n) ps) fe' M" if "r = VM_OK" "cells_ok E s M"
    using movesI [OF s(1) [OF g assms(6) e that(1)]] assms(2) that by (simp add: loop_at_def)
  show "\<exists>w. step (interp_env E) m = Return VM_HARD_CRASH w \<and> vm_user w = fe' \<and> vm_mem w = M" if "r = VM_HARD_CRASH"
    using s(2) [OF g assms(6) e that] .
qed

section \<open>Memory along the run\<close>

definition same_off :: "nat set \<Rightarrow> mem \<Rightarrow> mem \<Rightarrow> bool" where
  "same_off A m m' \<longleftrightarrow> (\<forall>a. a \<notin> A \<longrightarrow> m a = m' a)"

lemma same_off_refl [simp]: "same_off A m m"
  by (simp add: same_off_def)

lemma same_off_trans: "same_off A m m' \<Longrightarrow> same_off A m' m'' \<Longrightarrow> same_off A m m''"
  by (simp add: same_off_def)

lemma same_off_mono: "same_off A m m' \<Longrightarrow> A \<subseteq> B \<Longrightarrow> same_off B m m'"
  by (auto simp: same_off_def)

abbreviation var_cells :: "nat \<Rightarrow> nat set" where "var_cells s \<equiv> {s + 24..<s + 40}"

lemma load_apart: "store m a bs = Some m' \<Longrightarrow> apart b k a (length bs) \<Longrightarrow> load m' b k = load m b k"
  by (rule load_store_other) (auto simp: apart_def)

lemma cells_store:
  assumes "cells_ok E s m" "k = 24 \<or> k = 32" "length bs = 8"
  shows "\<exists>m'. store m (s + k) bs = Some m' \<and> cells_ok E s m' \<and> load m' (s + k) 8 = Some bs \<and> same_off (var_cells s) m' m"
proof -
  have mapped: "m (s + 24 + i) \<noteq> None" if "i < 16" for i
    using assms(1) load_mapped [of m "s + 24" 16] that by (auto simp: cells_ok_def)
  have "m (s + k + i) \<noteq> None" if "i < 8" for i
    using assms(2) mapped [of i] mapped [of "8 + i"] that by (elim disjE) (simp_all add: ac_simps)
  then obtain m' where m': "store m (s + k) bs = Some m'" using assms(3) by (simp add: store_eq)
  have a: "apart b n (s + k) (length bs)" if "apart b n s 40" for b n using that assms(2,3) by (auto simp: apart_def)
  have "load m' s 24 = load m s 24" by (rule load_apart [OF m']) (use assms(2) in \<open>auto simp: apart_def\<close>)
  moreover have "load m' (s + 24) 16 \<noteq> None" using mapped store_mapped [OF m'] load_mapped [of m' "s + 24" 16] by blast
  moreover have "finite (dom m')" using assms(1) store_dom [OF m'] by (simp add: cells_ok_def)
  ultimately have "cells_ok E s m'" using assms(1) load_apart [OF m' a] by (simp add: cells_ok_def)
  moreover have "same_off (var_cells s) m' m" using store_other [OF m'] assms(2,3) by (auto simp: same_off_def)
  ultimately show ?thesis using m' load_store_same [OF m'] assms(3) by auto
qed

text \<open>Literals get fresh cells, so nothing that is mapped changes.\<close>

lemma heap_grows_keeps:
  assumes "good_env E" "finite (dom m0)" "heap_grows E m0 m"
  shows "finite (dom m) \<and> m0 \<subseteq>\<^sub>m m"
  using assms(3)
proof induction
  case heap_same
  then show ?case using assms(2) by simp
next
  case (heap_new m bs)
  have f: "m (en_place E m 8 + i) = None" if "i < 8" for i using assms(1) heap_new that by (auto simp: good_env_def)
  have "map_bytes (en_place E m 8) bs m a = m a \<or> m a = None" for a
    using f [of "a - en_place E m 8"] heap_new(2) by (cases "a - en_place E m 8 < 8") (auto simp: map_bytes_def)
  then have "m \<subseteq>\<^sub>m map_bytes (en_place E m 8) bs m" unfolding map_le_def by (metis domIff)
  moreover have "dom (map_bytes (en_place E m 8) bs m) \<subseteq> dom m \<union> {en_place E m 8..<en_place E m 8 + length bs}"
    by (auto simp: map_bytes_def split: if_splits)
  ultimately show ?case using heap_new(3) map_le_trans finite_subset by blast
next
  case (heap_drop m bs)
  have f: "m (en_place E m 8 + i) = None" if "i < 8" for i using assms(1) heap_drop that by (auto simp: good_env_def)
  have "unmap (en_place E m 8) 8 (map_bytes (en_place E m 8) bs m) a = m a" for a
    using f [of "a - en_place E m 8"] heap_drop(2) by (cases "a - en_place E m 8 < 8") (auto simp: unmap_def map_bytes_def)
  then show ?case using heap_drop(3) by presburger
qed

lemma load_le: "load m a k = Some bs \<Longrightarrow> m \<subseteq>\<^sub>m m' \<Longrightarrow> load m' a k = Some bs"
proof -
  assume l: "load m a k = Some bs" and le: "m \<subseteq>\<^sub>m m'"
  have "m (a + i) = m' (a + i)" if "i < k" for i using l le load_mapped [of m a k] that by (auto simp: map_le_def)
  then show ?thesis using load_cong [of k m a m' a] l by simp
qed

lemma cells_le: "cells_ok E s m \<Longrightarrow> finite (dom m') \<Longrightarrow> m \<subseteq>\<^sub>m m' \<Longrightarrow> cells_ok E s m'"
  unfolding cells_ok_def using load_le [of m _ _ _ m'] by (metis not_None_eq)

section \<open>Reading a token\<close>

lemma six: "1 + 1 + 1 + 1 + 1 + 1 = (6::nat)"
  by simp

lemma native_of:
  assumes "good_env E"
  shows "interpreter_native E (en_entry E 0) = interpreter_next_token" "interpreter_native E (en_entry E 1) = interpreter_lookup_word"
    "interpreter_native E (en_entry E 2) = interpreter_engage_word E" "interpreter_native E (en_entry E 3) = interpreter_fallback E"
proof -
  have d: "i < 4 \<Longrightarrow> j < 4 \<Longrightarrow> i \<noteq> j \<Longrightarrow> en_entry E i \<noteq> en_entry E j" for i j using assms by (simp add: good_env_def)
  show "interpreter_native E (en_entry E 0) = interpreter_next_token" "interpreter_native E (en_entry E 1) = interpreter_lookup_word"
    "interpreter_native E (en_entry E 2) = interpreter_engage_word E" "interpreter_native E (en_entry E 3) = interpreter_fallback E"
    using d [of 1 0] d [of 2 0] d [of 2 1] d [of 3 0] d [of 3 1] d [of 3 2] by (simp_all add: interpreter_native_def fun_eq_iff)
qed

lemma signed_stored: "signed 8 (bytes_of_nat 8 (u64_of_int x)) = x" if "num_range x"
proof -
  have n: "nat_of_bytes (bytes_of_nat 8 (u64_of_int x)) = u64_of_int x" by (simp add: nat_of_bytes_of_nat)
  have "s64_of_nat (u64_of_int x) = x" using that by (simp add: num_range_def)
  then show ?thesis unfolding signed_def n Let_def s64_of_nat_def by (simp split: if_splits)
qed

text \<open>The token is fetched, and the flag tells whether there was one.\<close>

lemma moves_read:
  assumes g: "good_env E" and at: "loop_at E s 6 [] fe m"
    and fe': "next_token fe = (None, fe1) \<and> fe' = fe \<and> x = 0 \<or> (\<exists>t. next_token fe = (Some t, fe1) \<and> fe' = fe1\<lparr>fe_current_token := Some t\<rparr> \<and> x = 1)"
  shows "\<exists>M. moves E s 6 m (if x \<noteq> (0::int) then 36 else 103) [] fe' M \<and> same_off (var_cells s) M (vm_mem m)"
proof -
  have c: "cells_ok E s (vm_mem m)" using at by (simp add: loop_at_def)
  obtain M where M: "store (vm_mem m) (s + 24) (bytes_of_nat 8 (u64_of_int x)) = Some M" "cells_ok E s M"
    "load M (s + 24) 8 = Some (bytes_of_nat 8 (u64_of_int x))" "same_off (var_cells s) M (vm_mem m)"
    using cells_store [OF c, of 24 "bytes_of_nat 8 (u64_of_int x)"] by auto
  have p: "moves E s 1 m 9 [s + 24] fe (vm_mem m)"
    using moves_push_var [OF g at program(3), of 16 24] by (simp add: signed_def)
  have q: "moves E s 1 m' 18 [s + 24, en_static E 0] fe M'" if "loop_at E s 9 [s + 24] fe m'" "vm_mem m' = M'" for m' M'
    using moves_push_cell [OF g that(1) program(4)] that(2) by simp
  have n: "moves E s 1 m' 23 [s + 24] fe' M" if l: "loop_at E s 18 [s + 24, en_static E 0] fe m'" and mm: "vm_mem m' = vm_mem m" for m'
  proof -
    have u: "vm_user m' = fe" using l by (simp add: loop_at_def)
    have "interpreter_native E (en_entry E 0) (native_view m' [s + 24]) = Some (VM_OK, (native_view m' [s + 24])\<lparr>vm_user := fe', vm_mem := M\<rparr>)"
      using fe' M(1) mm u by (auto simp: native_of [OF g] interpreter_next_token_def store_num_def)
    from moves_native(1) [OF g _ program(5) _ _ _ this, of s fe] l M(2) show ?thesis by simp
  qed
  have d: "moves E s 1 m' 28 [] fe' M" if "loop_at E s 23 [s + 24] fe' m'" "vm_mem m' = M" for m'
    using moves_drop [of E s 23 "[]" "s + 24" fe' m', OF _ program(6)] that by simp
  have v: "moves E s 1 m' 31 [s + 24] fe' M" if "loop_at E s 28 [] fe' m'" "vm_mem m' = M" for m'
    using moves_push_var [OF g that(1) program(7), of 16 24] that(2) by (simp add: signed_def)
  have b: "moves E s 1 m' (if x \<noteq> 0 then 36 else 103) [] fe' M" if "loop_at E s 31 [s + 24] fe' m'" "vm_mem m' = M" for m'
    using moves_branch [of E s 31 "[]" "s + 24" fe' m', OF _ program(8)] that M(3) fe' signed_stored [of x]
    by (auto simp: num_range_def)
  have "moves E s (1 + 1 + 1 + 1 + 1 + 1) m (if x \<noteq> 0 then 36 else 103) [] fe' M"
    by (rule moves_trans [OF moves_trans [OF moves_trans [OF moves_trans [OF moves_trans [OF p q] n] d] v] b])
  then have "moves E s 6 m (if x \<noteq> 0 then 36 else 103) [] fe' M" by (simp only: six)
  then show ?thesis using M(4) by auto
qed

text \<open>The word is looked up, and its handle decides between the two ways to handle the token.\<close>

lemma moves_lookup:
  assumes g: "good_env E" and at: "loop_at E s 36 [] fe m" and x: "num_range (word_handle fe)"
  shows "\<exists>M. moves E s 6 m (if word_handle fe \<noteq> 0 then 66 else 86) [] fe M \<and> same_off (var_cells s) M (vm_mem m)
    \<and> load M (s + 32) 8 = Some (bytes_of_nat 8 (u64_of_int (word_handle fe)))"
proof -
  let ?x = "word_handle fe"
  have c: "cells_ok E s (vm_mem m)" using at by (simp add: loop_at_def)
  obtain M where M: "store (vm_mem m) (s + 32) (bytes_of_nat 8 (u64_of_int ?x)) = Some M" "cells_ok E s M"
    "load M (s + 32) 8 = Some (bytes_of_nat 8 (u64_of_int ?x))" "same_off (var_cells s) M (vm_mem m)"
    using cells_store [OF c, of 32 "bytes_of_nat 8 (u64_of_int ?x)"] by auto
  have p: "moves E s 1 m 39 [s + 32] fe (vm_mem m)"
    using moves_push_var [OF g at program(9), of 8 32] by (simp add: signed_def)
  have q: "moves E s 1 m' 48 [s + 32, en_static E 1] fe M'" if "loop_at E s 39 [s + 32] fe m'" "vm_mem m' = M'" for m' M'
    using moves_push_cell [OF g that(1) program(10)] that(2) by simp
  have n: "moves E s 1 m' 53 [s + 32] fe M" if l: "loop_at E s 48 [s + 32, en_static E 1] fe m'" and mm: "vm_mem m' = vm_mem m" for m'
  proof -
    have u: "vm_user m' = fe" using l by (simp add: loop_at_def)
    have "interpreter_native E (en_entry E 1) (native_view m' [s + 32]) = Some (VM_OK, (native_view m' [s + 32])\<lparr>vm_user := fe, vm_mem := M\<rparr>)"
      unfolding native_of [OF g] using M(1) mm u by (auto simp: interpreter_lookup_word_def store_num_def)
    from moves_native(1) [OF g _ program(11) _ _ _ this, of s fe] l M(2) show ?thesis by simp
  qed
  have d: "moves E s 1 m' 58 [] fe M" if "loop_at E s 53 [s + 32] fe m'" "vm_mem m' = M" for m'
    using moves_drop [of E s 53 "[]" "s + 32" fe m', OF _ program(12)] that by simp
  have v: "moves E s 1 m' 61 [s + 32] fe M" if "loop_at E s 58 [] fe m'" "vm_mem m' = M" for m'
    using moves_push_var [OF g that(1) program(13), of 8 32] that(2) by (simp add: signed_def)
  have b: "moves E s 1 m' (if ?x \<noteq> 0 then 66 else 86) [] fe M" if "loop_at E s 61 [s + 32] fe m'" "vm_mem m' = M" for m'
    using moves_branch [of E s 61 "[]" "s + 32" fe m', OF _ program(14)] that M(3) signed_stored [OF x] by auto
  have "moves E s (1 + 1 + 1 + 1 + 1 + 1) m (if ?x \<noteq> 0 then 66 else 86) [] fe M"
    by (rule moves_trans [OF moves_trans [OF moves_trans [OF moves_trans [OF moves_trans [OF p q] n] d] v] b])
  then have "moves E s 6 m (if ?x \<noteq> 0 then 66 else 86) [] fe M" by (simp only: six)
  then show ?thesis using M(3,4) by blast
qed

lemma moves_back:
  assumes "loop_at E s 100 [] fe m" shows "moves E s 2 m 6 [] fe (vm_mem m)"
proof -
  have "moves E s (1 + 1) m 6 [] fe (vm_mem m)"
  proof (rule moves_trans [OF moves_jump [OF assms program(21)]])
    show "moves E s 1 m' 6 [] fe (vm_mem m)" if "loop_at E s 106 [] fe m'" "vm_mem m' = vm_mem m" for m'
      using moves_jump [OF that(1) program(23)] that(2) by simp
  qed simp
  then show ?thesis by (simp only: one_add_one)
qed

section \<open>Handling a token\<close>

lemma handle_range: "length (fe_words fe) < 9223372036854775807 \<Longrightarrow> num_range (word_handle fe)"
  using find_word_less [of fe] by (fastforce simp: word_handle_def num_range_def split: option.split)

text \<open>The two natives that handle a token do what the token's event says.\<close>

lemma engage_native:
  assumes g: "good_env E" and t: "fe_current_token fe = Some t" "word_handle fe \<noteq> 0" "length (fe_words fe) < 9223372036854775807"
    and v: "vm_user v = fe" "vm_params v = ps @ [a]" "load (vm_mem v) a 8 = Some (bytes_of_nat 8 (u64_of_int (word_handle fe)))"
  shows "interpreter_native E (en_entry E 2) v = with_user (token_step E (event_of fe t)) v"
proof -
  have s: "signed 8 (bytes_of_nat 8 (u64_of_int (word_handle fe))) = word_handle fe" using signed_stored [OF handle_range [OF t(3)]] .
  have "interpreter_native E (en_entry E 2) v = engage_handle E (word_handle fe) v"
    unfolding native_of [OF g] interpreter_engage_word_def using v s by simp
  also have "\<dots> = with_user (token_step E (event_of fe t)) v"
    using t find_word_less [of fe t] v(1) by (auto simp: engage_handle_def word_handle_def event_of_def fun_eq_iff split: option.splits if_splits intro!: arg_cong2 [of _ _ _ _ with_user])
  finally show ?thesis .
qed

lemma fallback_native:
  assumes g: "good_env E" and t: "fe_current_token fe = Some t" "word_handle fe = 0" and v: "vm_user v = fe"
  shows "interpreter_native E (en_entry E 3) v = with_user (token_step E (event_of fe t)) v"
proof -
  have "event_of fe t = Fallback t" using t by (auto simp: word_handle_def event_of_def split: option.splits if_splits)
  moreover have "interpreter_native E (en_entry E 3) v = with_user (compile_fallback E t) v"
    unfolding native_of [OF g] using t(1) v by (auto simp: interpreter_fallback_def with_user_def)
  ultimately show ?thesis by (simp add: fun_eq_iff with_user_def)
qed

lemma with_user_view:
  "f ((vm_user v)\<lparr>fe_mem := vm_mem v\<rparr>) = FOk () fe3 \<Longrightarrow> with_user f v = Some (VM_OK, v\<lparr>vm_user := fe3, vm_mem := fe_mem fe3\<rparr>)"
  "f ((vm_user v)\<lparr>fe_mem := vm_mem v\<rparr>) = FFail fe3 \<Longrightarrow> with_user f v = Some (VM_HARD_CRASH, v\<lparr>vm_user := fe3, vm_mem := fe_mem fe3\<rparr>)"
  by (simp_all add: with_user_def)

text \<open>A run that ends.\<close>

definition ends :: "fe_env \<Rightarrow> nat \<Rightarrow> frontend mach \<Rightarrow> vm_result \<Rightarrow> frontend \<Rightarrow> mem \<Rightarrow> bool" where
  "ends E n m r fe M \<longleftrightarrow> (\<forall>k\<ge>n. \<exists>w. run (interp_env E) k m = Return r w \<and> vm_user w = fe \<and> vm_mem w = M)"

lemma ends_step: "step (interp_env E) m = Return r w \<Longrightarrow> ends E 1 m r (vm_user w) (vm_mem w)"
proof -
  assume "step (interp_env E) m = Return r w"
  then have "run (interp_env E) k m = Return r w" if "1 \<le> k" for k using that by (cases k) auto
  then show ?thesis by (auto simp: ends_def)
qed

lemma ends_before: "step (interp_env E) m = Continue m' \<Longrightarrow> ends E n m' r fe M \<Longrightarrow> ends E (Suc n) m r fe M"
proof -
  assume s: "step (interp_env E) m = Continue m'" and e: "ends E n m' r fe M"
  have "\<exists>w. run (interp_env E) k m = Return r w \<and> vm_user w = fe \<and> vm_mem w = M" if "Suc n \<le> k" for k
    using that s e by (cases k) (auto simp: ends_def)
  then show ?thesis by (simp add: ends_def)
qed

lemma reaches_ends: "reaches (interp_env E) n m m' \<Longrightarrow> ends E n' m' r fe M \<Longrightarrow> ends E (n + n') m r fe M"
  unfolding ends_def reaches_def by (metis add.assoc add_leD1 le_Suc_ex nat_add_left_cancel_le)

lemma moves_ends:
  "moves E s n m p ps fe M \<Longrightarrow> (\<And>m'. loop_at E s p ps fe m' \<Longrightarrow> vm_mem m' = M \<Longrightarrow> ends E n' m' r fe' M') \<Longrightarrow> ends E (n + n') m r fe' M'"
  unfolding moves_def using reaches_ends by blast

lemma ends_mono: "ends E n m r fe M \<Longrightarrow> n \<le> n' \<Longrightarrow> ends E n' m r fe M"
  by (simp add: ends_def)

text \<open>Both paths: the token is handled as its event says, and the run goes back to the head of the loop or ends.\<close>

lemma engage_path:
  assumes g: "good_env E" and at: "loop_at E s 66 [] fe m" and t: "fe_current_token fe = Some t" "word_handle fe \<noteq> 0" "length (fe_words fe) < 9223372036854775807"
    and h: "load (vm_mem m) (s + 32) 8 = Some (bytes_of_nat 8 (u64_of_int (word_handle fe)))"
    and f: "token_step E (event_of fe t) (fe\<lparr>fe_mem := vm_mem m\<rparr>) = (if r = VM_OK then FOk () fe3 else FFail fe3)" and r: "r = VM_OK \<or> r = VM_HARD_CRASH"
  shows "r = VM_OK \<Longrightarrow> cells_ok E s (fe_mem fe3) \<Longrightarrow> moves E s 6 m 6 [] fe3 (fe_mem fe3)"
    "r = VM_HARD_CRASH \<Longrightarrow> ends E 3 m VM_HARD_CRASH fe3 (fe_mem fe3)"
proof -
  have p: "moves E s 1 m 69 [s + 32] fe (vm_mem m)"
    using moves_push_var [OF g at program(15), of 8 32] by (simp add: signed_def)
  have q: "moves E s 1 m' 78 [s + 32, en_static E 2] fe M'" if "loop_at E s 69 [s + 32] fe m'" "vm_mem m' = M'" for m' M'
    using moves_push_cell [OF g that(1) program(16)] that(2) by simp
  note pq = moves_trans [OF p q]
  have n: "interpreter_native E (en_entry E 2) (native_view m' [s + 32]) = Some (r, (native_view m' [s + 32])\<lparr>vm_user := fe3, vm_mem := fe_mem fe3\<rparr>)"
    if "loop_at E s 78 [s + 32, en_static E 2] fe m'" "vm_mem m' = vm_mem m" for m'
    using engage_native [OF g t, of "native_view m' [s + 32]" "[]" "s + 32"] that f r h
      with_user_view [of "token_step E (event_of fe t)" "native_view m' [s + 32]" fe3] by (auto simp: loop_at_def)
  show "moves E s 6 m 6 [] fe3 (fe_mem fe3)" if ok: "r = VM_OK" "cells_ok E s (fe_mem fe3)"
  proof -
    have c: "moves E s 1 m' 83 [] fe3 (fe_mem fe3)" if "loop_at E s 78 [s + 32, en_static E 2] fe m'" "vm_mem m' = vm_mem m" for m'
      using moves_native(1) [OF g _ program(17) _ _ _ n [OF that] ok, of fe] that by simp
    have j: "moves E s 1 m' 100 [] fe3 (fe_mem fe3)" if "loop_at E s 83 [] fe3 m'" "vm_mem m' = fe_mem fe3" for m'
      using moves_jump [OF that(1) program(18)] that(2) by simp
    have b: "moves E s 2 m' 6 [] fe3 (fe_mem fe3)" if "loop_at E s 100 [] fe3 m'" "vm_mem m' = fe_mem fe3" for m'
      using moves_back [OF that(1)] that(2) by simp
    have "moves E s (1 + 1 + 1 + 1 + 2) m 6 [] fe3 (fe_mem fe3)"
      by (rule moves_trans [OF moves_trans [OF moves_trans [OF pq c] j] b])
    then show ?thesis by (simp add: eval_nat_numeral)
  qed
  show "ends E 3 m VM_HARD_CRASH fe3 (fe_mem fe3)" if bad: "r = VM_HARD_CRASH"
  proof -
    have "ends E 1 m' VM_HARD_CRASH fe3 (fe_mem fe3)" if "loop_at E s 78 [s + 32, en_static E 2] fe m'" "vm_mem m' = vm_mem m" for m'
      using moves_native(2) [OF g _ program(17) _ _ _ n [OF that] bad, of s fe] that ends_step by fastforce
    from moves_ends [OF pq this] show ?thesis by (simp add: eval_nat_numeral)
  qed
qed

lemma fallback_path:
  assumes g: "good_env E" and at: "loop_at E s 86 [] fe m" and t: "fe_current_token fe = Some t" "word_handle fe = 0"
    and f: "token_step E (event_of fe t) (fe\<lparr>fe_mem := vm_mem m\<rparr>) = (if r = VM_OK then FOk () fe3 else FFail fe3)" and r: "r = VM_OK \<or> r = VM_HARD_CRASH"
  shows "r = VM_OK \<Longrightarrow> cells_ok E s (fe_mem fe3) \<Longrightarrow> moves E s 4 m 6 [] fe3 (fe_mem fe3)"
    "r = VM_HARD_CRASH \<Longrightarrow> ends E 2 m VM_HARD_CRASH fe3 (fe_mem fe3)"
proof -
  have q: "moves E s 1 m 95 [en_static E 3] fe (vm_mem m)"
    using moves_push_cell [OF g at program(19)] by simp
  have n: "interpreter_native E (en_entry E 3) (native_view m' []) = Some (r, (native_view m' [])\<lparr>vm_user := fe3, vm_mem := fe_mem fe3\<rparr>)"
    if "loop_at E s 95 [en_static E 3] fe m'" "vm_mem m' = vm_mem m" for m'
    using fallback_native [OF g t, of "native_view m' []"] that f r
      with_user_view [of "token_step E (event_of fe t)" "native_view m' []" fe3] by (auto simp: loop_at_def)
  show "moves E s 4 m 6 [] fe3 (fe_mem fe3)" if ok: "r = VM_OK" "cells_ok E s (fe_mem fe3)"
  proof -
    have c: "moves E s 1 m' 100 [] fe3 (fe_mem fe3)" if "loop_at E s 95 [en_static E 3] fe m'" "vm_mem m' = vm_mem m" for m'
      using moves_native(1) [OF g _ program(20) _ _ _ n [OF that] ok, of fe] that by simp
    have b: "moves E s 2 m' 6 [] fe3 (fe_mem fe3)" if "loop_at E s 100 [] fe3 m'" "vm_mem m' = fe_mem fe3" for m'
      using moves_back [OF that(1)] that(2) by simp
    have "moves E s (1 + 1 + 2) m 6 [] fe3 (fe_mem fe3)"
      by (rule moves_trans [OF moves_trans [OF q c] b])
    then show ?thesis by (simp add: eval_nat_numeral)
  qed
  show "ends E 2 m VM_HARD_CRASH fe3 (fe_mem fe3)" if bad: "r = VM_HARD_CRASH"
  proof -
    have "ends E 1 m' VM_HARD_CRASH fe3 (fe_mem fe3)" if "loop_at E s 95 [en_static E 3] fe m'" "vm_mem m' = vm_mem m" for m'
      using moves_native(2) [OF g _ program(20) _ _ _ n [OF that] bad, of s fe] that ends_step by fastforce
    from moves_ends [OF q this] show ?thesis by (simp add: eval_nat_numeral)
  qed
qed

text \<open>At the end of the source the variables are popped and the machine returns.\<close>

lemma end_path:
  assumes at: "loop_at E s 103 [] fe m" shows "ends E 4 m VM_OK fe (vm_mem m)"
proof -
  have "ends E 3 m' VM_OK fe (vm_mem m)" if l: "loop_at E s 109 [] fe m'" and mm: "vm_mem m' = vm_mem m" for m'
  proof -
    have c: "load (vm_mem m') (en_code_place E 0) 116 = Some (prog E)" and z: "load (vm_mem m') s 24 = Some (replicate 24 0)"
      using l by (simp_all add: loop_at_def cells_ok_def)
    have sel: "pc m' = en_code_place E 0 + 109" "vm_storage m' = s" "vm_storage_len m' = 40" "vm_user m' = fe" using l by (simp_all add: loop_at_def)
    let ?m1 = "m'\<lparr>pc := en_code_place E 0 + 112, vm_storage_len := 32\<rparr>"
    let ?m2 = "m'\<lparr>pc := en_code_place E 0 + 115, vm_storage_len := 24\<rparr>"
    have f: "load (vm_mem m') (en_code_place E 0 + 109) 3 = Some [2, 248, 255]" "load (vm_mem m') (en_code_place E 0 + 112) 3 = Some [2, 248, 255]"
      using fetched [OF c program(24)] fetched [OF c program(25)] by (simp_all add: eval_nat_numeral)
    have r: "vm_mem m' (en_code_place E 0 + 115) = Some 1" using fetched [OF c program(26)] by (simp split: option.splits)
    have s1: "step (interp_env E) m' = Continue ?m1" using step_storage_drop [of m' "interp_env E"] f sel by (simp add: add.commute)
    have s2: "step (interp_env E) ?m1 = Continue ?m2" using step_storage_drop [of ?m1 "interp_env E"] f sel by (simp add: add.commute)
    have s3: "step (interp_env E) ?m2 = Return VM_OK (?m2\<lparr>pc := pc ?m2 + 1, vm_storage_len := 0\<rparr>)" using step_ret [of ?m2 "interp_env E"] r z sel by simp
    have three: "Suc (Suc 1) = (3::nat)" by simp
    have "ends E (Suc (Suc 1)) m' VM_OK fe (vm_mem m)" using ends_before [OF s1 ends_before [OF s2 ends_step [OF s3]]] sel(4) mm by simp
    then show ?thesis by (simp only: three)
  qed
  then have "ends E (1 + 3) m VM_OK fe (vm_mem m)" by (rule moves_ends [OF moves_jump [OF at program(22)], rotated]) simp_all
  then show ?thesis by simp
qed

section \<open>The loop over the tokens\<close>

text \<open>
  What the run amounts to.  Every token is handled in a memory that differs from the frontend's own only
  at the addresses \<open>A\<close> the machine uses; the first failure ends the run.
\<close>

inductive interprets :: "fe_env \<Rightarrow> nat set \<Rightarrow> frontend \<Rightarrow> vm_result \<Rightarrow> frontend \<Rightarrow> bool" for E :: fe_env and A :: "nat set" where
  source_end: "next_token fe = (None, fe1) \<Longrightarrow> same_off A M (fe_mem fe) \<Longrightarrow> interprets E A fe VM_OK (fe\<lparr>fe_mem := M\<rparr>)"
| token_fails: "next_token fe = (Some t, fe1) \<Longrightarrow> same_off A M (fe_mem fe)
    \<Longrightarrow> token_step E (event_of fe1 t) (fe1\<lparr>fe_current_token := Some t, fe_mem := M\<rparr>) = FFail fe2 \<Longrightarrow> interprets E A fe VM_HARD_CRASH fe2"
| token_done: "next_token fe = (Some t, fe1) \<Longrightarrow> same_off A M (fe_mem fe)
    \<Longrightarrow> token_step E (event_of fe1 t) (fe1\<lparr>fe_current_token := Some t, fe_mem := M\<rparr>) = FOk () fe2
    \<Longrightarrow> interprets E A fe2 r fe3 \<Longrightarrow> interprets E A fe r fe3"

lemma event_token: "event_of (fe\<lparr>fe_current_token := x\<rparr>) t = event_of fe t" "event_of (fe\<lparr>fe_mem := M\<rparr>) t = event_of fe t"
  by (simp_all add: event_of_def find_word_def split: option.split)

lemma next_token_keeps: "next_token fe = (r, fe') \<Longrightarrow> fe_words fe' = fe_words fe \<and> fe_mem fe' = fe_mem fe"
  by (auto simp: next_token_def split: option.splits prod.splits)

text \<open>One round of the loop.\<close>

lemma loop_round:
  assumes g: "good_env E" and at: "loop_at E s 6 [] fe m" and t: "next_token fe = (Some t, fe1)"
    and w: "no_macros fe" "length (fe_words fe) < 9223372036854775807" and A: "var_cells s \<subseteq> A" and M: "same_off A (vm_mem m) (fe_mem fe)"
  shows "\<exists>M fe2. same_off A M (fe_mem fe)
    \<and> (token_step E (event_of fe1 t) (fe1\<lparr>fe_current_token := Some t, fe_mem := M\<rparr>) = FFail fe2 \<and> ends E 15 m VM_HARD_CRASH fe2 (fe_mem fe2)
      \<or> token_step E (event_of fe1 t) (fe1\<lparr>fe_current_token := Some t, fe_mem := M\<rparr>) = FOk () fe2
        \<and> length (fe_cursor fe2) < length (fe_cursor fe) \<and> fe_words fe2 = fe_words fe
        \<and> (\<exists>n\<le>18. moves E s n m 6 [] fe2 (fe_mem fe2)))"
proof -
  let ?fe = "fe1\<lparr>fe_current_token := Some t\<rparr>"
  have k: "fe_words ?fe = fe_words fe" using next_token_keeps [OF t] by simp
  obtain M1 where r: "moves E s 6 m 36 [] ?fe M1" "same_off (var_cells s) M1 (vm_mem m)" using moves_read [OF g at, of fe1 ?fe 1] t by auto
  obtain m1 where m1: "reaches (interp_env E) 6 m m1" "loop_at E s 36 [] ?fe m1" "vm_mem m1 = M1" using r(1) by (auto simp: moves_def)
  have x: "num_range (word_handle ?fe)" using handle_range [of ?fe] k w(2) by simp
  let ?p = "if word_handle ?fe \<noteq> 0 then 66 else 86"
  obtain M2 where l: "moves E s 6 m1 ?p [] ?fe M2" "same_off (var_cells s) M2 M1" "load M2 (s + 32) 8 = Some (bytes_of_nat 8 (u64_of_int (word_handle ?fe)))"
    using moves_lookup [OF g m1(2) x] m1(3) by auto
  obtain m2 where m2: "reaches (interp_env E) 6 m1 m2" "loop_at E s ?p [] ?fe m2" "vm_mem m2 = M2" using l(1) by (auto simp: moves_def)
  have m12: "moves E s 12 m ?p [] ?fe M2" unfolding moves_def using reaches_trans [OF m1(1) m2(1)] m2(2,3) by auto
  have off: "same_off A M2 (fe_mem fe)"
    using same_off_trans [OF same_off_mono [OF l(2) A] same_off_trans [OF same_off_mono [OF r(2) A] M]] .
  let ?fe2 = "?fe\<lparr>fe_mem := M2\<rparr>"
  have frame: "fe_total (fe_frame E ?fe2) (token_step E (event_of ?fe2 t) ?fe2)" using frame_token_step [of E ?fe2 ?fe2 t] w(1) k by (simp add: no_macros_def)
  have ev: "event_of ?fe2 t = event_of fe1 t" "event_of ?fe t = event_of fe1 t" by (simp_all add: event_token)
  have c: "fe_current_token ?fe = Some t" "length (fe_words ?fe) < 9223372036854775807" using k w(2) by simp_all
  have go: "(r = VM_OK \<longrightarrow> cells_ok E s (fe_mem fe3) \<longrightarrow> (\<exists>n\<le>18. moves E s n m 6 [] fe3 (fe_mem fe3)))
      \<and> (r = VM_HARD_CRASH \<longrightarrow> ends E 15 m VM_HARD_CRASH fe3 (fe_mem fe3))"
    if f: "token_step E (event_of ?fe t) (?fe\<lparr>fe_mem := vm_mem m2\<rparr>) = (if r = VM_OK then FOk () fe3 else FFail fe3)" and r: "r = VM_OK \<or> r = VM_HARD_CRASH" for r fe3
  proof -
    have shift: "\<exists>n\<le>18. moves E s n m 6 [] fe3 (fe_mem fe3)" if "moves E s j m2 6 [] fe3 (fe_mem fe3)" "j \<le> 6" for j
    proof -
      have "moves E s (12 + j) m 6 [] fe3 (fe_mem fe3)"
        using that(1) reaches_trans [OF reaches_trans [OF m1(1) m2(1)]] unfolding moves_def by fastforce
      then show ?thesis using that(2) by (intro exI [of _ "12 + j"]) simp
    qed
    have stop: "ends E 15 m VM_HARD_CRASH fe3 (fe_mem fe3)" if "ends E j m2 VM_HARD_CRASH fe3 (fe_mem fe3)" "j \<le> 3" for j
    proof -
      have "ends E (6 + 6 + j) m VM_HARD_CRASH fe3 (fe_mem fe3)" using reaches_ends [OF reaches_trans [OF m1(1) m2(1)] that(1)] .
      then show ?thesis using ends_mono that(2) by fastforce
    qed
    show ?thesis
    proof (cases "word_handle ?fe = 0")
      case True
      then have "loop_at E s 86 [] ?fe m2" using m2(2) by simp
      from fallback_path [OF g this c(1) True f r] shift [of 4] stop [of 2] show ?thesis by simp
    next
      case False
      then have "loop_at E s 66 [] ?fe m2" using m2(2) by simp
      from engage_path [OF g this c(1) False c(2) _ f r] l(3) m2(3) shift [of 6] stop [of 3] show ?thesis by simp
    qed
  qed
  show ?thesis
  proof (cases "token_step E (event_of fe1 t) ?fe2")
    case (FOk u fe3)
    have fr: "fe_frame E ?fe2 fe3" using frame FOk ev by simp
    have "finite (dom M2)" "cells_ok E s M2" using m2(2,3) by (simp_all add: loop_at_def cells_ok_def)
    then have "cells_ok E s (fe_mem fe3)" using cells_le heap_grows_keeps [OF g, of M2 "fe_mem fe3"] fr by (simp add: fe_frame_def)
    moreover have "length (fe_cursor fe3) < length (fe_cursor fe)" "fe_words fe3 = fe_words fe" using fr next_token_shorter [OF t] k by (simp_all add: fe_frame_def)
    ultimately show ?thesis using off go [of VM_OK fe3] FOk ev m2(3) by (intro exI [of _ M2] exI [of _ fe3]) simp
  next
    case (FFail fe3)
    then show ?thesis using off go [of VM_HARD_CRASH fe3] ev m2(3) by (intro exI [of _ M2] exI [of _ fe3]) simp
  qed (use frame ev in simp)
qed

lemma loop_runs:
  assumes g: "good_env E" and A: "var_cells s \<subseteq> A"
  shows "loop_at E s 6 [] fe m \<Longrightarrow> same_off A (vm_mem m) (fe_mem fe) \<Longrightarrow> no_macros fe \<Longrightarrow> length (fe_words fe) < 9223372036854775807
    \<Longrightarrow> \<exists>r u M. interprets E A fe r (u\<lparr>fe_mem := M\<rparr>) \<and> ends E (18 * length (fe_cursor fe) + 15) m r u M \<and> (r = VM_OK \<or> r = VM_HARD_CRASH)"
proof (induction "length (fe_cursor fe)" arbitrary: fe m rule: less_induct)
  case less
  obtain x fe1 where t: "next_token fe = (x, fe1)" by fastforce
  show ?case
  proof (cases x)
    case None
    have end_of: "next_token fe = (None, fe1)" using t None by simp
    obtain M where M: "moves E s 6 m 103 [] fe M" "same_off (var_cells s) M (vm_mem m)" using moves_read [OF g less.prems(1), of fe1 fe 0] end_of by auto
    have "ends E 4 m' VM_OK fe M" if "loop_at E s 103 [] fe m'" "vm_mem m' = M" for m' using end_path [OF that(1)] that(2) by simp
    from moves_ends [OF M(1) this] have "ends E (18 * length (fe_cursor fe) + 15) m VM_OK fe M" by (rule ends_mono) auto
    moreover have "same_off A M (fe_mem fe)" using same_off_trans [OF same_off_mono [OF M(2) A] less.prems(2)] .
    ultimately show ?thesis using source_end [OF end_of] by blast
  next
    case (Some tk)
    have tok: "next_token fe = (Some tk, fe1)" using t Some by simp
    obtain M fe2 where M: "same_off A M (fe_mem fe)" and out:
      "token_step E (event_of fe1 tk) (fe1\<lparr>fe_current_token := Some tk, fe_mem := M\<rparr>) = FFail fe2 \<and> ends E 15 m VM_HARD_CRASH fe2 (fe_mem fe2)
      \<or> token_step E (event_of fe1 tk) (fe1\<lparr>fe_current_token := Some tk, fe_mem := M\<rparr>) = FOk () fe2
        \<and> length (fe_cursor fe2) < length (fe_cursor fe) \<and> fe_words fe2 = fe_words fe \<and> (\<exists>n\<le>18. moves E s n m 6 [] fe2 (fe_mem fe2))"
      using loop_round [OF g less.prems(1) tok less.prems(3,4) A less.prems(2)] by blast
    from out show ?thesis
    proof (elim disjE conjE exE)
      assume f: "token_step E (event_of fe1 tk) (fe1\<lparr>fe_current_token := Some tk, fe_mem := M\<rparr>) = FFail fe2" and e: "ends E 15 m VM_HARD_CRASH fe2 (fe_mem fe2)"
      have "interprets E A fe VM_HARD_CRASH (fe2\<lparr>fe_mem := fe_mem fe2\<rparr>)" using token_fails [OF tok M f] by simp
      moreover have "ends E (18 * length (fe_cursor fe) + 15) m VM_HARD_CRASH fe2 (fe_mem fe2)" using ends_mono [OF e] by simp
      ultimately show ?thesis by blast
    next
      fix n assume f: "token_step E (event_of fe1 tk) (fe1\<lparr>fe_current_token := Some tk, fe_mem := M\<rparr>) = FOk () fe2"
        and c: "length (fe_cursor fe2) < length (fe_cursor fe)" "fe_words fe2 = fe_words fe" and n: "n \<le> 18" and mv: "moves E s n m 6 [] fe2 (fe_mem fe2)"
      obtain m2 where m2: "reaches (interp_env E) n m m2" "loop_at E s 6 [] fe2 m2" "vm_mem m2 = fe_mem fe2" using mv by (auto simp: moves_def)
      have w: "no_macros fe2" "length (fe_words fe2) < 9223372036854775807" using less.prems(3,4) c(2) by (simp_all add: no_macros_def)
      have s2: "same_off A (vm_mem m2) (fe_mem fe2)" using m2(3) by simp
      obtain r u M' where r: "interprets E A fe2 r (u\<lparr>fe_mem := M'\<rparr>)" "ends E (18 * length (fe_cursor fe2) + 15) m2 r u M'" "r = VM_OK \<or> r = VM_HARD_CRASH"
        using less.hyps [OF c(1) m2(2) s2 w] by blast
      have "ends E (18 * length (fe_cursor fe) + 15) m r u M'"
        by (rule ends_mono [OF reaches_ends [OF m2(1) r(2)]]) (use c(1) n in linarith)
      then show ?thesis using token_done [OF tok M f r(1)] r(3) by blast
    qed
  qed
qed

section \<open>Start of the run\<close>

lemma fetched_at: "load m a 116 = Some (prog E) \<Longrightarrow> fetches E p bs \<Longrightarrow> p + n \<le> 116 \<Longrightarrow> length bs = n \<Longrightarrow> load m (a + p) n = Some bs"
  using fetched by blast

lemma start_moves:
  assumes g: "good_env E" and m: "pc m = en_code_place E 0" "base m = en_code_place E 0" "vm_params m = []" "vm_user m = fe" "vm_storage m = s"
    "vm_storage_len m = 24" "40 \<le> vm_storage_cap m" "cells_ok E s (vm_mem m)"
  shows "\<exists>M. moves E s 2 m 6 [] fe M \<and> same_off (var_cells s) M (vm_mem m)"
proof -
  obtain M1 where M1: "store (vm_mem m) (s + 24) (replicate 8 0) = Some M1" "cells_ok E s M1" "same_off (var_cells s) M1 (vm_mem m)"
    using cells_store [OF m(8), of 24 "replicate 8 0"] by auto
  obtain M2 where M2: "store M1 (s + 32) (replicate 8 0) = Some M2" "cells_ok E s M2" "same_off (var_cells s) M2 M1"
    using cells_store [OF M1(2), of 32 "replicate 8 0"] by auto
  have c: "load (vm_mem m) (en_code_place E 0) 116 = Some (prog E)" "load M1 (en_code_place E 0) 116 = Some (prog E)"
    using m(8) M1(2) by (simp_all add: cells_ok_def)
  have f: "load (vm_mem m) (en_code_place E 0) 3 = Some [2, 8, 0]" "load M1 (en_code_place E 0 + 3) 3 = Some [2, 8, 0]"
    using fetched_at [OF c(1) program(1), of 3] fetched_at [OF c(2) program(2), of 3] by simp_all
  let ?m1 = "m\<lparr>pc := en_code_place E 0 + 3, vm_mem := M1, vm_storage_len := 32\<rparr>"
  let ?m2 = "m\<lparr>pc := en_code_place E 0 + 6, vm_mem := M2, vm_storage_len := 40\<rparr>"
  have s1: "step (interp_env E) m = Continue ?m1" using step_storage_add [of m M1 "interp_env E"] f(1) m M1(1) by simp
  have s2: "step (interp_env E) ?m1 = Continue ?m2" using step_storage_add [of ?m1 M2 "interp_env E"] f(2) m M2(1) by (simp add: add.commute)
  have "reaches (interp_env E) 2 m ?m2" using reaches_trans [OF reaches_step [OF s1] reaches_step [OF s2]] by (simp only: one_add_one)
  moreover have "loop_at E s 6 [] fe ?m2" using m M2(2) by (simp add: loop_at_def)
  ultimately have "moves E s 2 m 6 [] fe M2" unfolding moves_def by force
  then show ?thesis using same_off_trans [OF M2(3) M1(3)] by blast
qed

lemma load_map_bytes: "load (map_bytes a bs m) a (length bs) = Some bs"
proof -
  have "store (map_bytes a bs m) a bs = Some (map_bytes a bs m)"
    by (auto simp: store_eq map_bytes_def fun_eq_iff)
  from load_store_same [OF this] show ?thesis .
qed

lemma load_map_bytes_apart: "apart b k a (length bs) \<Longrightarrow> load (map_bytes a bs m) b k = load m b k"
  by (rule load_cong) (auto simp: apart_def map_bytes_def)

lemma apart_sym: "apart a n b k \<longleftrightarrow> apart b k a n"
  by (auto simp: apart_def)

text \<open>What is mapped stays apart from a fresh block.\<close>

lemma fresh_apart: "load m a n = Some bs \<Longrightarrow> \<forall>i<k. m (b + i) = None \<Longrightarrow> 0 < n \<Longrightarrow> 0 < k \<Longrightarrow> apart a n b k"
proof (rule ccontr)
  assume l: "load m a n = Some bs" and f: "\<forall>i<k. m (b + i) = None" and n: "0 < n" "0 < k" and "\<not> apart a n b k"
  then have o: "b < a + n" "a < b + k" by (auto simp: apart_def)
  have mapped: "m (a + i) \<noteq> None" if "i < n" for i using load_mapped [of m a n] l that by simp
  show False
  proof (cases "a \<le> b")
    case True
    then have "b - a < n" using o by linarith
    then show ?thesis using mapped [of "b - a"] spec [OF f, of 0] True n by simp
  next
    case False
    then show ?thesis using mapped [of 0] spec [OF f, of "a - b"] o n by auto
  qed
qed

lemma start_storage:
  fixes v :: "frontend vm"
  assumes g: "good_env E" and len: "vm_storage_len v = 0" and fin: "finite (dom (vm_mem v))"
    and cap: "vm_storage_cap v = 0 \<or> 64 \<le> vm_storage_cap v \<and> (\<forall>i<vm_storage_cap v. vm_mem v (vm_storage v + i) \<noteq> None)"
  shows "\<exists>s c M. storage_push_return (interp_env E) 0 0 0 v = Some (True, v\<lparr>vm_mem := M, vm_storage := s, vm_storage_cap := c, vm_storage_len := 24\<rparr>)
    \<and> 64 \<le> c \<and> load M s 24 = Some (replicate 24 0) \<and> (\<forall>i<64. M (s + i) \<noteq> None) \<and> finite (dom M) \<and> same_off {s..<s + 64} M (vm_mem v)
    \<and> (0 < vm_storage_cap v \<and> s = vm_storage v \<or> (\<forall>i<64. vm_mem v (s + i) = None))"
proof -
  have bytes: "return_bytes 0 0 0 = replicate 24 0" by code_simp
  have pushed: "\<exists>M. (do { m \<leftarrow> store (vm_mem w) (vm_storage w) (replicate 24 0); m \<leftarrow> store m (vm_storage w) (replicate 24 0); Some m }) = Some M
      \<and> load M (vm_storage w) 24 = Some (replicate 24 0) \<and> (\<forall>i<64. M (vm_storage w + i) \<noteq> None) \<and> finite (dom M) \<and> same_off {vm_storage w..<vm_storage w + 64} M (vm_mem w)"
    if wm: "\<forall>i<64. vm_mem w (vm_storage w + i) \<noteq> None" "finite (dom (vm_mem w))" for w :: "frontend vm"
  proof -
    have stored: "\<exists>M'. store M (vm_storage w) (replicate 24 0) = Some M'" if "\<forall>i<64. M (vm_storage w + i) \<noteq> None" for M
      using that unfolding store_eq by auto
    obtain M1 where M1: "store (vm_mem w) (vm_storage w) (replicate 24 0) = Some M1" using stored wm(1) by blast
    have "\<forall>i<64. M1 (vm_storage w + i) \<noteq> None" using wm(1) store_mapped [OF M1] by blast
    then obtain M2 where M2: "store M1 (vm_storage w) (replicate 24 0) = Some M2" using stored by blast
    have "load M2 (vm_storage w) 24 = Some (replicate 24 0)" using load_store_same [OF M2] by simp
    moreover have "same_off {vm_storage w..<vm_storage w + 64} M2 (vm_mem w)" using store_other [OF M1] store_other [OF M2] by (auto simp: same_off_def)
    moreover have "\<forall>i<64. M2 (vm_storage w + i) \<noteq> None" using wm(1) store_mapped [OF M1] store_mapped [OF M2] by blast
    ultimately show ?thesis using M1 M2 wm(2) store_dom [OF M1] store_dom [OF M2] by simp
  qed
  show ?thesis
  proof (cases "vm_storage_cap v = 0")
    case True
    define s where "s = en_place E (vm_mem v) 64"
    define w where "w = v\<lparr>vm_mem := realloc_mem (vm_mem v) (vm_storage v) 0 s 64, vm_storage := s, vm_storage_cap := 64\<rparr>"
    have f: "\<forall>i<64. vm_mem v (s + i) = None" using g fin by (simp add: good_env_def s_def)
    have w: "vm_mem w a = (if s \<le> a \<and> a < s + 64 then Some 0 else vm_mem v a)" "vm_storage w = s" for a by (simp_all add: w_def realloc_mem_def)
    have "dom (vm_mem w) \<subseteq> dom (vm_mem v) \<union> {s..<s + 64}" by (auto simp: w split: if_splits)
    then have "finite (dom (vm_mem w))" using fin finite_subset by blast
    moreover have "\<forall>i<64. vm_mem w (vm_storage w + i) \<noteq> None" by (simp add: w)
    ultimately obtain M where M: "(do { m \<leftarrow> store (vm_mem w) (vm_storage w) (replicate 24 0); m \<leftarrow> store m (vm_storage w) (replicate 24 0); Some m }) = Some M"
      "load M s 24 = Some (replicate 24 0)" "\<forall>i<64. M (s + i) \<noteq> None" "finite (dom M)" "same_off {s..<s + 64} M (vm_mem w)" using pushed [of w] w(2) by auto
    have "grow_cap 64 24 = 64" by (rule grow_once(2)) simp
    then have "storage_push_return (interp_env E) 0 0 0 v = Some (True, v\<lparr>vm_mem := M, vm_storage := s, vm_storage_cap := 64, vm_storage_len := 24\<rparr>)"
      using M(1) g True len unfolding storage_push_return_def storage_resize_def bytes
      by (auto simp: Let_def good_env_def w_def s_def [symmetric] bind_eq_Some_conv)
    moreover have "same_off {s..<s + 64} M (vm_mem v)" using M(5) w(1) by (auto simp: same_off_def)
    ultimately show ?thesis using M(2-4) f by blast
  next
    case False
    then have c: "64 \<le> vm_storage_cap v" "\<forall>i<64. vm_mem v (vm_storage v + i) \<noteq> None" using cap by auto
    obtain M where M: "(do { m \<leftarrow> store (vm_mem v) (vm_storage v) (replicate 24 0); m \<leftarrow> store m (vm_storage v) (replicate 24 0); Some m }) = Some M"
      "load M (vm_storage v) 24 = Some (replicate 24 0)" "\<forall>i<64. M (vm_storage v + i) \<noteq> None" "finite (dom M)" "same_off {vm_storage v..<vm_storage v + 64} M (vm_mem v)"
      using pushed [OF c(2) fin] by auto
    have "storage_push_return (interp_env E) 0 0 0 v = Some (True, v\<lparr>vm_mem := M, vm_storage := vm_storage v, vm_storage_cap := vm_storage_cap v, vm_storage_len := 24\<rparr>)"
      using M(1) c(1) len unfolding storage_push_return_def storage_resize_def bytes
      by (auto simp: Let_def bind_eq_Some_conv)
    then show ?thesis using M(2-5) c(1) False by blast
  qed
qed

section \<open>Compiling a source\<close>

text \<open>
  The frontend a source is compiled with: a finite heap, no macro words, and an interpreter stack that is
  either not there yet or a mapped block of its own.
\<close>

definition source_ready :: "fe_env \<Rightarrow> frontend \<Rightarrow> bool" where
  "source_ready E fe \<longleftrightarrow> finite (dom (fe_mem fe)) \<and> no_macros fe \<and> length (fe_words fe) < 9223372036854775807
     \<and> (let v = fe_interpreter_vm fe in vm_storage_cap v = 0 \<or> 64 \<le> vm_storage_cap v
          \<and> (\<forall>i<vm_storage_cap v. fe_mem fe (vm_storage v + i) \<noteq> None) \<and> apart (en_code_place E 0) 116 (vm_storage v) 64
          \<and> (\<forall>i<4. apart (en_static E i) 8 (vm_storage v) 64))"

text \<open>The addresses the machine itself uses: the code, the native cells and its storage.\<close>

definition machine_area :: "fe_env \<Rightarrow> nat \<Rightarrow> nat set" where
  "machine_area E s = {en_code_place E 0..<en_code_place E 0 + 116} \<union> (\<Union>i<4. {en_static E i..<en_static E i + 8}) \<union> {s..<s + 64}"

lemma statics_at: "map_statics E m = map_bytes (en_static E 3) (bytes_of_nat 8 (en_entry E 3)) (map_bytes (en_static E 2) (bytes_of_nat 8 (en_entry E 2))
    (map_bytes (en_static E 1) (bytes_of_nat 8 (en_entry E 1)) (map_bytes (en_static E 0) (bytes_of_nat 8 (en_entry E 0)) m)))"
proof -
  have "[0..<4] = [0, 1, 2, 3::nat]" by code_simp
  then show ?thesis by (simp add: map_statics_def)
qed

lemma below_4: "i < (4::nat) \<longleftrightarrow> i = 0 \<or> i = 1 \<or> i = 2 \<or> i = 3"
  by auto

lemma map_bytes_off: "same_off {a..<a + length bs} (map_bytes a bs m) m"
  by (auto simp: same_off_def map_bytes_def)

lemma map_bytes_finite: "finite (dom m) \<Longrightarrow> finite (dom (map_bytes a bs m))"
proof -
  assume "finite (dom m)"
  moreover have "dom (map_bytes a bs m) \<subseteq> dom m \<union> {a..<a + length bs}" by (auto simp: map_bytes_def split: if_splits)
  ultimately show ?thesis using finite_subset by blast
qed

lemma map_bytes_mapped: "m x \<noteq> None \<Longrightarrow> map_bytes a bs m x \<noteq> None"
  by (simp add: map_bytes_def)

text \<open>The memory the run starts in.\<close>

lemma loaded:
  fixes m :: mem
  assumes g: "good_env E"
  defines "m' \<equiv> map_bytes (en_code_place E 0) (prog E) (map_statics E m)"
  shows "load m' (en_code_place E 0) 116 = Some (prog E)" "i < 4 \<Longrightarrow> load m' (en_static E i) 8 = Some (bytes_of_nat 8 (en_entry E i))"
    "finite (dom m) \<Longrightarrow> finite (dom m')" "m x \<noteq> None \<Longrightarrow> m' x \<noteq> None" "same_off (machine_area E s) m' m"
proof -
  have st: "i < 4 \<Longrightarrow> j < 4 \<Longrightarrow> i \<noteq> j \<Longrightarrow> apart (en_static E i) 8 (en_static E j) 8" for i j using g by (simp add: good_env_def)
  have co: "i < 4 \<Longrightarrow> apart (en_static E i) 8 (en_code_place E 0) 116" for i using g by (simp add: good_env_def apart_sym)
  show "load m' (en_code_place E 0) 116 = Some (prog E)" using load_map_bytes [of "en_code_place E 0" "prog E"] by (simp add: m'_def prog_length)
  have "load (map_statics E m) (en_static E i) 8 = Some (bytes_of_nat 8 (en_entry E i))" if "i < 4" for i
    using that unfolding below_4 statics_at
    using load_map_bytes [of _ "bytes_of_nat 8 (en_entry E i)"]
    by (elim disjE) (simp_all add: load_map_bytes_apart st)
  then show "load m' (en_static E i) 8 = Some (bytes_of_nat 8 (en_entry E i))" if "i < 4"
    unfolding m'_def using load_map_bytes_apart [of "en_static E i" 8 "en_code_place E 0" "prog E"] co that by (simp add: prog_length)
  show "finite (dom m')" if "finite (dom m)" using that by (simp add: m'_def statics_at map_bytes_finite)
  show "m' x \<noteq> None" if "m x \<noteq> None" using that by (simp add: m'_def statics_at map_bytes_mapped)
  have sub: "{en_static E i..<en_static E i + 8} \<subseteq> machine_area E s" if "i < 4" for i using that by (auto simp: machine_area_def)
  have off: "same_off (machine_area E s) (map_bytes (en_static E i) (bytes_of_nat 8 k) w) w'" if "i < 4" "same_off (machine_area E s) w w'" for i k w w'
  proof -
    have "same_off {en_static E i..<en_static E i + 8} (map_bytes (en_static E i) (bytes_of_nat 8 k) w) w"
      using map_bytes_off [of "en_static E i" "bytes_of_nat 8 k" w] by simp
    from same_off_trans [OF same_off_mono [OF this sub [OF that(1)]] that(2)] show ?thesis .
  qed
  have "same_off (machine_area E s) m' (map_statics E m)"
    unfolding m'_def by (rule same_off_mono [OF map_bytes_off]) (auto simp: machine_area_def prog_length)
  moreover have "same_off (machine_area E s) (map_statics E m) m" unfolding statics_at by (intro off) simp_all
  ultimately show "same_off (machine_area E s) m' m" by (rule same_off_trans)
qed

lemma source_runs:
  assumes g: "good_env E" and f: "source_ready E fe" and steps: "18 * length (fe_cursor fe) + 17 \<le> en_steps E"
  shows "\<exists>s r u v M. interprets E (machine_area E s) fe r (u\<lparr>fe_mem := M\<rparr>) \<and> (r = VM_OK \<or> r = VM_HARD_CRASH)
    \<and> run_vm E (interpreter_native E) \<lparr>code_addr = en_code_place E 0, code_bytes = prog E\<rparr> (map_statics E (fe_mem fe)) fe (empty_stacks (fe_interpreter_vm fe))
      = Some (r, v, unmap (en_code_place E 0) 116 M, u)"
proof -
  let ?m = "map_bytes (en_code_place E 0) (prog E) (map_statics E (fe_mem fe))" and ?iv = "fe_interpreter_vm fe"
  define v where "v = attach ?m fe (empty_stacks ?iv)"
  have sel: "vm_mem v = ?m" "vm_storage v = vm_storage ?iv" "vm_storage_cap v = vm_storage_cap ?iv" "vm_storage_len v = 0" "vm_params v = []" "vm_user v = fe"
    by (simp_all add: v_def attach_def empty_stacks_def)
  note l = loaded [OF g, where m = "fe_mem fe"]
  have fin: "finite (dom ?m)" using l(3) f by (simp add: source_ready_def)
  have cap: "vm_storage_cap v = 0 \<or> 64 \<le> vm_storage_cap v \<and> (\<forall>i<vm_storage_cap v. vm_mem v (vm_storage v + i) \<noteq> None)"
    using f l(4) unfolding sel source_ready_def Let_def by blast
  obtain s c M where st: "storage_push_return (interp_env E) 0 0 0 v = Some (True, v\<lparr>vm_mem := M, vm_storage := s, vm_storage_cap := c, vm_storage_len := 24\<rparr>)"
    "64 \<le> c" "load M s 24 = Some (replicate 24 0)" "\<forall>i<64. M (s + i) \<noteq> None" "finite (dom M)" "same_off {s..<s + 64} M ?m"
    "0 < vm_storage_cap ?iv \<and> s = vm_storage ?iv \<or> (\<forall>i<64. ?m (s + i) = None)"
    using start_storage [OF g sel(4) _ cap] fin unfolding sel by blast
  have ap: "apart (en_code_place E 0) 116 s 64 \<and> (\<forall>i<4. apart (en_static E i) 8 s 64)"
    using st(7)
  proof
    assume "0 < vm_storage_cap ?iv \<and> s = vm_storage ?iv"
    then show ?thesis using f by (auto simp: source_ready_def Let_def)
  next
    assume "\<forall>i<64. ?m (s + i) = None"
    from fresh_apart [OF l(1) this] fresh_apart [OF l(2) this] show ?thesis by simp
  qed
  have keep: "load M a k = load ?m a k" if "apart a k s 64" for a k
    by (rule load_cong) (use st(6) that in \<open>auto simp: same_off_def apart_def\<close>)
  have shrink: "apart a k s 40" if "apart a k s 64" for a k using that by (auto simp: apart_def)
  have "M (s + 24 + i) \<noteq> None" if "i < 16" for i using spec [OF st(4), of "24 + i"] that by (simp add: add.assoc)
  then have "load M (s + 24) 16 \<noteq> None" using load_mapped [of M "s + 24" 16] by blast
  then have cells: "cells_ok E s M" unfolding cells_ok_def using st(3,5) ap keep l(1,2) shrink by simp
  define m0 where "m0 = vm.extend (v\<lparr>vm_mem := M, vm_storage := s, vm_storage_cap := c, vm_storage_len := 24\<rparr>) (mach.fields (en_code_place E 0) (en_code_place E 0) 0 VM_OK)"
  have m0: "pc m0 = en_code_place E 0" "base m0 = en_code_place E 0" "vm_params m0 = []" "vm_user m0 = fe" "vm_storage m0 = s" "vm_storage_len m0 = 24"
    "vm_storage_cap m0 = c" "vm_mem m0 = M" by (simp_all add: m0_def vm.defs mach.defs sel)
  obtain M1 where M1: "moves E s 2 m0 6 [] fe M1" "same_off (var_cells s) M1 M" using start_moves [OF g m0(1-6)] m0(7,8) st(2) cells by auto
  obtain m1 where m1: "reaches (interp_env E) 2 m0 m1" "loop_at E s 6 [] fe m1" "vm_mem m1 = M1" using M1(1) by (auto simp: moves_def)
  have A: "var_cells s \<subseteq> machine_area E s" "{s..<s + 64} \<subseteq> machine_area E s" by (auto simp: machine_area_def)
  have off: "same_off (machine_area E s) (vm_mem m1) (fe_mem fe)" unfolding m1(3)
    using same_off_trans [OF same_off_mono [OF M1(2) A(1)] same_off_trans [OF same_off_mono [OF st(6) A(2)] l(5)]] .
  obtain r u M2 where r: "interprets E (machine_area E s) fe r (u\<lparr>fe_mem := M2\<rparr>)" "ends E (18 * length (fe_cursor fe) + 15) m1 r u M2" "r = VM_OK \<or> r = VM_HARD_CRASH"
    using loop_runs [OF g A(1) m1(2) off] f by (auto simp: source_ready_def)
  have "ends E (en_steps E) m0 r u M2" by (rule ends_mono [OF reaches_ends [OF m1(1) r(2)]]) (use steps in simp)
  then obtain w where w: "run (interp_env E) (en_steps E) m0 = Return r w" "vm_user w = u" "vm_mem w = M2" by (auto simp: ends_def)
  have "vm_run (interp_env E) (en_steps E) (en_code_place E 0) v = Return r w"
    using st(1) w(1) by (simp add: vm_run_def Let_def m0_def)
  then have "run_vm E (interpreter_native E) \<lparr>code_addr = en_code_place E 0, code_bytes = prog E\<rparr> (map_statics E (fe_mem fe)) fe (empty_stacks ?iv)
      = Some (r, detach w, unmap (en_code_place E 0) 116 M2, u)"
    using w by (simp add: run_vm_def map_code_def v_def prog_length)
  then show ?thesis using r(1,3) by blast
qed

lemma compile_source_runs:
  assumes g: "good_env E" and p: "frontend_prepare_func E fe = FOk () fe0" and f: "source_ready E fe0" and steps: "18 * length source + 17 \<le> en_steps E"
  shows "\<exists>s r u v M. interprets E (machine_area E s) (begin_source source fe0) r (u\<lparr>fe_mem := M\<rparr>) \<and> (r = VM_OK \<or> r = VM_HARD_CRASH)
    \<and> frontend_compile_source E source fe
      = finish_source r (u\<lparr>fe_interpreter_vm := v, fe_mem := unmap (en_code_place E 0) 116 M, fe_interpreter_result := r\<rparr>)"
proof -
  let ?fe = "begin_source source fe0"
  have c: "compile_interpreter E = Some \<lparr>code_addr = en_code_place E 0, code_bytes = prog E\<rparr>" "en_code_place E 0 \<noteq> 0"
    using compile_interpreter_code [of E] g by (simp_all add: good_env_def)
  have sel: "fe_mem ?fe = fe_mem fe0" "fe_interpreter_vm ?fe = fe_interpreter_vm fe0" "fe_cursor ?fe = source" by (simp_all add: begin_source_def)
  have r: "source_ready E ?fe" using f by (simp add: source_ready_def begin_source_def no_macros_def)
  obtain s r u v M where run: "interprets E (machine_area E s) ?fe r (u\<lparr>fe_mem := M\<rparr>)" "r = VM_OK \<or> r = VM_HARD_CRASH"
    "run_vm E (interpreter_native E) \<lparr>code_addr = en_code_place E 0, code_bytes = prog E\<rparr> (map_statics E (fe_mem ?fe)) ?fe (empty_stacks (fe_interpreter_vm ?fe))
      = Some (r, v, unmap (en_code_place E 0) 116 M, u)"
    using source_runs [OF g r] steps sel(3) by auto
  then have "frontend_compile_source E source fe
      = finish_source r (u\<lparr>fe_interpreter_vm := empty_stacks v, fe_mem := unmap (en_code_place E 0) 116 M, fe_interpreter_result := r\<rparr>)"
    using p c by (simp add: frontend_compile_source_def Let_def)
  then show ?thesis using run(1,2) by blast
qed

end
