(* ===== verification/Interpreter_Props.thy ===== *)
theory Interpreter_Props
  imports Interpreter_Run Frontend_Props
begin

text \<open>
  What compiling a source text amounts to: the function the machine runs handles one token after the
  other, always returns, and leaves a function that can be lowered.
\<close>

section \<open>Compiling a source is handling its tokens\<close>

text \<open>
  C4.  The interpreter refines its specification.  Compiling the block tree that \<^verbatim>\<open>compile_interpreter\<close>
  writes down and running the bytecode, natives included, comes to handling the tokens of the source in
  order: a parenthesis is counted, a word engaged, everything else is a variable, a number or an error.
  The run ends with the source, or with a crash at the first token that fails, and the machine touches
  no memory of the frontend but its own.
\<close>

theorem compile_source_interprets:
  assumes "good_env E" "frontend_prepare_func E fe = FOk () fe0" "source_ready E fe0" "18 * length source + 17 \<le> en_steps E"
  shows "\<exists>s r u v M. interprets E (machine_area E s) (begin_source source fe0) r (u\<lparr>fe_mem := M\<rparr>) \<and> (r = VM_OK \<or> r = VM_HARD_CRASH)
    \<and> frontend_compile_source E source fe
      = finish_source r (u\<lparr>fe_interpreter_vm := v, fe_mem := unmap (en_code_place E 0) 116 M, fe_interpreter_result := r\<rparr>)"
  by (rule compile_source_runs [OF assms])

lemma prepared_source_ready: "source_ready E fe \<Longrightarrow> frontend_prepare_func E fe = FOk () fe0 \<Longrightarrow> source_ready E fe0"
  by (auto simp: frontend_prepare_func_def source_ready_def no_macros_def set_blocks_def fail_with_def Let_def split: list.splits if_splits)

lemma finish_source_returns: "finish_source r fe \<noteq> FUndef"
  by (simp add: finish_source_def fail_with_def Let_def)


text \<open>A machine that places every block above all the memory in use.\<close>

definition run_env :: fe_env where
  "run_env = demo_env\<lparr>en_place := (\<lambda>m n. Suc (Max (insert 4096 (dom m)))), en_code_place := (\<lambda>i. 200), en_steps := 1000\<rparr>"

lemma run_env_good: "good_env run_env"
  unfolding good_env_def
proof (intro conjI allI impI)
  fix m :: mem and n i :: nat
  assume f: "finite (dom m)"
  have "en_place run_env m n + i \<notin> dom m"
  proof
    assume "en_place run_env m n + i \<in> dom m"
    then have "en_place run_env m n + i \<le> Max (insert 4096 (dom m))" using f by simp
    then show False by (simp add: run_env_def)
  qed
  then show "m (en_place run_env m n + i) = None" by (simp add: domIff)
qed (auto simp: run_env_def demo_env_def apart_def)

lemma add_words_mem: "got (add_words E ws fe) = Some fe' \<Longrightarrow> fe_mem fe' = fe_mem fe"
proof (induction ws arbitrary: fe)
  case (Cons w ws)
  then show ?case
    by (cases w) (fastforce simp: frontend_add_word_def fail_with_def split: option.splits)
qed simp

lemma demo_ready: "source_ready run_env demo_fe0"
proof -
  have v: "vm_storage_cap (fe_interpreter_vm demo_fe0) = 0 \<and> vm_storage (fe_interpreter_vm demo_fe0) = 0
    \<and> list_all (\<lambda>w. \<not> is_macro (w_data w)) (fe_words demo_fe0) \<and> length (fe_words demo_fe0) = 22" by code_simp
  let ?r = "got (frontend_add_core_words demo_env (frontend_init demo_ctx empty_demo (\<lambda>a. None)))"
  have "case ?r of None \<Rightarrow> False | Some fe \<Rightarrow> True" by code_simp
  then have "?r = Some demo_fe0" by (simp add: demo_fe0_def split: option.splits)
  then have "fe_mem demo_fe0 = (\<lambda>a. None)" unfolding frontend_add_core_words_def by (simp add: add_words_mem frontend_init_def)
  then show ?thesis
    using v by (simp add: source_ready_def no_macros_def list_all_iff run_env_def demo_env_def apart_def)
qed

lemma demo_prepared: "\<exists>fe0. frontend_prepare_func run_env demo_fe0 = FOk () fe0"
proof -
  have "case frontend_prepare_func run_env demo_fe0 of FOk u fe \<Rightarrow> True | _ \<Rightarrow> False"
    using demo_unbuilt by (simp add: frontend_prepare_func_def unbuilt_def run_env_def demo_env_def)
  then show ?thesis by (auto split: fres.splits)
qed

theorem compile_source_interprets_witness:
  "\<exists>fe0 s r u v M. frontend_prepare_func run_env demo_fe0 = FOk () fe0 \<and> interprets run_env (machine_area run_env s) (begin_source ''Loop 7 Again'' fe0) r (u\<lparr>fe_mem := M\<rparr>)
    \<and> frontend_compile_source run_env ''Loop 7 Again'' demo_fe0
      = finish_source r (u\<lparr>fe_interpreter_vm := v, fe_mem := unmap (en_code_place run_env 0) 116 M, fe_interpreter_result := r\<rparr>)"
proof -
  obtain fe0 where p: "frontend_prepare_func run_env demo_fe0 = FOk () fe0" using demo_prepared by blast
  have n: "18 * length ''Loop 7 Again'' + 17 \<le> en_steps run_env" by (simp add: run_env_def)
  from compile_source_interprets [OF run_env_good p prepared_source_ready [OF demo_ready p] n] p show ?thesis by blast
qed


section \<open>The function a source leaves behind\<close>

text \<open>The states of the run in which a token has been read and not yet handled.\<close>

inductive during :: "fe_env \<Rightarrow> nat set \<Rightarrow> frontend \<Rightarrow> parsed_name \<Rightarrow> frontend \<Rightarrow> bool" for E :: fe_env and A :: "nat set" and fe :: frontend where
  first_token: "next_token fe = (Some t, fe1) \<Longrightarrow> same_off A M (fe_mem fe) \<Longrightarrow> during E A fe t (fe1\<lparr>fe_current_token := Some t, fe_mem := M\<rparr>)"
| later_token: "during E A fe t fe1 \<Longrightarrow> token_step E (event_of fe1 t) fe1 = FOk () fe2 \<Longrightarrow> next_token fe2 = (Some t', fe3)
    \<Longrightarrow> same_off A M (fe_mem fe2) \<Longrightarrow> during E A fe t' (fe3\<lparr>fe_current_token := Some t', fe_mem := M\<rparr>)"

lemma during_step:
  assumes "during E A fe2 t fe3" "during E A fe t0 fe1" "token_step E (event_of fe1 t0) fe1 = FOk () fe2"
  shows "during E A fe t fe3"
  using assms(1)
proof induction
  case (first_token t fe3 M)
  show ?case by (rule later_token [OF assms(2,3) first_token])
next
  case (later_token t fe1 fe2 t' fe3 M)
  show ?case by (rule during.later_token [OF later_token.IH later_token(2-4)])
qed

lemma interprets_tree:
  assumes "interprets E A fe r fe'" "r = VM_OK" "tree_inv fe" "\<And>t fe1. during E A fe t fe1 \<Longrightarrow> allowed (event_of fe1 t) fe1"
  shows "tree_inv fe'"
  using assms
proof induction
  case (source_end fe fe1 M)
  then show ?case by (simp add: tree_inv_def)
next
  case (token_done fe t fe1 M fe2 r fe3)
  let ?fe = "fe1\<lparr>fe_current_token := Some t, fe_mem := M\<rparr>"
  have d: "during E A fe t ?fe" by (rule first_token [OF token_done.hyps(1,2)])
  have step: "token_step E (event_of ?fe t) ?fe = FOk () fe2" using token_done.hyps(3) by (simp only: event_token)
  have "tree_inv ?fe" using token_done.prems(2) token_done.hyps(1) by (auto simp: tree_inv_def dest!: next_token_blocks)
  from token_step_tree [OF this token_done.prems(3) [OF d] step] show ?case
    using token_done.IH token_done.prems(1,3) during_step [OF _ d step] by blast
qed simp


text \<open>
  The loop over the tokens with the memories the machine leaves them given: all events satisfy \<open>P\<close>,
  no step fails, and the last state satisfies \<open>Q\<close>.
\<close>

primrec replay :: "fe_env \<Rightarrow> (token_event \<Rightarrow> frontend \<Rightarrow> bool) \<Rightarrow> (frontend \<Rightarrow> bool) \<Rightarrow> mem list \<Rightarrow> frontend \<Rightarrow> bool" where
  "replay E P Q [] fe = False"
| "replay E P Q (M # Ms) fe = (case next_token fe of
     (None, _) \<Rightarrow> Q (fe\<lparr>fe_mem := M\<rparr>)
   | (Some t, fe1) \<Rightarrow> let fe1 = fe1\<lparr>fe_current_token := Some t, fe_mem := M\<rparr> in
       P (event_of fe1 t) fe1 \<and> (case token_step E (event_of fe1 t) fe1 of FOk u fe2 \<Rightarrow> replay E P Q Ms fe2 | _ \<Rightarrow> False))"

lemma replay_step:
  fixes M :: mem
  assumes "\<And>Ms. length Ms = n \<Longrightarrow> replay E P Q Ms fe" "next_token fe = (Some t, fe1)"
  obtains n' fe2 where "n = Suc n'" "P (event_of (fe1\<lparr>fe_current_token := Some t, fe_mem := M\<rparr>) t) (fe1\<lparr>fe_current_token := Some t, fe_mem := M\<rparr>)"
    "token_step E (event_of (fe1\<lparr>fe_current_token := Some t, fe_mem := M\<rparr>) t) (fe1\<lparr>fe_current_token := Some t, fe_mem := M\<rparr>) = FOk () fe2"
    "\<And>Ms. length Ms = n' \<Longrightarrow> replay E P Q Ms fe2"
proof (cases n)
  case 0
  then show thesis using assms(1) [of "[]"] by simp
next
  case (Suc k)
  let ?fe = "fe1\<lparr>fe_current_token := Some t, fe_mem := M\<rparr>"
  have r: "length Ms = k \<Longrightarrow> P (event_of ?fe t) ?fe \<and> (case token_step E (event_of ?fe t) ?fe of FOk u fe2 \<Rightarrow> replay E P Q Ms fe2 | _ \<Rightarrow> False)" for Ms
    using assms(1) [of "M # Ms"] assms(2) Suc by (simp add: Let_def)
  show thesis
  proof (cases "token_step E (event_of ?fe t) ?fe")
    case (FOk u fe2)
    show thesis by (rule that [OF Suc]) (use r [of "replicate k M"] r FOk in auto)
  qed (use r [of "replicate k M"] in auto)
qed

lemma replay_interprets:
  "interprets E A fe r fe' \<Longrightarrow> (\<And>Ms. length Ms = n \<Longrightarrow> replay E P Q Ms fe) \<Longrightarrow> r = VM_OK \<and> Q fe'"
proof (induction arbitrary: n rule: interprets.induct)
  case (source_end fe fe1 M)
  then show ?case by (cases n) (use source_end(3) [of "M # replicate (n - 1) M"] source_end(3) [of "[]"] in simp_all)
next
  case (token_fails fe t fe1 M fe2)
  show ?case using replay_step [OF token_fails(4,1), where M = M] token_fails(3) by (metis event_token fres.distinct(1))
next
  case (token_done fe t fe1 M fe2 r fe3)
  show ?case using replay_step [OF token_done(6,1), where M = M] token_done(3,5) by (metis event_token fres.inject(1))
qed

lemma replay_during:
  assumes "during E A fe t fe1" "\<And>Ms. length Ms = n \<Longrightarrow> replay E P Q Ms fe"
  shows "P (event_of fe1 t) fe1 \<and> (\<forall>fe2. token_step E (event_of fe1 t) fe1 = FOk () fe2 \<longrightarrow> (\<exists>n. \<forall>Ms. length Ms = n \<longrightarrow> replay E P Q Ms fe2))"
  using assms(1)
proof induction
  case (first_token t fe1 M)
  show ?case using replay_step [OF assms(2) first_token(1), where M = M] by (metis fres.inject(1))
next
  case (later_token t fe1 fe2 t' fe3 M)
  then obtain n where "\<And>Ms. length Ms = n \<Longrightarrow> replay E P Q Ms fe2" by blast
  from replay_step [OF this later_token(3), where M = M] show ?case by (metis fres.inject(1))
qed

definition demo_source :: string where "demo_source = ''Loop Start Break Finally End Again''"

definition demo_begun :: frontend where
  "demo_begun = begin_source demo_source (the (got (frontend_prepare_func demo_env demo_fe0)))"

lemma demo_replay: "length Ms = 7 \<Longrightarrow> replay run_env allowed (\<lambda>fe. fe_scopes fe = []) Ms demo_begun"
proof -
  assume "length Ms = 7"
  then obtain a b c d e f g where "Ms = [a, b, c, d, e, f, g]" by (auto simp: length_Suc_conv numeral_eq_Suc)
  moreover have "replay (demo_env\<lparr>en_place := p, en_code_place := q, en_steps := n\<rparr>) allowed (\<lambda>fe. fe_scopes fe = []) [a, b, c, d, e, f, g] demo_begun"
    for p q n by code_simp
  ultimately show ?thesis by (simp add: run_env_def)
qed

lemma finish_no_scopes: "fe_scopes fe = [] \<Longrightarrow> finish_implicit_epilogues fe = fe"
  by (subst finish_implicit_epilogues.simps) (simp add: implicit_on_top_def)

lemma demo_begins: "frontend_prepare_func run_env demo_fe0 = FOk () fe0 \<Longrightarrow> begin_source demo_source fe0 = demo_begun"
proof -
  assume p: "frontend_prepare_func run_env demo_fe0 = FOk () fe0"
  have "frontend_prepare_func demo_env demo_fe0 = frontend_prepare_func run_env demo_fe0"
    by (simp add: frontend_prepare_func_def run_env_def demo_env_def)
  then show ?thesis using p by (simp add: demo_begun_def)
qed


end
