(* ===== verification/Typing.thy ===== *)
theory Typing
  imports Borrow_Inv Compiler_Inv Layout_Inv
begin

text \<open>
  A type system for the operations, which both the checker of \<^verbatim>\<open>verification.c\<close> and the compiler of
  \<^verbatim>\<open>vm.c\<close> implement: what the checker accepts is well typed, and what is well typed compiles.
\<close>

section \<open>The type system\<close>

text \<open>The kind of a type of the table, without what the layout pass fills in.\<close>

definition kind_of :: "func \<Rightarrow> nat \<Rightarrow> type_kind option" where
  "kind_of f t = (if type_idx_valid (fn_types f) t then Some (skind (t_kind (fn_types f ! t))) else None)"

text \<open>What a call with its operands on top of the stack leaves: the outputs stay, the inputs go.\<close>

definition typed_call :: "sig \<Rightarrow> nat list \<Rightarrow> nat list option" where
  "typed_call s ts = (if take (sig_len s) ts = rev (sig_tids s) then Some (drop (length (s_ins s)) ts) else None)"

text \<open>
  What an operation makes of a stack of types, topmost first.  Without a result the operation is
  ill typed.
\<close>

fun typed_op :: "func \<Rightarrow> global list \<Rightarrow> func list \<Rightarrow> op_kind \<Rightarrow> nat \<Rightarrow> nat list \<Rightarrow> nat list option" where
  "typed_op f gs fs OP_NULL n ts = Some ts"
| "typed_op f gs fs OP_DROP n ts = (if n \<le> length ts then Some (drop n ts) else None)"
| "typed_op f gs fs OP_PUSH_VAR n ts =
     (if n < length (fn_vars f) \<and> kind_of f (v_tid (fn_vars f ! n)) \<noteq> None then Some (v_tid (fn_vars f ! n) # ts) else None)"
| "typed_op f gs fs OP_PUSH_ARG n ts =
     (if n < length (fn_vars f) \<and> kind_of f (v_tid (fn_vars f ! n)) \<noteq> None then Some (v_tid (fn_vars f ! n) # ts) else None)"
| "typed_op f gs fs OP_PUSH_GLOBAL n ts =
     (if n < length gs \<and> kind_of f (v_tid (g_var (gs ! n))) \<noteq> None then Some (v_tid (g_var (gs ! n)) # ts) else None)"
| "typed_op f gs fs OP_BIT_NOT_ASSIGN n (t # ts) = (if t = TYPE_INT_ID then Some (t # ts) else None)"
| "typed_op f gs fs OP_ARR_PUSH n (e # a # ts) =
     (case kind_of f a of Some (TYPE_ARRAY e' k d) \<Rightarrow> if e' = e then Some (a # ts) else None | _ \<Rightarrow> None)"
| "typed_op f gs fs OP_ARR_DROP n (i # a # ts) =
     (case kind_of f a of Some (TYPE_ARRAY e k d) \<Rightarrow> if i = TYPE_INT_ID then Some (a # ts) else None | _ \<Rightarrow> None)"
| "typed_op f gs fs OP_ARR_AT n (i # a # ts) =
     (case kind_of f a of Some (TYPE_ARRAY e k d) \<Rightarrow> if i = TYPE_INT_ID then Some (e # ts) else None | _ \<Rightarrow> None)"
| "typed_op f gs fs OP_SLICE_FROM_AR n (a # r # ts) =
     (case (kind_of f a, kind_of f r) of
        (Some (TYPE_ARRAY e k d), Some (TYPE_SLICE e')) \<Rightarrow> if e' = e then Some (r # ts) else None
      | (Some (TYPE_ARRAY e k d), Some (TYPE_VIEW e')) \<Rightarrow> if e' = e then Some (r # ts) else None
      | _ \<Rightarrow> None)"
| "typed_op f gs fs OP_SLICE_FROM_ONE n (e # r # ts) =
     (case kind_of f r of Some (TYPE_SLICE e') \<Rightarrow> if e' = e then Some (r # ts) else None | _ \<Rightarrow> None)"
| "typed_op f gs fs OP_SLICE_INC n (i # r # ts) =
     (case kind_of f r of Some (TYPE_SLICE e) \<Rightarrow> if i = TYPE_INT_ID then Some (r # ts) else None | _ \<Rightarrow> None)"
| "typed_op f gs fs OP_SLICE_DEC n (i # r # ts) =
     (case kind_of f r of Some (TYPE_SLICE e) \<Rightarrow> if i = TYPE_INT_ID then Some (r # ts) else None | _ \<Rightarrow> None)"
| "typed_op f gs fs OP_SLICE_AT n (i # r # ts) =
     (case kind_of f r of
        Some (TYPE_SLICE e) \<Rightarrow> if i = TYPE_INT_ID then Some (e # ts) else None
      | Some (TYPE_VIEW e) \<Rightarrow> if i = TYPE_INT_ID then Some (e # ts) else None
      | _ \<Rightarrow> None)"
| "typed_op f gs fs OP_STRUCT_AT n (s # ts) =
     (case kind_of f s of Some (TYPE_STRUCT fl) \<Rightarrow> if n < length fl then Some (f_tid (fl ! n) # ts) else None | _ \<Rightarrow> None)"
| "typed_op f gs fs OP_CALL n ts = (if n < length fs then typed_call (fn_sig (fs ! n)) ts else None)"
| "typed_op f gs fs OP_CALL_NATIVE_ON_STACK n (t # ts) =
     (case kind_of f t of Some (TYPE_NATIVE_FUNC_POINTER s) \<Rightarrow> typed_call s ts | _ \<Rightarrow> None)"
| "typed_op f gs fs OP_ASSIGN n (s # d # ts) = (if s = d \<and> kind_of f d \<noteq> None then Some (d # ts) else None)"
| "typed_op f gs fs k n (s # d # ts) =
     (if k \<in> {OP_ADD_ASSIGN, OP_SUB_ASSIGN, OP_MUL_ASSIGN, OP_DIV_ASSIGN, OP_AND_ASSIGN, OP_OR_ASSIGN, OP_XOR_ASSIGN}
        \<and> s = TYPE_INT_ID \<and> d = TYPE_INT_ID then Some (d # ts) else None)"
| "typed_op f gs fs k n ts = None"

text \<open>The types named by a type are in the table, and no signature has more operands than a count holds.\<close>

definition typing_ready :: "func \<Rightarrow> bool" where
  "typing_ready f \<longleftrightarrow> types_closed (fn_types f) \<and> (\<forall>t\<in>set (fn_types f). \<forall>s. t_kind t = TYPE_NATIVE_FUNC_POINTER s \<longrightarrow> sig_len s + 1 < W32)"

lemma kind_ofD: "kind_of f i = Some k \<Longrightarrow> type_idx_valid (fn_types f) i \<and> skind (t_kind (fn_types f ! i)) = k"
  by (auto simp: kind_of_def split: if_splits)

lemma skind_eq:
  "skind k = TYPE_ARRAY e c d \<longleftrightarrow> d = 0 \<and> (\<exists>d'. k = TYPE_ARRAY e c d')" "skind k = TYPE_SLICE e \<longleftrightarrow> k = TYPE_SLICE e"
  "skind k = TYPE_VIEW e \<longleftrightarrow> k = TYPE_VIEW e" "skind k = TYPE_NATIVE_FUNC_POINTER s \<longleftrightarrow> k = TYPE_NATIVE_FUNC_POINTER s"
  "skind k = TYPE_STRUCT fl \<longleftrightarrow> (\<exists>fs. k = TYPE_STRUCT fs \<and> fl = map (\<lambda>f. f\<lparr>f_offset := 0\<rparr>) fs)"
  by (cases k; auto)+

lemma typing_readyD:
  assumes "typing_ready f"
  shows "kind_of f i = Some (TYPE_ARRAY e k d) \<Longrightarrow> kind_of f e \<noteq> None" "kind_of f i = Some (TYPE_SLICE e) \<Longrightarrow> kind_of f e \<noteq> None"
    "kind_of f i = Some (TYPE_VIEW e) \<Longrightarrow> kind_of f e \<noteq> None" "kind_of f i = Some (TYPE_STRUCT fl) \<Longrightarrow> n < length fl \<Longrightarrow> kind_of f (f_tid (fl ! n)) \<noteq> None"
    "kind_of f i = Some (TYPE_NATIVE_FUNC_POINTER s) \<Longrightarrow> sig_len s + 1 < W32"
proof -
  have t: "(\<forall>c\<in>set (children k). kind_of f c \<noteq> None) \<and> (\<forall>s. k = TYPE_NATIVE_FUNC_POINTER s \<longrightarrow> sig_len s + 1 < W32)"
    if k: "kind_of f i = Some k" for k
  proof -
    have "fn_types f ! i \<in> set (fn_types f)" "k = skind (t_kind (fn_types f ! i))" using kind_ofD [OF k] by (auto simp: type_idx_valid_def)
    then show ?thesis using assms by (auto simp: typing_ready_def types_closed_def kind_of_def skind_eq)
  qed
  show "kind_of f i = Some (TYPE_ARRAY e k d) \<Longrightarrow> kind_of f e \<noteq> None" "kind_of f i = Some (TYPE_SLICE e) \<Longrightarrow> kind_of f e \<noteq> None"
    "kind_of f i = Some (TYPE_VIEW e) \<Longrightarrow> kind_of f e \<noteq> None" "kind_of f i = Some (TYPE_STRUCT fl) \<Longrightarrow> n < length fl \<Longrightarrow> kind_of f (f_tid (fl ! n)) \<noteq> None"
    "kind_of f i = Some (TYPE_NATIVE_FUNC_POINTER s) \<Longrightarrow> sig_len s + 1 < W32"
    by (drule t, simp)+
qed

section \<open>What is well typed compiles\<close>

text \<open>The computation succeeds in a state and with a value that satisfy \<open>Q\<close>.\<close>

definition ctotal :: "'a cres \<Rightarrow> ('a \<Rightarrow> compiler \<Rightarrow> bool) \<Rightarrow> bool" where
  "ctotal m Q \<longleftrightarrow> (\<exists>x c. m = COk x c \<and> Q x c)"

lemma ctotal_simps [simp]: "ctotal (COk x c) Q \<longleftrightarrow> Q x c" "\<not> ctotal (CFail c) Q" "\<not> ctotal CUndef Q"
  by (simp_all add: ctotal_def)

lemma ctotal_cbind [simp]: "ctotal (cbind m f) Q \<longleftrightarrow> ctotal m (\<lambda>x c. ctotal (f x c) Q)"
  by (cases m) simp_all

lemma ctotal_mono: "ctotal m P \<Longrightarrow> (\<And>x c. P x c \<Longrightarrow> Q x c) \<Longrightarrow> ctotal m Q"
  by (auto simp: ctotal_def)

named_theorems total_intros \<open>steps of the compiler that succeed when memory suffices\<close>

abbreviation room :: "compiler \<Rightarrow> bool" where "room c \<equiv> c_alloc c = (\<lambda>n. True)"

lemma ctotal_emits [total_intros]:
  assumes "room c"
  shows "(\<And>cb. Q () (c\<lparr>c_code := cb\<rparr>)) \<Longrightarrow> ctotal (eop b c) Q" "(\<And>cb. Q () (c\<lparr>c_code := cb\<rparr>)) \<Longrightarrow> ctotal (eoffset i c) Q"
    "(\<And>cb. Q () (c\<lparr>c_code := cb\<rparr>)) \<Longrightarrow> ctotal (ecount n c) Q" "(\<And>cb. Q () (c\<lparr>c_code := cb\<rparr>)) \<Longrightarrow> ctotal (esize n c) Q"
    "(\<And>cb. Q () (c\<lparr>c_code := cb\<rparr>)) \<Longrightarrow> ctotal (epointer n c) Q"
  using assms by (simp_all add: emitc_def emit_op_def emit_offset_def emit_count_def emit_size_def emit_pointer_def emit_bytes_def grow_bytes_def Let_def)

lemma ctotal_push [total_intros]:
  assumes "room c" and Q: "\<And>cap. Q () (c\<lparr>c_params := c_params c @ [t], c_params_cap := cap\<rparr>)"
  shows "ctotal (push_type t c) Q"
proof -
  have "\<exists>cap. push_grow (c_alloc c) 16 4 t (c_params c, c_params_cap c) = Some (c_params c @ [t], cap)"
    by (cases "length (c_params c) = c_params_cap c") (use assms(1) in \<open>simp_all add: push_grow_def Let_def\<close>)
  then obtain cap where "push_grow (c_alloc c) 16 4 t (c_params c, c_params_cap c) = Some (c_params c @ [t], cap)" by blast
  then have "push_type t c = COk () (c\<lparr>c_params := c_params c @ [t], c_params_cap := cap\<rparr>)" by (simp add: push_type_def)
  then show ?thesis using Q by simp
qed

lemma ctotal_pop [total_intros]:
  "n \<le> length (c_params c) \<Longrightarrow> Q () (c\<lparr>c_params := take (length (c_params c) - n) (c_params c)\<rparr>) \<Longrightarrow> ctotal (pop_types n c) Q"
  by (simp add: pop_types_def)

lemma ctotal_payload [total_intros]:
  "kind_of (c_func c) t \<noteq> None \<Longrightarrow> Q (t_payload (c_types c ! t)) c \<Longrightarrow> ctotal (type_payload_size t c) Q"
  by (simp add: type_payload_size_def kind_of_def split: if_splits)

text \<open>Only the code and the stack of types change.\<close>

definition leaves :: "nat list \<Rightarrow> compiler \<Rightarrow> unit \<Rightarrow> compiler \<Rightarrow> bool" where
  "leaves ts c u c' \<longleftrightarrow> c_params c' = rev ts \<and> c_func c' = c_func c \<and> c_ctx c' = c_ctx c \<and> c_alloc c' = c_alloc c \<and> c_vars c' = c_vars c"

text \<open>A call needs the code of its target, a variable its place in the frame.\<close>

definition op_ready :: "compiler \<Rightarrow> op_kind \<Rightarrow> nat \<Rightarrow> bool" where
  "op_ready c k n \<longleftrightarrow>
     (k = OP_PUSH_VAR \<longrightarrow> vl_live (c_vars c ! n) \<and> vl_tid (c_vars c ! n) = v_tid (fn_vars (c_func c) ! n))
     \<and> (k = OP_CALL \<longrightarrow> sig_len (fn_sig (x_funcs (the (c_ctx c)) ! n)) < W32 \<and> n < length (x_code (the (c_ctx c))) \<and> code_addr (x_code (the (c_ctx c)) ! n) \<noteq> 0)"

lemma take_rev_sig: "take (sig_len s) ts = rev (sig_tids s) \<Longrightarrow> sig_len s \<le> length ts \<and> drop (length ts - sig_len s) (rev ts) = sig_tids s"
proof -
  assume t: "take (sig_len s) ts = rev (sig_tids s)"
  have n: "length (sig_tids s) = sig_len s" by (simp add: sig_tids_def sig_len_def)
  then have "length (take (sig_len s) ts) = sig_len s" using t by simp
  then have "sig_len s \<le> length ts" by simp
  moreover have "drop (length ts - sig_len s) (rev ts) = rev (take (sig_len s) ts)" by (simp add: rev_take)
  ultimately show ?thesis using t by simp
qed

lemma emit_slice_layout_total [total_intros]:
  "room c \<Longrightarrow> (\<And>cb. Q () (c\<lparr>c_code := cb\<rparr>)) \<Longrightarrow> ctotal (emit_slice_layout n c) Q"
  unfolding emit_slice_layout_def csteps.simps ctotal_cbind by (intro total_intros) simp_all

lemma rev_tops [simp]:
  "(rev ts @ [b, a]) ! (Suc (length ts)) = a" "(rev ts @ [b, a]) ! length ts = b" "(rev ts @ [a]) ! length ts = a"
  by (simp_all add: nth_append)

lemma typed_call_compiles:
  assumes c: "room c" "c_ctx c = Some x" "c_params c = rev ts" and r: "op_ready c OP_CALL n" and t: "n < length (x_funcs x)" "typed_call (fn_sig (x_funcs x ! n)) ts = Some us"
  shows "ctotal (compile_func_call K n c) (leaves us c)"
proof -
  let ?s = "fn_sig (x_funcs x ! n)"
  have code: "compile_context_func_code K n c = COk (code_addr (x_code x ! n)) c" and f: "sig_len ?s < W32"
    using r c(2) t(1) by (simp_all add: op_ready_def compile_context_func_code_def ensure_code_slot_def)
  have us: "us = drop (length (s_ins ?s)) ts" "take (sig_len ?s) ts = rev (sig_tids ?s)" using t(2) by (auto simp: typed_call_def split: if_splits)
  have n: "u32 (length (s_ins ?s)) = length (s_ins ?s)" using f by (simp add: u32_id sig_len_def)
  have le: "length (s_ins ?s) \<le> length ts" using take_rev_sig [OF us(2)] by (simp add: sig_len_def)
  show ?thesis
    unfolding compile_func_call_def ctotal_cbind code
    using take_rev_sig [OF us(2)] c le n us(1)
    by (auto simp: Let_def leaves_def rev_drop intro!: total_intros)
qed

text \<open>What a type of the table is, by the kind it has in the type system.\<close>

lemma kind_facts:
  "kind_of f t = Some (TYPE_ARRAY e k d) \<Longrightarrow> type_idx_valid (fn_types f) t \<and> (\<exists>d. t_kind (fn_types f ! t) = TYPE_ARRAY e k d)"
  "kind_of f t = Some (TYPE_SLICE e) \<Longrightarrow> type_idx_valid (fn_types f) t \<and> t_kind (fn_types f ! t) = TYPE_SLICE e"
  "kind_of f t = Some (TYPE_VIEW e) \<Longrightarrow> type_idx_valid (fn_types f) t \<and> t_kind (fn_types f ! t) = TYPE_VIEW e"
  "kind_of f t = Some (TYPE_NATIVE_FUNC_POINTER s) \<Longrightarrow> type_idx_valid (fn_types f) t \<and> t_kind (fn_types f ! t) = TYPE_NATIVE_FUNC_POINTER s"
  "kind_of f t = Some (TYPE_STRUCT fl) \<Longrightarrow> type_idx_valid (fn_types f) t \<and> (\<exists>fs. t_kind (fn_types f ! t) = TYPE_STRUCT fs \<and> fl = map (\<lambda>f. f\<lparr>f_offset := 0\<rparr>) fs)"
  by (drule kind_ofD, simp add: skind_eq)+

lemma ready_types:
  assumes "typing_ready f" "type_idx_valid (fn_types f) t"
  shows "t_kind (fn_types f ! t) = TYPE_ARRAY e k d \<Longrightarrow> \<exists>y. kind_of f e = Some y" "t_kind (fn_types f ! t) = TYPE_SLICE e \<Longrightarrow> \<exists>y. kind_of f e = Some y"
    "t_kind (fn_types f ! t) = TYPE_VIEW e \<Longrightarrow> \<exists>y. kind_of f e = Some y"
    "t_kind (fn_types f ! t) = TYPE_STRUCT fs \<Longrightarrow> n < length fs \<Longrightarrow> type_idx_valid (fn_types f) (f_tid (fs ! n))"
    "t_kind (fn_types f ! t) = TYPE_NATIVE_FUNC_POINTER s \<Longrightarrow> sig_len s + 1 < W32"
proof -
  have t: "\<forall>c\<in>set (children (t_kind (fn_types f ! t))). type_idx_valid (fn_types f) c"
    "\<forall>s. t_kind (fn_types f ! t) = TYPE_NATIVE_FUNC_POINTER s \<longrightarrow> sig_len s + 1 < W32"
    using assms nth_mem [of t "fn_types f"] unfolding typing_ready_def types_closed_def type_idx_valid_def by blast+
  show "t_kind (fn_types f ! t) = TYPE_ARRAY e k d \<Longrightarrow> \<exists>y. kind_of f e = Some y" "t_kind (fn_types f ! t) = TYPE_SLICE e \<Longrightarrow> \<exists>y. kind_of f e = Some y"
    "t_kind (fn_types f ! t) = TYPE_VIEW e \<Longrightarrow> \<exists>y. kind_of f e = Some y"
    "t_kind (fn_types f ! t) = TYPE_STRUCT fs \<Longrightarrow> n < length fs \<Longrightarrow> type_idx_valid (fn_types f) (f_tid (fs ! n))"
    "t_kind (fn_types f ! t) = TYPE_NATIVE_FUNC_POINTER s \<Longrightarrow> sig_len s + 1 < W32"
    using t by (auto simp: kind_of_def)
qed

fun_cases typed_not: "typed_op f gs fs OP_BIT_NOT_ASSIGN n ts = Some us"
fun_cases typed_arr_push: "typed_op f gs fs OP_ARR_PUSH n ts = Some us"
fun_cases typed_arr_drop: "typed_op f gs fs OP_ARR_DROP n ts = Some us"
fun_cases typed_arr_at: "typed_op f gs fs OP_ARR_AT n ts = Some us"
fun_cases typed_from_ar: "typed_op f gs fs OP_SLICE_FROM_AR n ts = Some us"
fun_cases typed_from_one: "typed_op f gs fs OP_SLICE_FROM_ONE n ts = Some us"
fun_cases typed_inc: "typed_op f gs fs OP_SLICE_INC n ts = Some us"
fun_cases typed_dec: "typed_op f gs fs OP_SLICE_DEC n ts = Some us"
fun_cases typed_slice_at: "typed_op f gs fs OP_SLICE_AT n ts = Some us"
fun_cases typed_struct_at: "typed_op f gs fs OP_STRUCT_AT n ts = Some us"
fun_cases typed_native: "typed_op f gs fs OP_CALL_NATIVE_ON_STACK n ts = Some us"
fun_cases typed_assign: "typed_op f gs fs OP_ASSIGN n ts = Some us"
fun_cases typed_arith: "typed_op f gs fs OP_ADD_ASSIGN n ts = Some us" "typed_op f gs fs OP_SUB_ASSIGN n ts = Some us"
  "typed_op f gs fs OP_MUL_ASSIGN n ts = Some us" "typed_op f gs fs OP_DIV_ASSIGN n ts = Some us" "typed_op f gs fs OP_AND_ASSIGN n ts = Some us"
  "typed_op f gs fs OP_OR_ASSIGN n ts = Some us" "typed_op f gs fs OP_XOR_ASSIGN n ts = Some us"

lemmas typed_cases = typed_not typed_arr_push typed_arr_drop typed_arr_at typed_from_ar typed_from_one typed_inc typed_dec typed_slice_at
  typed_struct_at typed_native typed_assign typed_arith

lemma compiles_arrays:
  assumes c: "room c" "c_params c = rev ts" "typing_ready (c_func c)" and k: "k \<in> {OP_ARR_PUSH, OP_ARR_DROP, OP_ARR_AT}"
    and t: "typed_op (c_func c) gs fs k n ts = Some us"
  shows "ctotal (compile_op K k n c) (leaves us c)"
  using k t c(1,2) ready_types(1) [OF c(3)]
  by (auto elim!: typed_cases split: option.splits type_kind.splits if_splits dest!: kind_facts
      simp: compile_arr_push_def compile_arr_drop_def compile_arr_at_def leaves_def intro!: total_intros)

lemma compiles_slices:
  assumes c: "room c" "c_params c = rev ts" "typing_ready (c_func c)"
    and k: "k \<in> {OP_SLICE_FROM_AR, OP_SLICE_FROM_ONE, OP_SLICE_INC, OP_SLICE_DEC, OP_SLICE_AT}"
    and t: "typed_op (c_func c) gs fs k n ts = Some us"
  shows "ctotal (compile_op K k n c) (leaves us c)"
  using k t c(1,2) ready_types(1-3) [OF c(3)]
  by (auto elim!: typed_cases split: option.splits type_kind.splits if_splits dest!: kind_facts
      simp: compile_slice_from_ar_def compile_slice_from_one_def compile_slice_move_def compile_slice_at_def type_is_slice_or_view_def leaves_def Let_def
      intro!: total_intros)

lemma compiles_struct:
  assumes c: "room c" "c_params c = rev ts" "typing_ready (c_func c)" and t: "typed_op (c_func c) gs fs OP_STRUCT_AT n ts = Some us"
  shows "ctotal (compile_op K OP_STRUCT_AT n c) (leaves us c)"
  using t c(1,2) ready_types(4) [OF c(3)]
  by (auto elim!: typed_cases split: option.splits type_kind.splits if_splits dest!: kind_facts
      simp: compile_struct_at_def leaves_def list_update_append intro!: total_intros)

lemma compiles_arith:
  assumes c: "room c" "c_params c = rev ts"
    and k: "k \<in> {OP_ASSIGN, OP_BIT_NOT_ASSIGN, OP_ADD_ASSIGN, OP_SUB_ASSIGN, OP_MUL_ASSIGN, OP_DIV_ASSIGN, OP_AND_ASSIGN, OP_OR_ASSIGN, OP_XOR_ASSIGN}"
    and t: "typed_op (c_func c) gs fs k n ts = Some us"
  shows "ctotal (compile_op K k n c) (leaves us c)"
  using k t c(1,2)
  by (auto elim!: typed_cases split: option.splits if_splits
      simp: compile_binop_def leaves_def intro!: total_intros)

lemma kind_of_valid: "kind_of f t = Some y \<Longrightarrow> type_idx_valid (fn_types f) t"
  by (simp add: kind_of_def split: if_splits)

lemma compiles_pushes:
  assumes c: "room c" "c_ctx c = Some x" "c_params c = rev ts" "op_ready c k n" and k: "k \<in> {OP_NULL, OP_DROP, OP_PUSH_VAR, OP_PUSH_ARG, OP_PUSH_GLOBAL}"
    and t: "typed_op (c_func c) (x_globals x) fs k n ts = Some us"
  shows "ctotal (compile_op K k n c) (leaves us c)"
  using k t c
  by (auto split: if_splits dest!: kind_of_valid simp: emit_push_var_def emit_push_arg_def compile_push_global_def op_ready_def leaves_def rev_drop Let_def
      intro!: total_intros)

lemma compiles_native:
  assumes c: "room c" "c_params c = rev ts" "typing_ready (c_func c)" and t: "typed_op (c_func c) gs fs OP_CALL_NATIVE_ON_STACK n ts = Some us"
  shows "ctotal (compile_op K OP_CALL_NATIVE_ON_STACK n c) (leaves us c)"
proof -
  obtain h hs s where ts: "ts = h # hs" and h: "kind_of (c_func c) h = Some (TYPE_NATIVE_FUNC_POINTER s)" "typed_call s hs = Some us"
    using t by (auto elim!: typed_cases split: option.splits type_kind.splits)
  have k: "type_idx_valid (c_types c) h" "t_kind (c_types c ! h) = TYPE_NATIVE_FUNC_POINTER s" using kind_facts(4) [OF h(1)] by simp_all
  have us: "us = drop (length (s_ins s)) hs" "take (sig_len s) hs = rev (sig_tids s)" using h(2) by (auto simp: typed_call_def split: if_splits)
  have n: "sig_len s + 1 < W32" using ready_types(5) [OF c(3) k] .
  then have u: "u32 (Suc (length (s_ins s))) = Suc (length (s_ins s))" "length (s_ins s) \<le> 4294967295" by (simp_all add: u32_id sig_len_def)
  have le: "length (s_ins s) \<le> length hs" using take_rev_sig [OF us(2)] by (simp add: sig_len_def)
  show ?thesis
    using take_rev_sig [OF us(2)] c(1,2) ts k le u us(1)
    by (auto simp: compile_native_call_def Let_def leaves_def rev_drop intro!: total_intros)
qed

theorem typed_compiles:
  assumes "room c" "c_ctx c = Some x" "c_params c = rev ts" "typing_ready (c_func c)" "op_ready c k n"
    and t: "typed_op (c_func c) (x_globals x) (x_funcs x) k n ts = Some us"
  shows "ctotal (compile_op K k n c) (leaves us c)"
proof (cases "k = OP_CALL")
  case True
  with t have "n < length (x_funcs x)" "typed_call (fn_sig (x_funcs x ! n)) ts = Some us" by (auto split: if_splits)
  from typed_call_compiles [OF assms(1-3) _ this] show ?thesis using True assms(5) by simp
next
  case False
  then show ?thesis
    using compiles_arrays [OF assms(1,3,4) _ t] compiles_slices [OF assms(1,3,4) _ t] compiles_struct [OF assms(1,3,4)] compiles_native [OF assms(1,3,4)]
      compiles_arith [OF assms(1,3) _ t] compiles_pushes [OF assms(1,2,3,5) _ t] t
    by (cases k) auto
qed

end
