(* ===== verification/Typing_Check.thy ===== *)
theory Typing_Check
  imports Typing
begin

text \<open>
  The checker against the type system: the places on its stack have the types the type system
  gives the operands, and every operation its first pass accepts is well typed, so that it compiles.
\<close>

lemma par_type_fuel_pars: "par_type_fuel n (x\<lparr>v_pars := ps\<rparr>) f i = par_type_fuel n x f i"
  by (induction n arbitrary: i) (simp_all add: Let_def split: par_kind.split)

lemma par_type_pars [simp]: "par_type (x\<lparr>v_pars := ps\<rparr>) f i = par_type x f i"
  by (simp add: par_type_def par_type_fuel_pars del: par_type_fuel.simps)


section \<open>What the checker accepts is well typed\<close>

text \<open>A place on the checker's stack for each type on the stack of types, of that type.\<close>

definition stack_agrees :: "cctx \<Rightarrow> func \<Rightarrow> nat list \<Rightarrow> bool" where
  "stack_agrees x f ts \<longleftrightarrow> list_all2 (\<lambda>p t. p < length (v_handles x) \<and> par_type x f p = Some t) (rev (v_pars x)) ts"

text \<open>A context with the places of another, and possibly more.\<close>

definition more_places :: "cctx \<Rightarrow> cctx \<Rightarrow> bool" where
  "more_places x x' \<longleftrightarrow> places_ok x' \<and> x_globals x' = x_globals x \<and> x_funcs x' = x_funcs x \<and> length (v_handles x) \<le> length (v_handles x')
     \<and> (\<forall>i<length (v_handles x). h_par (v_handles x' ! i) = h_par (v_handles x ! i))"

lemma more_places_type:
  "places_ok x \<Longrightarrow> more_places x x' \<Longrightarrow> i < length (v_handles x) \<Longrightarrow> par_type x' f i = par_type x f i"
  using par_type_cong [of x x' i f] by (simp add: more_places_def)

lemma agrees_more:
  assumes "places_ok x" "more_places x x'" "v_pars x' = v_pars x" "stack_agrees x f ts" shows "stack_agrees x' f ts"
proof -
  have "list_all2 (\<lambda>p t. p < length (v_handles x) \<and> par_type x f p = Some t) (rev (v_pars x')) ts" using assms(3,4) by (simp add: stack_agrees_def)
  then show ?thesis unfolding stack_agrees_def
    by (rule list_all2_mono) (use assms(2) more_places_type [OF assms(1,2)] in \<open>auto simp: more_places_def\<close>)
qed

lemma agrees_len: "stack_agrees x f ts \<Longrightarrow> v_len x = length ts"
  unfolding stack_agrees_def by (drule list_all2_lengthD) simp

lemma agrees_drop:
  assumes a: "stack_agrees x f ts" and n: "n \<le> length ts" shows "stack_agrees (pars_drop n x) f (drop n ts)"
proof -
  have "rev (take (v_len x - n) (v_pars x)) = drop n (rev (v_pars x))" using n agrees_len [OF a] by (simp add: rev_take)
  then show ?thesis using a unfolding stack_agrees_def by (simp add: pars_drop_def list_all2_dropI)
qed

lemma agrees_push: "stack_agrees x f ts \<Longrightarrow> p < length (v_handles x) \<Longrightarrow> par_type x f p = Some t \<Longrightarrow> stack_agrees (pars_push p x) f (t # ts)"
  by (simp add: stack_agrees_def pars_push_def)

lemma agrees_top:
  assumes "stack_agrees x f ts" "v_pars x \<noteq> []"
  obtains s us where "ts = s # us" "par_type x f (v_top x) = Some s" "v_top x < length (v_handles x)"
  using assms by (cases "v_pars x" rule: rev_cases) (auto simp: stack_agrees_def list_all2_Cons1)

lemma agrees_two:
  assumes "stack_agrees x f ts" "\<not> v_len x < 2"
  obtains s d us where "ts = s # d # us" "par_type x f (v_top x) = Some s" "par_type x f (v_below x) = Some d"
    "v_top x < length (v_handles x)" "v_below x < length (v_handles x)"
proof -
  obtain ps q p where "v_pars x = ps @ [q, p]"
  proof (cases "v_pars x" rule: rev_cases)
    case (snoc qs p)
    then show ?thesis using assms(2) that by (cases qs rule: rev_cases) auto
  qed (use assms(2) in simp)
  then show ?thesis using assms(1) that by (auto simp: stack_agrees_def list_all2_Cons1 nth_append)
qed

text \<open>Interning a place, and the type of a place from that of its parent.\<close>

lemma interned:
  assumes "places_ok x" "length (v_handles x) < W32" "parent_ok (length (v_handles x)) p" "comp_context_intern_par x p = Some (i, x')"
  shows "more_places x x' \<and> i < length (v_handles x') \<and> h_par (v_handles x' ! i) = p \<and> v_pars x' = v_pars x \<and> length (v_handles x') \<le> Suc (length (v_handles x))"
proof -
  have f: "places_ok x'" "h_par (v_handles x' ! i) = p" "i < length (v_handles x')"
    and "x' = x \<or> (\<exists>t. x' = x\<lparr>v_handles := v_handles x @ [fresh_handle p], v_table := t\<rparr>)"
    using intern_par_facts [OF assms(1-3)] assms(4) by auto
  then consider "x' = x" | t where "x' = x\<lparr>v_handles := v_handles x @ [fresh_handle p], v_table := t\<rparr>" by blast
  then have "x_globals x' = x_globals x \<and> x_funcs x' = x_funcs x \<and> v_pars x' = v_pars x \<and> length (v_handles x) \<le> length (v_handles x')
     \<and> length (v_handles x') \<le> Suc (length (v_handles x)) \<and> (\<forall>j<length (v_handles x). h_par (v_handles x' ! j) = h_par (v_handles x ! j))"
    by cases (simp_all add: nth_append)
  then show ?thesis using f by (simp add: more_places_def)
qed

lemma par_type_step:
  assumes x: "places_ok x" "i < length (v_handles x)"
  shows "par_type x f i = (let p = h_par (v_handles x ! i) in case par_kind p of
          PAR_LOCAL \<Rightarrow> Some (if length (fn_vars f) \<le> par_i p then TYPE_INVALID_ID else v_tid (fn_vars f ! par_i p))
        | PAR_ARG \<Rightarrow> Some (if length (fn_vars f) \<le> par_i p then TYPE_INVALID_ID else v_tid (fn_vars f ! par_i p))
        | PAR_GLOBAL \<Rightarrow> Some (if length (x_globals x) \<le> par_i p then TYPE_INVALID_ID else v_tid (g_var (x_globals x ! par_i p)))
        | PAR_STRUCT_FILED \<Rightarrow> map_option (\<lambda>t. field_type (fn_types f) t (par_i p)) (par_type x f (par_parent p))
        | PAR_ARR_MEMBER \<Rightarrow> map_option (member_type (fn_types f)) (par_type x f (par_parent p)))"
proof (cases "is_projection (h_par (v_handles x ! i))")
  case True
  let ?q = "par_parent (h_par (v_handles x ! i))"
  have q: "?q < i" using x True by (auto simp: places_ok_def parent_ok_def)
  have "par_type_fuel i x f ?q = par_type x f ?q"
    using par_type_fuel_ok [OF x(1) q, of f] par_type_own [OF x(1), of ?q f] q x(2) by simp
  then show ?thesis using x(2) par_type_own [OF x, of f] True by (simp add: Let_def is_projection_def split: par_kind.split)
next
  case False
  then show ?thesis using x(2) par_type_own [OF x, of f] by (simp add: Let_def is_projection_def split: par_kind.split)
qed

section \<open>Checking without a reporter\<close>

lemma report_none [simp]: "report_type_check None e x = bad x" "report_index_error None k op loc i n x = bad x"
  "report_type_error None k op loc p a b x = bad x" "report_stack_underflow None op loc n x = bad x"
  by (simp_all add: report_type_check_def report_index_error_def report_type_error_def report_stack_underflow_def)

lemma kind_of_iff:
  "kind_of f t = Some (TYPE_ARRAY e k d) \<longleftrightarrow> d = 0 \<and> type_idx_valid (fn_types f) t \<and> (\<exists>d. t_kind (fn_types f ! t) = TYPE_ARRAY e k d)"
  "kind_of f t = Some (TYPE_SLICE e) \<longleftrightarrow> type_idx_valid (fn_types f) t \<and> t_kind (fn_types f ! t) = TYPE_SLICE e"
  "kind_of f t = Some (TYPE_VIEW e) \<longleftrightarrow> type_idx_valid (fn_types f) t \<and> t_kind (fn_types f ! t) = TYPE_VIEW e"
  "kind_of f t = Some (TYPE_NATIVE_FUNC_POINTER s) \<longleftrightarrow> type_idx_valid (fn_types f) t \<and> t_kind (fn_types f ! t) = TYPE_NATIVE_FUNC_POINTER s"
  by (auto simp: kind_of_def skind_eq)

lemma array_kind: "tid_is_array f t \<Longrightarrow> \<exists>k. kind_of f t = Some (TYPE_ARRAY (arr_elem (t_kind (fn_types f ! t))) k 0)"
  by (auto simp: tid_is_array_def kind_of_iff split: type_kind.splits)

lemma slice_kind: "tid_is_slice f t \<Longrightarrow> kind_of f t = Some (TYPE_SLICE (ref_elem (t_kind (fn_types f ! t))))"
  by (auto simp: tid_is_slice_def kind_of_iff split: type_kind.splits)

lemma ref_kind: "tid_is_ref f t \<Longrightarrow> kind_of f t = Some (TYPE_SLICE (ref_elem (t_kind (fn_types f ! t))))
    \<or> kind_of f t = Some (TYPE_VIEW (ref_elem (t_kind (fn_types f ! t))))"
  by (auto simp: tid_is_ref_def kind_of_iff split: type_kind.splits)

lemma operands_ok:
  assumes "check_operands None f op loc (zip ws ps) x = ok x1" "list_all2 (\<lambda>p t. par_type x f p = Some t) ps us" "length ws \<le> length ps"
  shows "x1 = x \<and> take (length ws) us = ws"
  using assms
proof (induction ws arbitrary: ps us)
  case (Cons w ws)
  then obtain p ps' u us' where "ps = p # ps'" "us = u # us'" by (cases ps; cases us) auto
  then show ?case using Cons by (auto split: if_splits)
qed simp

lemma length_sig_tids [simp]: "length (sig_tids s) = sig_len s"
  by (simp add: sig_tids_def sig_len_def)

lemma sig_ok:
  assumes a: "stack_agrees x f ts" and c: "type_check_sig None f s start op loc x = ok x1"
  shows "x1 = x \<and> start + sig_len s \<le> length ts \<and> take (sig_len s) (drop start (rev ts)) = sig_tids s"
proof -
  have le: "start + sig_len s \<le> v_len x" and k: "check_operands None f op loc (zip (sig_tids s) (drop start (v_pars x))) x = ok x1"
    using c by (auto simp: type_check_sig_def split: if_splits)
  have "list_all2 (\<lambda>p t. p < length (v_handles x) \<and> par_type x f p = Some t) (v_pars x) (rev ts)"
    using a unfolding stack_agrees_def by (subst list_all2_rev [symmetric]) simp
  then have "list_all2 (\<lambda>p t. par_type x f p = Some t) (v_pars x) (rev ts)" by (rule list_all2_mono) simp
  from operands_ok [OF k list_all2_dropI [OF this]] le agrees_len [OF a] show ?thesis by simp
qed

lemma two_ok:
  assumes "stack_agrees x f ts" "with_two None f op loc x k = ok x1"
  obtains s d us where "ts = s # d # us" "k d s = ok x1" "par_type x f (v_top x) = Some s" "par_type x f (v_below x) = Some d"
proof -
  have "\<not> v_len x < 2" using assms(2) by (auto simp: with_two_def split: if_splits)
  from agrees_two [OF assms(1) this] obtain s d us where t: "ts = s # d # us" "par_type x f (v_top x) = Some s" "par_type x f (v_below x) = Some d" by metis
  have "k d s = ok x1" using assms(2) t(2,3) by (simp add: with_two_def split: if_splits)
  with t show ?thesis by (intro that)
qed

text \<open>The checks of operations with two operands.\<close>

lemma checked_two:
  assumes a: "stack_agrees x f ts" and k: "k \<in> {OP_ARR_PUSH, OP_ARR_DROP, OP_ARR_AT, OP_SLICE_FROM_AR, OP_SLICE_FROM_ONE, OP_SLICE_INC, OP_SLICE_DEC, OP_SLICE_AT,
      OP_ASSIGN, OP_ADD_ASSIGN, OP_SUB_ASSIGN, OP_MUL_ASSIGN, OP_DIV_ASSIGN, OP_AND_ASSIGN, OP_OR_ASSIGN, OP_XOR_ASSIGN}"
    and c: "type_check_kind k None f op loc x = ok x1" and o: "o_kind op = k"
  shows "x1 = x \<and> typed_op f gs fs k n ts \<noteq> None"
proof -
  have "\<exists>K. type_check_kind k None f op loc x = with_two None f op loc x K" using k
    by (auto simp: check_arr_push_def check_arr_drop_def check_arr_at_def check_slice_from_ar_def check_slice_from_one_def check_slice_move_def check_slice_at_def
        check_assign_def)
  then obtain K where K: "type_check_kind k None f op loc x = with_two None f op loc x K" by blast
  obtain s d us where t: "ts = s # d # us" "par_type x f (v_top x) = Some s" "par_type x f (v_below x) = Some d"
    using two_ok [OF a c [unfolded K]] by metis
  have l: "v_len x = Suc (Suc (length us))" using agrees_len [OF a] t(1) by simp
  show ?thesis using k c o t(1) array_kind [of f d] array_kind [of f s] slice_kind [of f d] ref_kind [of f d]
    by (auto simp: with_two_def l t(2,3) [unfolded l, simplified] check_arr_push_def check_arr_drop_def check_arr_at_def check_slice_from_ar_def
        check_slice_from_one_def check_slice_move_def check_slice_at_def check_assign_def tid_is_int_def type_is_array_of_def kind_of_def split: if_splits)
qed


lemma valid_kind: "type_idx_valid (fn_types f) t \<Longrightarrow> kind_of f t \<noteq> None"
  by (simp add: kind_of_def)

lemma checked_one:
  assumes a: "stack_agrees x f ts" and k: "k \<in> {OP_NULL, OP_PUSH_VAR, OP_PUSH_ARG, OP_PUSH_GLOBAL, OP_BIT_NOT_ASSIGN, OP_STRUCT_AT}"
    and c: "type_check_kind k None f op loc x = ok x1"
  shows "x1 = x \<and> typed_op f (x_globals x) fs k (o_extra op) ts \<noteq> None"
proof (cases "k = OP_BIT_NOT_ASSIGN \<or> k = OP_STRUCT_AT")
  case True
  then have "v_pars x \<noteq> []" using c by (auto simp: check_bit_not_def check_struct_at_def split: if_splits)
  from agrees_top [OF a this] obtain s us where t: "ts = s # us" "par_type x f (v_top x) = Some s" by metis
  then show ?thesis using c True
    by (auto simp: check_bit_not_def check_struct_at_def tid_is_int_def kind_of_def split: if_splits type_kind.splits)
next
  case False
  then show ?thesis using k c valid_kind by (auto simp: check_local_def check_global_def split: if_splits)
qed

lemma checked_call:
  assumes a: "stack_agrees x f ts" and c: "check_call None f op loc x = ok x1" and f: "sig_len (fn_sig (x_funcs x ! o_extra op)) < W32"
  shows "x1 = x \<and> typed_op f gs (x_funcs x) OP_CALL (o_extra op) ts \<noteq> None"
proof -
  let ?s = "fn_sig (x_funcs x ! o_extra op)"
  have n: "o_extra op < length (x_funcs x)" and t: "type_check_sig None f ?s (v_len x - sig_len ?s) op loc x = ok x1"
    using c f by (auto simp: check_call_def Let_def u32_id split: if_splits)
  from sig_ok [OF a t] agrees_len [OF a] have x1: "x1 = x" "sig_len ?s \<le> length ts"
    and e: "take (sig_len ?s) (drop (length ts - sig_len ?s) (rev ts)) = sig_tids ?s" by auto
  have "drop (length ts - sig_len ?s) (rev ts) = rev (take (sig_len ?s) ts)" using x1(2) by (simp add: rev_take)
  then have "rev (take (sig_len ?s) ts) = sig_tids ?s" using e by simp
  then have "take (sig_len ?s) ts = rev (sig_tids ?s)" by (metis rev_rev_ident)
  then show ?thesis using x1(1) n by (simp add: typed_call_def)
qed

lemma native_sig_typed:
  assumes a: "stack_agrees x f ts" and s: "native_sig_on_stack x f = Some (Some s)"
  obtains h hs where "ts = h # hs" "kind_of f h = Some (TYPE_NATIVE_FUNC_POINTER s)"
proof -
  have "v_pars x \<noteq> []" using s by (auto simp: native_sig_on_stack_def split: if_splits)
  from agrees_top [OF a this] obtain h hs where t: "ts = h # hs" "par_type x f (v_top x) = Some h" by metis
  have "kind_of f h = Some (TYPE_NATIVE_FUNC_POINTER s)"
    using s t(2) by (auto simp: native_sig_on_stack_def kind_of_iff split: if_splits type_kind.splits)
  with t(1) show ?thesis by (rule that)
qed

lemma checked_native:
  assumes a: "stack_agrees x f ts" and c: "check_native None f op loc x = ok x1" and r: "typing_ready f"
  shows "x1 = x \<and> typed_op f gs fs OP_CALL_NATIVE_ON_STACK n ts \<noteq> None"
proof -
  obtain s where s: "native_sig_on_stack x f = Some (Some s)"
    using c by (auto simp: check_native_def split: option.splits if_splits Option.bind_splits)
  obtain h hs where t: "ts = h # hs" "kind_of f h = Some (TYPE_NATIVE_FUNC_POINTER s)" using native_sig_typed [OF a s] .
  have w: "sig_len s + 1 < W32" using typing_readyD(5) [OF r t(2)] .
  have l: "v_len x = Suc (length hs)" using agrees_len [OF a] t(1) by simp
  have m: "sig_len s \<le> length hs" "type_check_sig None f s (length hs - sig_len s) op loc x = ok x1"
    using c s w l by (auto simp: check_native_def Let_def u32_id split: if_splits)
  from sig_ok [OF a m(2)] have x1: "x1 = x" and e: "take (sig_len s) (drop (length hs - sig_len s) (rev hs @ [h])) = sig_tids s" using t(1) by auto
  have "drop (length hs - sig_len s) (rev hs) = rev (take (sig_len s) hs)" using m(1) by (simp add: rev_take)
  then have "rev (take (sig_len s) hs) = sig_tids s" using e m(1) by simp
  then have "take (sig_len s) hs = rev (sig_tids s)" by (metis rev_rev_ident)
  then show ?thesis using x1 t by (simp add: typed_call_def)
qed

text \<open>What the check of an operation says; a drop is only checked by its effect.\<close>

lemma checked_typed:
  assumes "stack_agrees x f ts" "typing_ready f" "type_check_op None f op loc x = ok x1"
    and "o_kind op = OP_CALL \<Longrightarrow> sig_len (fn_sig (x_funcs x ! o_extra op)) < W32"
  shows "x1 = x \<and> (o_kind op = OP_DROP \<or> typed_op f (x_globals x) (x_funcs x) (o_kind op) (o_extra op) ts \<noteq> None)"
  using assms(3,4) checked_two [OF assms(1) _ _ refl] checked_one [OF assms(1)] checked_call [OF assms(1)] checked_native [OF assms(1) _ assms(2)]
  unfolding type_check_op_def by (cases "o_kind op") (metis insert_iff type_check_kind.simps(2) type_check_kind.simps(16,17) Pair_inject option.inject)+

section \<open>The effect on the stack of places\<close>

text \<open>The context after a step: as many new places as allowed, and a stack of the new types.\<close>

definition steps_to :: "cctx \<Rightarrow> func \<Rightarrow> nat list \<Rightarrow> cctx \<Rightarrow> bool" where
  "steps_to x f us x' \<longleftrightarrow> more_places x x' \<and> length (v_handles x') \<le> Suc (length (v_handles x)) \<and> stack_agrees x' f us"

lemma more_places_pars [simp]: "places_ok x \<Longrightarrow> more_places x x" "more_places x (x'\<lparr>v_pars := ps\<rparr>) \<longleftrightarrow> more_places x x'"
  by (simp_all add: more_places_def places_ok_def)

lemma pop_steps:
  assumes "places_ok x" "stack_agrees x f ts" "pop_after need n x = ok x'" "n \<le> need"
  shows "n \<le> length ts \<and> steps_to x f (drop n ts) x'"
proof -
  have l: "need \<le> length ts" "x' = pars_drop n x" using assms(3) agrees_len [OF assms(2)] by (auto simp: pop_after_def split: if_splits)
  then show ?thesis using agrees_drop [OF assms(2), of n] assms(1,4) by (simp add: steps_to_def pars_drop_def)
qed

lemma push_steps:
  assumes x: "places_ok x" "length (v_handles x) < W32" "stack_agrees x f ts" and p: "\<not> is_projection p" "push_place p x = ok x'"
    and t: "(case par_kind p of PAR_GLOBAL \<Rightarrow> par_i p < length (x_globals x) \<and> t = v_tid (g_var (x_globals x ! par_i p))
      | _ \<Rightarrow> par_i p < length (fn_vars f) \<and> t = v_tid (fn_vars f ! par_i p))"
  shows "steps_to x f (t # ts) x'"
proof -
  obtain i y where y: "comp_context_intern_par x p = Some (i, y)" "x' = pars_push i y" using p(2) by (auto simp: push_place_def split: Option.bind_splits)
  note m = interned [OF x(1,2) _ y(1), unfolded parent_ok_def]
  have m: "more_places x y" "i < length (v_handles y)" "h_par (v_handles y ! i) = p" "v_pars y = v_pars x" "length (v_handles y) \<le> Suc (length (v_handles x))"
    using m p(1) by simp_all
  have "par_type y f i = Some t"
    using par_type_step [of y i f] m(1-3) p(1) t by (simp add: more_places_def is_projection_def Let_def split: par_kind.splits)
  then have "stack_agrees (pars_push i y) f (t # ts)" by (rule agrees_push [OF agrees_more [OF x(1) m(1,4) x(3)] m(2)])
  then show ?thesis using m y(2) by (simp add: steps_to_def pars_push_def)
qed

lemma project_steps:
  assumes x: "places_ok x" "length (v_handles x) < W32" "stack_agrees x f ts" "n \<le> length ts"
    and p: "is_projection p" "par_parent p < length (v_handles x)" "par_type x f (par_parent p) = Some a"
    and i: "comp_context_intern_par x p = Some (i, y)"
  shows "steps_to x f ((if par_kind p = PAR_ARR_MEMBER then member_type (fn_types f) a else field_type (fn_types f) a (par_i p)) # drop n ts) (replace_top n i y)"
proof -
  have "parent_ok (length (v_handles x)) p" using p(2) by (simp add: parent_ok_def)
  from interned [OF x(1,2) this i] have m: "more_places x y" "i < length (v_handles y)" "h_par (v_handles y ! i) = p" "v_pars y = v_pars x"
    "length (v_handles y) \<le> Suc (length (v_handles x))" by simp_all
  let ?t = "if par_kind p = PAR_ARR_MEMBER then member_type (fn_types f) a else field_type (fn_types f) a (par_i p)"
  have "places_ok y" using m(1) by (simp add: more_places_def)
  from par_type_step [OF this m(2), of f] have t: "par_type y f i = Some ?t"
    using m(3) p more_places_type [OF x(1) m(1) p(2), of f] by (auto simp: is_projection_def Let_def)
  have "stack_agrees (pars_drop n y) f (drop n ts)" by (rule agrees_drop [OF agrees_more [OF x(1) m(1,4) x(3)] x(4)])
  from agrees_push [OF this, of i ?t] have "stack_agrees (pars_push i (pars_drop n y)) f (?t # drop n ts)" using m(2) t by (simp add: pars_drop_def)
  moreover have "replace_top n i y = pars_push i (pars_drop n y)" by (simp add: replace_top_def pars_push_def pars_drop_def)
  ultimately show ?thesis using m(1,5) by (simp add: steps_to_def pars_push_def pars_drop_def)
qed

lemma effect_typed:
  assumes x: "places_ok x" "length (v_handles x) < W32" "stack_agrees x f ts"
    and t: "k = OP_DROP \<or> typed_op f (x_globals x) (x_funcs x) k n ts \<noteq> None" and e: "scan_effect k n f x = ok x'"
  shows "\<exists>us. typed_op f (x_globals x) (x_funcs x) k n ts = Some us \<and> steps_to x f us x'"
proof -
  note pop = pop_steps [OF x(1,3)]
  have l: "v_len x = length ts" by (rule agrees_len [OF x(3)])
  consider (push) "k \<in> {OP_PUSH_VAR, OP_PUSH_ARG, OP_PUSH_GLOBAL}" | (null) "k = OP_NULL" | (drop) "k = OP_DROP" | (bit) "k = OP_BIT_NOT_ASSIGN"
    | (at) "k \<in> {OP_ARR_AT, OP_SLICE_AT}" | (field) "k = OP_STRUCT_AT" | (call) "k = OP_CALL" | (native) "k = OP_CALL_NATIVE_ON_STACK"
    | (two) "k \<in> {OP_ARR_PUSH, OP_ARR_DROP, OP_SLICE_FROM_AR, OP_SLICE_FROM_ONE, OP_SLICE_INC, OP_SLICE_DEC,
      OP_ASSIGN, OP_ADD_ASSIGN, OP_SUB_ASSIGN, OP_MUL_ASSIGN, OP_DIV_ASSIGN, OP_AND_ASSIGN, OP_OR_ASSIGN, OP_XOR_ASSIGN}"
    by (cases k) simp_all
  then show ?thesis
  proof cases
    case push
    then obtain us t where "typed_op f (x_globals x) (x_funcs x) k n ts = Some (t # ts)" "us = t # ts" using t by (auto split: if_splits)
    then show ?thesis using push e push_steps [OF x, of "\<lparr>par_kind = PAR_LOCAL, par_i = n, par_parent = 0\<rparr>" x' t]
        push_steps [OF x, of "\<lparr>par_kind = PAR_ARG, par_i = n, par_parent = 0\<rparr>" x' t] push_steps [OF x, of "\<lparr>par_kind = PAR_GLOBAL, par_i = n, par_parent = 0\<rparr>" x' t]
      by (auto simp: is_projection_def split: if_splits)
  next
    case null
    then show ?thesis using e x by (simp add: steps_to_def)
  next
    case drop
    then show ?thesis using e pop [of n n x'] by auto
  next
    case bit
    then obtain us where us: "typed_op f (x_globals x) (x_funcs x) k n ts = Some us" using t by auto
    with bit have "us = ts" by (auto elim!: typed_cases split: if_splits)
    then show ?thesis using us bit e pop [of 1 0 x'] by auto
  next
    case at
    then obtain us where us: "typed_op f (x_globals x) (x_funcs x) k n ts = Some us" using t by auto
    with at obtain i a ts' e' where s: "ts = i # a # ts'" "us = e' # ts'" "member_type (fn_types f) a = e'"
      by (auto elim!: typed_cases split: option.splits type_kind.splits if_splits simp: kind_of_iff member_type_def)
    then have "\<not> v_len x < 2" using l by simp
    from agrees_two [OF x(3) this] s(1) have b: "par_type x f (v_below x) = Some a" "v_below x < length (v_handles x)" by auto
    obtain j y where "comp_context_intern_par x \<lparr>par_kind = PAR_ARR_MEMBER, par_i = 0, par_parent = v_below x\<rparr> = Some (j, y)" "x' = replace_top 2 j y"
      using at e by (auto split: if_splits Option.bind_splits)
    with project_steps [OF x, of 2 "\<lparr>par_kind = PAR_ARR_MEMBER, par_i = 0, par_parent = v_below x\<rparr>" a j y] b s us show ?thesis
      by (simp add: is_projection_def)
  next
    case field
    then obtain us where us: "typed_op f (x_globals x) (x_funcs x) k n ts = Some us" using t by auto
    with field obtain a ts' e' where s: "ts = a # ts'" "us = e' # ts'" "field_type (fn_types f) a n = e'"
      by (auto elim!: typed_cases split: option.splits type_kind.splits if_splits simp: kind_of_def skind_eq field_type_def)
    then have "v_pars x \<noteq> []" using l by auto
    from agrees_top [OF x(3) this] s(1) have b: "par_type x f (v_top x) = Some a" "v_top x < length (v_handles x)" by auto
    obtain j y where "comp_context_intern_par x \<lparr>par_kind = PAR_STRUCT_FILED, par_i = n, par_parent = v_top x\<rparr> = Some (j, y)" "x' = replace_top 1 j y"
      using field e by (auto split: if_splits Option.bind_splits)
    with project_steps [OF x, of 1 "\<lparr>par_kind = PAR_STRUCT_FILED, par_i = n, par_parent = v_top x\<rparr>" a j y] b s us show ?thesis
      by (simp add: is_projection_def)
  next
    case call
    then show ?thesis using e t pop [of "sig_len (fn_sig (x_funcs x ! n))" "length (s_ins (fn_sig (x_funcs x ! n)))" x']
      by (auto simp: typed_call_def Let_def sig_len_def split: if_splits)
  next
    case native
    then obtain us where us: "typed_op f (x_globals x) (x_funcs x) k n ts = Some us" using t by auto
    obtain s where s: "native_sig_on_stack x f = Some (Some s)" "pop_after (sig_len s + 1) (length (s_ins s) + 1) x = ok x'"
      using native e by (auto split: option.splits Option.bind_splits)
    obtain h hs where "ts = h # hs" "kind_of f h = Some (TYPE_NATIVE_FUNC_POINTER s)" using native_sig_typed [OF x(3) s(1)] .
    then show ?thesis using native us pop [OF s(2)] by (auto simp: typed_call_def sig_len_def split: if_splits)
  next
    case two
    then obtain us where us: "typed_op f (x_globals x) (x_funcs x) k n ts = Some us" using t by auto
    have "pop_after 2 1 x = ok x' \<or> pop_after 1 1 x = ok x'" using two e by auto
    then have p: "steps_to x f (drop 1 ts) x'" using pop [of 2 1 x'] pop [of 1 1 x'] by auto
    moreover have "us = drop 1 ts" using two us
      by (auto elim!: typed_cases split: option.splits type_kind.splits if_splits)
    ultimately show ?thesis using us by simp
  qed
qed

section \<open>The first pass\<close>

text \<open>Recording a hold changes no place and no stack.\<close>

definition same_places :: "cctx \<Rightarrow> cctx \<Rightarrow> bool" where
  "same_places x x' \<longleftrightarrow> more_places x x' \<and> v_pars x' = v_pars x \<and> length (v_handles x') = length (v_handles x)"

lemma same_places_refl [simp]: "places_ok x \<Longrightarrow> same_places x x"
  by (simp add: same_places_def)

lemma pars_update_same [simp]: "(map h_par hs)[i := h_par (hs ! i)] = map h_par hs"
  by (cases "i < length hs") (simp_all add: list_update_same_conv list_update_beyond)

lemma hold_places: "places_ok x \<Longrightarrow> add_hold owner held loc b x = ok x' \<Longrightarrow> same_places x x'"
  by (auto simp: add_hold_def handle_add_hold_def set_handle_def same_places_def more_places_def places_ok_def Let_def map_update nth_list_update
      split: if_splits Option.bind_splits)

lemma region_ok: "check_portal_region None f st portal backing loc op x = ok x' \<Longrightarrow> x' = x"
  by (auto simp: check_portal_region_def report_portal_def split: Option.bind_splits if_splits)

lemma and_then_ok: "and_then m k = ok x' \<longleftrightarrow> (\<exists>y. m = ok y \<and> k y = ok x')"
  by (auto simp: and_then_def split: option.splits if_splits)

lemma or_fail_ok: "or_fail m = ok x' \<longleftrightarrow> m = ok x'"
  by (auto simp: or_fail_def)

lemma first_pass_places:
  assumes "places_ok x"
  shows "first_pass_slice None f st op loc x = ok x' \<Longrightarrow> same_places x x'" "first_pass_one None f st op loc x = ok x' \<Longrightarrow> same_places x x'"
    "first_pass_assign None f st op loc x = ok x' \<Longrightarrow> same_places x x'"
  using assms hold_places [OF assms]
  by (auto simp: first_pass_slice_def first_pass_one_def first_pass_assign_def Let_def and_then_ok report_portal_def
      split: if_splits Option.bind_splits dest!: region_ok)

text \<open>One operation of the scan: its check, its holds and its effect.\<close>

lemma scanned_typed:
  assumes x: "places_ok x" "length (v_handles x) < W32" "stack_agrees x f ts" and f: "f = x_funcs x ! current" "typing_ready f"
    and s: "o_kind op = OP_CALL \<Longrightarrow> sig_len (fn_sig (x_funcs x ! o_extra op)) < W32"
    and h: "type_check_first_pass_op None x st current op loc = ok x1" and e: "scan_effect (o_kind op) (o_extra op) f x1 = ok x2"
  shows "\<exists>us. typed_op f (x_globals x) (x_funcs x) (o_kind op) (o_extra op) ts = Some us \<and> steps_to x f us x2"
proof -
  obtain y where y: "type_check_op None f op loc x = ok y"
    "(if o_kind op = OP_SLICE_FROM_AR then first_pass_slice None f st op loc y else if o_kind op = OP_SLICE_FROM_ONE then first_pass_one None f st op loc y
        else if o_kind op = OP_ASSIGN then first_pass_assign None f st op loc y else ok y) = ok x1"
    using h unfolding type_check_first_pass_op_def Let_def and_then_ok or_fail_ok f(1) by blast
  note c = checked_typed [OF x(3) f(2) y(1) s]
  have p: "same_places x x1" using y(2) c first_pass_places [OF x(1)] x(1) by (auto split: if_splits)
  then have p1: "places_ok x1" "length (v_handles x1) < W32" "x_globals x1 = x_globals x" "x_funcs x1 = x_funcs x"
    using x(2) by (simp_all add: same_places_def more_places_def)
  have "stack_agrees x1 f ts" using agrees_more [OF x(1) _ _ x(3)] p by (simp add: same_places_def)
  from effect_typed [OF p1(1,2) this _ e] c p1(3,4) obtain us where us: "typed_op f (x_globals x) (x_funcs x) (o_kind op) (o_extra op) ts = Some us" "steps_to x1 f us x2"
    by auto
  have "steps_to x f us x2" using us(2) p by (auto simp: steps_to_def same_places_def more_places_def)
  with us(1) show ?thesis by blast
qed

section \<open>Checked operations compile\<close>

lemma typed_op_cong: "kind_of g = kind_of f \<Longrightarrow> fn_vars g = fn_vars f \<Longrightarrow> typed_op g gs fs k n ts = typed_op f gs fs k n ts"
  by (cases "(f, gs, fs, k, n, ts)" rule: typed_op.cases) (simp_all, (auto split: option.split type_kind.split)?)

text \<open>The same function before and after the layout pass.\<close>

definition laid_from :: "func \<Rightarrow> func \<Rightarrow> bool" where
  "laid_from f g \<longleftrightarrow> fn_vars g = fn_vars f \<and> fn_ops g = fn_ops f \<and> map (\<lambda>t. skind (t_kind t)) (fn_types g) = map (\<lambda>t. skind (t_kind t)) (fn_types f)"

lemma laid_kinds: "laid_from f g \<Longrightarrow> kind_of g = kind_of f"
proof
  fix t assume l: "laid_from f g"
  then have "length (fn_types g) = length (fn_types f)" unfolding laid_from_def by (metis length_map)
  moreover have "skind (t_kind (fn_types g ! t)) = skind (t_kind (fn_types f ! t))" if "t < length (fn_types f)"
    using l that calculation unfolding laid_from_def by (metis (no_types, lifting) nth_map)
  ultimately show "kind_of g t = kind_of f t" by (simp add: kind_of_def type_idx_valid_def)
qed

lemma checked_ops_compiled:
  assumes "scan_each (Some (type_check_first_pass_op None)) st current block is x = ok x2"
    and "places_ok x" "length (v_handles x) + length is \<le> W32" "stack_agrees x (x_funcs x ! current) (rev (c_params c))"
    and "room c" "c_ctx c = Some y" "x_globals y = x_globals x" "x_funcs y = x_funcs x"
    and "laid_from (x_funcs x ! current) (c_func c)" "typing_ready (x_funcs x ! current)" "typing_ready (c_func c)"
    and "\<forall>i\<in>set is. i < length (fn_ops (c_func c)) \<and> op_ready c (o_kind (fn_ops (c_func c) ! i)) (o_extra (fn_ops (c_func c) ! i))"
  shows "ctotal (compile_ops K is c) (\<lambda>_ c'. stack_agrees x2 (x_funcs x ! current) (rev (c_params c')))"
  using assms
proof (induction "is" arbitrary: x c)
  case Nil
  then show ?case by simp
next
  case (Cons i "is")
  let ?f = "x_funcs x ! current" and ?op = "fn_ops (c_func c) ! i" and ?ts = "rev (c_params c)"
  have op: "fn_ops ?f ! i = ?op" using Cons.prems(9) by (simp add: laid_from_def)
  obtain x1 x3 where s: "type_check_first_pass_op None x st current ?op \<lparr>loc_block = block, loc_op = i\<rparr> = ok x1"
    "scan_effect (o_kind ?op) (o_extra ?op) ?f x1 = ok x3" "scan_each (Some (type_check_first_pass_op None)) st current block is x3 = ok x2"
    using Cons.prems(1) by (auto simp: Let_def and_then_ok op)
  have r: "op_ready c (o_kind ?op) (o_extra ?op)" "i < length (fn_ops (c_func c))" using Cons.prems(12) by simp_all
  have sig: "sig_len (fn_sig (x_funcs x ! o_extra ?op)) < W32" if "o_kind ?op = OP_CALL"
    using r(1) that Cons.prems(6,8) by (simp add: op_ready_def)
  have room: "length (v_handles x) < W32" using Cons.prems(3) by simp
  obtain us where us: "typed_op ?f (x_globals x) (x_funcs x) (o_kind ?op) (o_extra ?op) ?ts = Some us" "steps_to x ?f us x3"
    using scanned_typed [OF Cons.prems(2) room Cons.prems(4) refl Cons.prems(10) sig s(1,2)] by blast
  have "fn_vars (c_func c) = fn_vars ?f" using Cons.prems(9) by (simp add: laid_from_def)
  then have "typed_op (c_func c) (x_globals y) (x_funcs y) (o_kind ?op) (o_extra ?op) ?ts = Some us"
    using us(1) typed_op_cong [OF laid_kinds [OF Cons.prems(9)]] Cons.prems(7,8) by simp
  from typed_compiles [OF Cons.prems(5,6) _ Cons.prems(11) r(1) this]
  have c: "ctotal (compile_op K (o_kind ?op) (o_extra ?op) c) (leaves us c)" by simp
  have m: "places_ok x3" "x_globals x3 = x_globals x" "x_funcs x3 = x_funcs x" "length (v_handles x3) + length is \<le> W32" "stack_agrees x3 ?f us"
    using us(2) Cons.prems(3) by (auto simp: steps_to_def more_places_def)
  have "ctotal (compile_ops K is c1) (\<lambda>_ c'. stack_agrees x2 ?f (rev (c_params c')))" if l: "leaves us c u c1" for u c1
  proof -
    have "\<forall>i\<in>set is. i < length (fn_ops (c_func c1)) \<and> op_ready c1 (o_kind (fn_ops (c_func c1) ! i)) (o_extra (fn_ops (c_func c1) ! i))"
      using Cons.prems(12) l by (simp add: leaves_def op_ready_def)
    then show ?thesis using Cons.IH [of x3 c1, unfolded m(2,3), OF s(3) m(1,4)] m(5) l Cons.prems(5-11) by (simp add: leaves_def)
  qed
  then show ?case using r(2) ctotal_mono [OF c] by (simp add: Let_def)
qed

end
