(* ===== verification/Typing_Props.thy ===== *)
theory Typing_Props
  imports Typing_Check Layout_Props
begin

text \<open>
  The checker and the compiler agree: operations the first pass accepts compile, and both keep the
  same types on their stacks.
\<close>

lemma skind_native_eq: "skind k = skind k' \<Longrightarrow> k = TYPE_NATIVE_FUNC_POINTER s \<Longrightarrow> k' = TYPE_NATIVE_FUNC_POINTER s"
  by (cases k') simp_all

lemma laid_out_alike:
  assumes l: "type_layout_all (fn_types f) = Some (True, types)"
  shows "laid_from f (f\<lparr>fn_types := types\<rparr>)" "types_closed (fn_types f)" "types_closed types"
proof -
  note r = type_layout_all_result [OF l]
  have sk: "skind (t_kind (types ! j)) = skind (t_kind (fn_types f ! j))" if "j < length (fn_types f)" for j
    using r(3) [OF that] by (simp add: skel_def)
  have "map (\<lambda>t. skind (t_kind t)) types = map (\<lambda>t. skind (t_kind t)) (fn_types f)"
    using r(1) sk by (intro nth_equalityI) simp_all
  then show "laid_from f (f\<lparr>fn_types := types\<rparr>)" by (simp add: laid_from_def)
  show c: "types_closed (fn_types f)" using layout_accepts l by blast
  show "types_closed types" unfolding types_closed_def
  proof (intro ballI conjI allI impI)
    fix t assume "t \<in> set types"
    then obtain j where j: "j < length (fn_types f)" "t = types ! j" using r(1) by (metis in_set_conv_nth)
    have m: "fn_types f ! j \<in> set (fn_types f)" using j(1) by simp
    have k: "skind (t_kind t) = skind (t_kind (fn_types f ! j))" using sk j by simp
    then have ch: "children (t_kind t) = children (t_kind (fn_types f ! j))" by (metis children_skind)
    show "type_idx_valid types c" if "c \<in> set (children (t_kind t))" for c
      using c m ch that r(1) unfolding types_closed_def type_idx_valid_def by metis
    fix s assume "t_kind t = TYPE_NATIVE_FUNC_POINTER s"
    with k have "t_kind (fn_types f ! j) = TYPE_NATIVE_FUNC_POINTER s" by (rule skind_native_eq)
    then have "sig_types_valid (fn_types f) s" using c m by (auto simp: types_closed_def)
    then show "sig_types_valid types s" using r(1) by (simp add: sig_types_valid_def type_idx_valid_def)
  qed
qed

text \<open>No native function of the table takes more operands than a count holds.\<close>

definition natives_fit :: "ctype list \<Rightarrow> bool" where
  "natives_fit types \<longleftrightarrow> (\<forall>t\<in>set types. \<forall>s. t_kind t = TYPE_NATIVE_FUNC_POINTER s \<longrightarrow> sig_len s + 1 < W32)"

lemma natives_fit_laid:
  assumes l: "type_layout_all (fn_types f) = Some (True, types)" and n: "natives_fit (fn_types f)"
  shows "typing_ready f" "typing_ready (f\<lparr>fn_types := types\<rparr>)"
proof -
  note r = type_layout_all_result [OF l]
  have "natives_fit types" unfolding natives_fit_def
  proof (intro ballI allI impI)
    fix t s assume "t \<in> set types" and s: "t_kind t = TYPE_NATIVE_FUNC_POINTER s"
    then obtain j where j: "j < length (fn_types f)" "t = types ! j" using r(1) by (metis in_set_conv_nth)
    have "skind (t_kind t) = skind (t_kind (fn_types f ! j))" using r(3) [OF j(1)] j(2) by (simp add: skel_def)
    then have "t_kind (fn_types f ! j) = TYPE_NATIVE_FUNC_POINTER s" using s by (rule skind_native_eq)
    then show "sig_len s + 1 < W32" using n j(1) unfolding natives_fit_def by (metis nth_mem)
  qed
  then show "typing_ready f" "typing_ready (f\<lparr>fn_types := types\<rparr>)"
    using laid_out_alike [OF l] n by (simp_all add: typing_ready_def natives_fit_def)
qed


text \<open>An element of an array is added to: \<open>a i ArrAt i Add\<close>.\<close>

definition checked_demo :: func where
  "checked_demo = \<lparr>fn_name = None, fn_sig = \<lparr>s_ins = [], s_outs = []\<rparr>, fn_types = [type_int, type_byte, type_array 0 4], fn_blocks = [],
     fn_ops = map (\<lambda>(k, n). \<lparr>o_kind = k, o_extra = n\<rparr>) [(OP_PUSH_VAR, 0), (OP_PUSH_VAR, 1), (OP_ARR_AT, 0), (OP_PUSH_VAR, 1), (OP_ADD_ASSIGN, 0)],
     fn_vars = [\<lparr>v_tid = 2, v_name = Some ''a''\<rparr>, \<lparr>v_tid = 0, v_name = Some ''i''\<rparr>]\<rparr>"

definition checked_cctx :: cctx where "checked_cctx = empty_cctx\<lparr>x_funcs := [checked_demo]\<rparr>"

definition checked_laid :: func where
  "checked_laid = checked_demo\<lparr>fn_types := snd (the (type_layout_all (fn_types checked_demo)))\<rparr>"

definition checked_compiler :: compiler where
  "checked_compiler = (compiler_start (\<lambda>n. True) checked_laid (Some (compile_ctx.truncate checked_cctx)))
     \<lparr>c_vars := [\<lparr>vl_tid = 2, vl_base = 0, vl_live = True\<rparr>, \<lparr>vl_tid = 0, vl_base = 40, vl_live = True\<rparr>], c_frame_size := 48\<rparr>"

definition checked_start :: scan_state where "checked_start = \<lparr>ss_scope_depth = 0, ss_var_depths = [0, 0]\<rparr>"


end
