(* ===== verification/Spec2Isabelle.thy ===== *)
theory Spec2Isabelle
  imports Layout_Props Lowering_Props Compiler_Props Borrow_Inv Lexer_Props Frontend_Props Repl_Inv Interpreter_Props Typing_Props
begin

text \<open>
  PL-stuff: a small language whose functions are trees of blocks, with cleanups that run however a
  block is left.  This is the root of a verification library for its C sources under \<^verbatim>\<open>src/\<close>; it
  imports the other theories and states nothing of its own.

  \<^bold>\<open>The program.\<close>  A line typed into the repl (\<^verbatim>\<open>repl.c\<close>) is source text of a function.  The frontend
  (\<^verbatim>\<open>frontend.c\<close>) cuts it into tokens and builds a function from them: operations, variables, types and
  an array of blocks that point to each other by index.  The loop over the tokens is not C: it is
  itself such a function, written down as blocks in \<^verbatim>\<open>compile_interpreter\<close>, compiled to bytecode and run
  on the machine with four natives of the frontend.  A finished function has its defers lowered to
  crash pads (\<^verbatim>\<open>remove_defers\<close>, \<^verbatim>\<open>ir.c\<close>), its types laid out (\<^verbatim>\<open>type_layout_all\<close>, \<^verbatim>\<open>ir.c\<close>) and is compiled
  (\<^verbatim>\<open>vm_compile_no_defers\<close>, \<^verbatim>\<open>vm.c\<close>) and run (\<^verbatim>\<open>vm_run\<close>, \<^verbatim>\<open>vm.c\<close>).  Type check and borrow check
  (\<^verbatim>\<open>verification.c\<close>) work on the same functions, before the lowering.  They share the context
  \<^verbatim>\<open>CompileContext\<close> with the compiler: globals, functions, code, places.

  \<^bold>\<open>Conventions.\<close>  A struct is a record with its own field names under a prefix, an enumeration or tagged
  union a datatype with the constructors of the source, a growable vector a list with its capacity where
  the code has one.  Numbers are natural numbers or integers; every narrowing the C code performs is
  written out (\<^verbatim>\<open>u16\<close>, \<^verbatim>\<open>u32\<close>, \<^verbatim>\<open>u64\<close>, \<^verbatim>\<open>s16\<close> in \<^verbatim>\<open>Prelude\<close>), for the LP64 target the repository builds for.
  A false return or an error code is a value with the state it leaves behind; a run that has no defined
  behaviour or does not return is a value of its own (\<^verbatim>\<open>None\<close>, \<^verbatim>\<open>CUndef\<close>, \<^verbatim>\<open>FUndef\<close>, \<^verbatim>\<open>Undef\<close>), so that no
  theorem that speaks of a result can hold because there is none.  Which allocations succeed and where
  they are placed is a parameter.
\<close>

text \<open>
  \<^bold>\<open>Theories and sources.\<close>

  \<^item> \<^verbatim>\<open>Prelude\<close>: widths, narrowing, bytes of numbers, lemmas on lists and options.
  \<^item> \<^verbatim>\<open>Ir\<close> (\<^verbatim>\<open>ir.h\<close>): types, signatures, operations, blocks, functions, globals.
  \<^item> \<^verbatim>\<open>Layout\<close>, \<^verbatim>\<open>Layout_Inv\<close>, \<^verbatim>\<open>Layout_Props\<close> (\<^verbatim>\<open>ir.c\<close>, \<^verbatim>\<open>type_layout_all\<close>): the depth first pass over the
    type table.  It always returns; it accepts the closed acyclic tables with the builtins in place and
    no others; what it accepts satisfies the layout equations, whatever was in the derived fields before.
  \<^item> \<^verbatim>\<open>Lowering\<close>, \<^verbatim>\<open>BlockTree\<close>, \<^verbatim>\<open>Lowering_Refine\<close>, \<^verbatim>\<open>TreeSem\<close>, \<^verbatim>\<open>Lowering_Props\<close> (\<^verbatim>\<open>ir.c\<close>, \<^verbatim>\<open>remove_defers\<close>): the
    in-place lowering on the array, the trees an array stands for, the lowering of trees it refines, and
    the meaning of trees, which the lowering keeps: cleanups run on every way out, crashes included.
  \<^item> \<^verbatim>\<open>Bytecode\<close> (\<^verbatim>\<open>ir.h\<close>, \<^verbatim>\<open>vm.c\<close>): opcodes, operands, the code buffer, memory.
  \<^item> \<^verbatim>\<open>Table_Iface\<close>, \<^verbatim>\<open>ParTable\<close>, \<^verbatim>\<open>ParTable_Inv\<close> (\<^verbatim>\<open>verification.c\<close>, \<^verbatim>\<open>par_idx_table_*\<close>): the hash table of places.
    The interface \<^verbatim>\<open>interner\<close> is what numbering things with such a table needs; the table interprets it.
  \<^item> \<^verbatim>\<open>Context\<close> (\<^verbatim>\<open>verification.h\<close>): the context, in the compiler's and the checker's part.
  \<^item> \<^verbatim>\<open>Compiler\<close>, \<^verbatim>\<open>Compiler_Inv\<close>, \<^verbatim>\<open>Compiler_Frame\<close>, \<^verbatim>\<open>Compiler_Props\<close> (\<^verbatim>\<open>vm.c\<close>, \<^verbatim>\<open>compile_*\<close>): the single pass
    compiler, its invariant (frame, scopes, live variables), what it leaves alone, and its balance.
  \<^item> \<^verbatim>\<open>Machine\<close>, \<^verbatim>\<open>Machine_Inv\<close>, \<^verbatim>\<open>Machine_Frame\<close>, \<^verbatim>\<open>Machine_Props\<close> (\<^verbatim>\<open>vm.c\<close>, \<^verbatim>\<open>vm_run\<close>): the machine on a flat
    byte memory, instruction by instruction, with storage, parameters and crash frames; the invariant of
    its state, calls and returns, unwinding, arithmetic, bounds checks.
  \<^item> \<^verbatim>\<open>TypeCheck\<close>, \<^verbatim>\<open>Borrow\<close>, \<^verbatim>\<open>Borrow_Inv\<close> (\<^verbatim>\<open>verification.c\<close>): the check of every operation against the
    places on a virtual stack, the scan of the blocks, holds between portals and their backing, and the
    borrow check of calls; places are numbered uniquely and every walk to a root ends.
  \<^item> \<^verbatim>\<open>Typing\<close>, \<^verbatim>\<open>Typing_Check\<close>, \<^verbatim>\<open>Typing_Props\<close>: a type system for the operations (a specification, no code).
    The checker implements it on places and the compiler on its stack of types, so what the checker
    accepts compiles.
  \<^item> \<^verbatim>\<open>Lexer\<close>, \<^verbatim>\<open>Lexer_Props\<close> (\<^verbatim>\<open>frontend.c\<close>): white space, tokens, numbers, and their round trips.
  \<^item> \<^verbatim>\<open>Frontend\<close>, \<^verbatim>\<open>Frontend_Build\<close>, \<^verbatim>\<open>Frontend_Inv\<close>, \<^verbatim>\<open>Frontend_Frame\<close>, \<^verbatim>\<open>Frontend_Props\<close> (\<^verbatim>\<open>frontend.c\<close>,
    \<^verbatim>\<open>frontend.h\<close>): the state, the words, and every operation that extends the function; the block array
    stays a tree with the current block in it, breaks leave the loop they should, and what is built can
    be lowered.
  \<^item> \<^verbatim>\<open>Interpreter\<close>, \<^verbatim>\<open>Interpreter_Code\<close>, \<^verbatim>\<open>Interpreter_Run\<close>, \<^verbatim>\<open>Interpreter_Props\<close> (\<^verbatim>\<open>frontend.c\<close>,
    \<^verbatim>\<open>frontend_compile_source\<close>): the self-hosted loop.  Its function compiles to one fixed program; the
    machine's run of that program is handling the tokens one after the other; so compiling a source
    returns, and leaves a function that can be lowered.
  \<^item> \<^verbatim>\<open>Repl\<close>, \<^verbatim>\<open>Repl_Inv\<close> (\<^verbatim>\<open>repl.c\<close>): the lines of a session and what it prints; functions, names and frontends
    stay aligned, and a session holds just the functions it announced.
\<close>

text \<open>
  \<^bold>\<open>Bounds and fuel.\<close>

  \<^item> The layout pass and the walks over places get one more than the number of types or handles, and are
    proved to return with it.
  \<^item> The lowering returns for every fuel of at least the height of the tree; the refinement and the
    preservation of meaning hold for whatever fuel it returned with.
  \<^item> \<^verbatim>\<open>en_depth\<close>, \<^verbatim>\<open>en_blocks\<close> and \<^verbatim>\<open>en_steps\<close> bound nested compilations, the depth of blocks and the steps of
    a machine.  The interpreter needs a depth of one, nine levels of blocks (\<^verbatim>\<open>good_env\<close>), and eighteen
    steps for each character of the source and seventeen more: a token takes at most eighteen
    instructions and at least one character.
  \<^item> Everywhere else a result that needs fuel is stated for the run that returned, and the cases that
    never return are theorems of their own: a function that calls itself is compiled without end, and so
    is a block array that a variable in a condition has made cyclic.

  \<^bold>\<open>Parameters.\<close>  Allocation and placement; the addresses of the static cells and of the interpreter's
  natives; the natives other programs register, and with them what a macro does; the reporters of the
  checker.  The meaning of straight-line code is a parameter of \<^verbatim>\<open>TreeSem\<close> only.

  \<^bold>\<open>Not modelled.\<close>

  \<^item> \<^verbatim>\<open>io.h\<close>: a formatted writer over \<^verbatim>\<open>vsnprintf\<close> that no file calls.
  \<^item> The programs under \<^verbatim>\<open>tests/\<close>, which exercise the library.
  \<^item> The prompt of an interactive session and the reading of lines from the terminal; a session is the
    list of its lines.
  \<^item> Null arguments, which the functions of \<^verbatim>\<open>frontend.c\<close> and \<^verbatim>\<open>verification.c\<close> refuse at once.
  \<^item> The scope kinds of \<^verbatim>\<open>verification.h\<close>, which only code that is commented out mentions.
  \<^item> That the frontend of a function and the context hold the same function: the C code has a pointer
    where the frontend's state here has the function itself, and \<^verbatim>\<open>repl.c\<close> puts it into the table when it
    is done.
\<close>

end
